(* ===== verification/Prelude.thy ===== *)
theory Prelude
  imports Main "HOL-Library.AList" "HOL-Library.Multiset" "HOL-Library.List_Lexorder"
    "HOL-Library.Char_ord" "HOL-Library.Sublist"
begin

text \<open>
  Shared vocabulary of the development: JavaScript's \<open>Map\<close> as an association list in
  insertion order, \<open>Array.prototype.slice\<close> and \<open>Array.prototype.sort\<close>, the
  environment an operation reads (fresh uuids, the clock), the two string formats that
  the zod schemas delegate to the zod package, and the lemmas on them that every
  component uses.
\<close>

section \<open>Lemma collections\<close>

named_theorems preserved \<open>an operation keeps the invariant of its component\<close>
named_theorems frame \<open>what an operation leaves alone\<close>

section \<open>JavaScript's Map\<close>

text \<open>
  A \<open>Map\<close> enumerates its entries in insertion order; \<open>set\<close> on a present key keeps the
  entry's place, on an absent key appends it. \<open>HOL-Library.AList\<close>'s update and delete
  have exactly this behaviour.
\<close>

type_synonym ('k, 'v) jsmap = "('k \<times> 'v) list"

abbreviation jsmap_set :: "'k \<Rightarrow> 'v \<Rightarrow> ('k, 'v) jsmap \<Rightarrow> ('k, 'v) jsmap" where
  "jsmap_set \<equiv> AList.update"

abbreviation jsmap_delete :: "'k \<Rightarrow> ('k, 'v) jsmap \<Rightarrow> ('k, 'v) jsmap" where
  "jsmap_delete \<equiv> AList.delete"

abbreviation jsmap_keys :: "('k, 'v) jsmap \<Rightarrow> 'k list" where
  "jsmap_keys m \<equiv> map fst m"

abbreviation jsmap_values :: "('k, 'v) jsmap \<Rightarrow> 'v list" where
  "jsmap_values m \<equiv> map snd m"

definition jsmap_wf :: "('k, 'v) jsmap \<Rightarrow> bool" where
  "jsmap_wf m \<longleftrightarrow> distinct (map fst m)"

lemma map_of_jsmap_set [simp]: "map_of (jsmap_set k v m) = (map_of m)(k \<mapsto> v)"
  by (rule update_conv')

lemma map_of_jsmap_delete [simp]: "map_of (jsmap_delete k m) = (map_of m)(k := None)"
  by (rule delete_conv')

lemma jsmap_wf_Nil [simp, intro]: "jsmap_wf []"
  by (simp add: jsmap_wf_def)

lemma jsmap_wf_set [simp, intro]: "jsmap_wf m \<Longrightarrow> jsmap_wf (jsmap_set k v m)"
  by (simp add: jsmap_wf_def distinct_update)

lemma jsmap_wf_delete [simp, intro]: "jsmap_wf m \<Longrightarrow> jsmap_wf (jsmap_delete k m)"
  by (simp add: jsmap_wf_def distinct_delete)

lemma jsmap_set_new: "map_of m k = None \<Longrightarrow> jsmap_set k v m = m @ [(k, v)]"
  by (induction m) (auto split: if_splits)

lemma jsmap_keys_set:
  "jsmap_keys (jsmap_set k v m) =
     (if map_of m k = None then jsmap_keys m @ [k] else jsmap_keys m)"
  by (simp add: update_keys map_of_eq_None_iff)

lemma jsmap_values_iff:
  "jsmap_wf m \<Longrightarrow> v \<in> set (jsmap_values m) \<longleftrightarrow> (\<exists>k. map_of m k = Some v)"
  by (auto simp: jsmap_wf_def dest: map_of_SomeD intro: map_of_is_SomeI)
     (metis map_of_SomeD image_eqI snd_conv)

lemma jsmap_entries_iff:
  "jsmap_wf m \<Longrightarrow> (k, v) \<in> set m \<longleftrightarrow> map_of m k = Some v"
  by (simp add: jsmap_wf_def)

section \<open>JavaScript's Set\<close>

text \<open>A \<open>Set\<close> in insertion order, with \<open>add\<close> and \<open>delete\<close>.\<close>

definition js_set_add :: "'a \<Rightarrow> 'a list \<Rightarrow> 'a list" where
  "js_set_add x xs = (if List.member xs x then xs else xs @ [x])"

definition js_set_delete :: "'a \<Rightarrow> 'a list \<Rightarrow> 'a list" where
  "js_set_delete x xs = filter (\<lambda>y. y \<noteq> x) xs"

lemma set_js_set [simp]:
  "set (js_set_add x xs) = insert x (set xs)" "set (js_set_delete x xs) = set xs - {x}"
  by (auto simp: js_set_add_def js_set_delete_def)

lemma js_set_add_mem [simp]: "x \<in> set xs \<Longrightarrow> js_set_add x xs = xs"
  by (simp add: js_set_add_def)

lemma distinct_js_set [simp]:
  "distinct xs \<Longrightarrow> distinct (js_set_add x xs)" "distinct xs \<Longrightarrow> distinct (js_set_delete x xs)"
  by (simp_all add: js_set_add_def js_set_delete_def)

section \<open>Array.prototype.slice\<close>

definition js_index :: "int \<Rightarrow> int \<Rightarrow> int" where
  "js_index n i = (if i < 0 then max (n + i) 0 else min i n)"

definition js_slice :: "int \<Rightarrow> int \<Rightarrow> 'a list \<Rightarrow> 'a list" where
  "js_slice s e xs =
     (let n = int (length xs); a = js_index n s; b = js_index n e
      in take (nat (b - a)) (drop (nat a) xs))"

lemma js_slice_nonneg:
  "0 \<le> s \<Longrightarrow> s \<le> e \<Longrightarrow> js_slice s e xs = take (nat (e - s)) (drop (nat s) xs)"
  by (cases "s \<le> int (length xs)"; cases "e \<le> int (length xs)")
     (auto simp: js_slice_def js_index_def Let_def)

lemma js_slice_prefix: "0 \<le> e \<Longrightarrow> js_slice 0 e xs = take (nat e) xs"
  by (simp add: js_slice_nonneg)

section \<open>Array.prototype.sort\<close>

text \<open>
  ECMAScript fixes the result of \<open>sort\<close> for a consistent comparator: the stable sorted
  permutation. Insertion sort computes it.
\<close>

primrec insert_by :: "('a \<Rightarrow> 'a \<Rightarrow> int) \<Rightarrow> 'a \<Rightarrow> 'a list \<Rightarrow> 'a list" where
  "insert_by cmp x [] = [x]"
| "insert_by cmp x (y # ys) =
     (if cmp x y \<le> 0 then x # y # ys else y # insert_by cmp x ys)"

definition js_sort :: "('a \<Rightarrow> 'a \<Rightarrow> int) \<Rightarrow> 'a list \<Rightarrow> 'a list" where
  "js_sort cmp xs = foldr (insert_by cmp) xs []"

lemma js_sort_simps [simp]:
  "js_sort cmp [] = []"
  "js_sort cmp (x # xs) = insert_by cmp x (js_sort cmp xs)"
  by (simp_all add: js_sort_def)

lemma mset_insert_by [simp]: "mset (insert_by cmp x xs) = add_mset x (mset xs)"
  by (induction xs) auto

lemma mset_js_sort [simp]: "mset (js_sort cmp xs) = mset xs"
  by (induction xs) auto

lemma set_js_sort [simp]: "set (js_sort cmp xs) = set xs"
  by (metis mset_js_sort set_mset_mset)

lemma length_js_sort [simp]: "length (js_sort cmp xs) = length xs"
  by (metis mset_js_sort size_mset)

lemma distinct_js_sort [simp]: "distinct (js_sort cmp xs) \<longleftrightarrow> distinct xs"
  by (metis mset_js_sort mset_eq_imp_distinct_iff)

text \<open>
  The interface of a comparator: a total preorder, as the specification of \<open>sort\<close> asks.
\<close>

locale js_comparator =
  fixes cmp :: "'a \<Rightarrow> 'a \<Rightarrow> int"
  assumes cmp_flip: "cmp x y < 0 \<longleftrightarrow> 0 < cmp y x"
    and cmp_trans: "cmp x y \<le> 0 \<Longrightarrow> cmp y z \<le> 0 \<Longrightarrow> cmp x z \<le> 0"
begin

lemma cmp_total: "cmp x y \<le> 0 \<or> cmp y x \<le> 0"
  using cmp_flip [of y x] cmp_flip [of x y] by linarith

lemma cmp_refl [simp]: "cmp x x = 0"
  using cmp_flip [of x x] by linarith

lemma cmp_zero_sym: "cmp x y = 0 \<longleftrightarrow> cmp y x = 0"
  using cmp_flip [of x y] cmp_flip [of y x] by linarith

lemma cmp_zero_left: "cmp x y = 0 \<Longrightarrow> cmp x z \<le> 0 \<longleftrightarrow> cmp y z \<le> 0"
  using cmp_trans [of x y z] cmp_trans [of y x z] cmp_zero_sym [of x y] by fastforce

lemma sorted_insert_by:
  "sorted_wrt (\<lambda>a b. cmp a b \<le> 0) ys \<Longrightarrow>
   sorted_wrt (\<lambda>a b. cmp a b \<le> 0) (insert_by cmp x ys)"
proof (induction ys)
  case (Cons y ys)
  have "set (insert_by cmp x ys) = insert x (set ys)"
    by (metis mset_insert_by set_mset_add_mset_insert set_mset_mset)
  with Cons show ?case using cmp_total [of x y] by (auto intro: cmp_trans)
qed simp

lemma sorted_js_sort: "sorted_wrt (\<lambda>a b. cmp a b \<le> 0) (js_sort cmp xs)"
  by (induction xs) (auto intro: sorted_insert_by)

lemma insert_by_filter:
  "sorted_wrt (\<lambda>a b. cmp a b \<le> 0) ys \<Longrightarrow>
   filter (\<lambda>a. cmp a z = 0) (insert_by cmp x ys) =
     (if cmp x z = 0 then x # filter (\<lambda>a. cmp a z = 0) ys else filter (\<lambda>a. cmp a z = 0) ys)"
proof (induction ys)
  case (Cons y ys)
  have "cmp x y \<le> 0" if "cmp x z = 0" "cmp y z = 0"
    using that cmp_trans [of x z y] cmp_zero_sym [of y z] by simp
  with Cons show ?case by auto
qed simp

text \<open>Stability: elements the comparator cannot tell apart keep their order.\<close>

lemma stable_js_sort:
  "filter (\<lambda>a. cmp a z = 0) (js_sort cmp xs) = filter (\<lambda>a. cmp a z = 0) xs"
  by (induction xs) (auto simp: insert_by_filter sorted_js_sort)

lemma hd_js_sort:
  "js_sort cmp xs = y # ys \<Longrightarrow> x \<in> set xs \<Longrightarrow> cmp y x \<le> 0"
proof -
  assume *: "js_sort cmp xs = y # ys" "x \<in> set xs"
  then have "x = y \<or> x \<in> set ys" using set_js_sort [of cmp xs] by auto
  with * sorted_js_sort [of xs] show "cmp y x \<le> 0" by auto
qed

end

text \<open>
  Comparators are built from others: by a key, and one after the other
  (\<open>a \<noteq> 0 ? a : b\<close> and \<open>a || b\<close> are the same function of two numbers).
\<close>

definition cmp_then :: "int \<Rightarrow> int \<Rightarrow> int" where
  "cmp_then a b = (if a \<noteq> 0 then a else b)"

lemma js_comparator_key:
  assumes "js_comparator c"
  shows "js_comparator (\<lambda>x y. c (f x) (f y))"
proof -
  from assms have *: "c a b < 0 \<longleftrightarrow> 0 < c b a" "c a b \<le> 0 \<Longrightarrow> c b d \<le> 0 \<Longrightarrow> c a d \<le> 0" for a b d
    by (auto simp: js_comparator_def)
  show ?thesis by unfold_locales (auto intro: * simp: *(1))
qed

lemma js_comparator_diff: "js_comparator (\<lambda>x y :: int. x - y)"
  by unfold_locales auto

lemma js_comparator_then:
  assumes c: "js_comparator c" and d: "js_comparator d"
  shows "js_comparator (\<lambda>x y. cmp_then (c x y) (d x y))"
proof -
  note cf = js_comparator.cmp_flip [OF c] and ct = js_comparator.cmp_trans [OF c]
    and cz = js_comparator.cmp_zero_sym [OF c]
    and df = js_comparator.cmp_flip [OF d] and dt = js_comparator.cmp_trans [OF d]
  have pos: "0 < c x y \<longleftrightarrow> c y x < 0" for x y using cf [of y x] by simp
  show ?thesis
  proof
    show "cmp_then (c x y) (d x y) < 0 \<longleftrightarrow> 0 < cmp_then (c y x) (d y x)" for x y
      using cf [of x y] cz [of x y] df [of x y] by (auto simp: cmp_then_def)
  next
    fix x y z
    assume 1: "cmp_then (c x y) (d x y) \<le> 0" and 2: "cmp_then (c y z) (d y z) \<le> 0"
    then have le: "c x y \<le> 0" "c y z \<le> 0" by (auto simp: cmp_then_def split: if_splits)
    then have xz: "c x z \<le> 0" by (rule ct)
    show "cmp_then (c x z) (d x z) \<le> 0"
    proof (cases "c x z = 0")
      case True
      then have zx: "c z x = 0" by (simp add: cz)
      have "c y x \<le> 0" using ct [OF le(2), of x] zx by simp
      with le(1) have xy: "c x y = 0" using pos [of y x] cf [of x y] by linarith
      have "c z y \<le> 0" using ct [of z x y] zx le(1) by simp
      with le(2) have yz: "c y z = 0" using cf [of y z] by linarith
      from 1 2 xy yz dt True show ?thesis by (auto simp: cmp_then_def)
    qed (use xz in \<open>simp add: cmp_then_def\<close>)
  qed
qed

text \<open>
  \<open>String.prototype.localeCompare\<close> is implementation-defined up to being a consistent
  comparator: the models take it as a parameter \<open>lc\<close>. Comparing by code units is the
  instance the witnesses use.
\<close>

definition code_unit_compare :: "string \<Rightarrow> string \<Rightarrow> int" where
  "code_unit_compare a b = (if a < b then -1 else if a = b then 0 else 1)"

interpretation code_units: js_comparator code_unit_compare
  by unfold_locales (auto simp: code_unit_compare_def split: if_splits)

section \<open>Strings\<close>

definition starts_with :: "string \<Rightarrow> string \<Rightarrow> bool" where
  "starts_with p s \<longleftrightarrow> take (length p) s = p"

lemma starts_with_append [simp]: "starts_with p (p @ s)"
  by (simp add: starts_with_def)

lemma starts_with_iff: "starts_with p s \<longleftrightarrow> (\<exists>t. s = p @ t)"
  by (metis append_eq_conv_conj append_take_drop_id starts_with_def)

text \<open>The white space of JavaScript's \<open>\s\<close> and \<open>trim\<close> among the 8-bit characters.\<close>

definition js_space :: "char \<Rightarrow> bool" where
  "js_space c \<longleftrightarrow> List.member [9, 10, 11, 12, 13, 32, 160 :: nat] (of_char c)"

definition js_trim :: "string \<Rightarrow> string" where
  "js_trim s = rev (dropWhile js_space (rev (dropWhile js_space s)))"

text \<open>U+2026 is outside the 8-bit characters: the code 0x85, its place in Windows-1252, stands for it.\<close>

definition ELLIPSIS :: string where
  "ELLIPSIS = [CHR 0x85]"

section \<open>The environment of an operation\<close>

text \<open>
  What one run of an operation reads from outside: the \<open>n\<close>-th call of
  \<open>crypto.randomUUID\<close> and the \<open>n\<close>-th reading of the clock. Nothing is assumed of the
  values; a lemma that needs fresh or well-formed ones says so.
\<close>

record env =
  env_uuid :: "nat \<Rightarrow> string"
  env_now :: "nat \<Rightarrow> string"

text \<open>The two string formats the schemas leave to the zod package.\<close>

record zod =
  z_uuid :: "string \<Rightarrow> bool"
  z_datetime :: "string \<Rightarrow> bool"

definition opt_ok :: "('a \<Rightarrow> bool) \<Rightarrow> 'a option \<Rightarrow> bool" where
  "opt_ok p x = (case x of None \<Rightarrow> True | Some v \<Rightarrow> p v)"

lemma opt_ok_simps [simp]: "opt_ok p None" "opt_ok p (Some v) = p v"
  by (simp_all add: opt_ok_def)

abbreviation min1 :: "string \<Rightarrow> bool" where
  "min1 s \<equiv> s \<noteq> []"

text \<open>The null-coalescing operator.\<close>

definition coalesce :: "'a option \<Rightarrow> 'a \<Rightarrow> 'a" where
  "coalesce x d = (case x of None \<Rightarrow> d | Some v \<Rightarrow> v)"

lemma coalesce_simps [simp]: "coalesce None d = d" "coalesce (Some v) d = v"
  by (simp_all add: coalesce_def)

text \<open>The samples below use formats that accept every non-empty string.\<close>

definition any_zod :: zod where
  "any_zod = \<lparr>z_uuid = (\<lambda>s. s \<noteq> []), z_datetime = (\<lambda>s. s \<noteq> [])\<rparr>"

end
