(* ===== verification/Chronicle.thy ===== *)
theory Chronicle
  imports Prelude
begin

text \<open>
  The Chronicle: the event envelope and its constructor
  (\<open>packages/knowledge/src/envelope.ts\<close>), the schema registry (\<open>registry.ts\<close>), the store
  contract (\<open>chronicle-store.ts\<close>) as a record of operations with an abstract
  specification of \<open>append\<close> and a locale of laws. The payload (\<open>z.unknown()\<close>) is a type
  parameter.
\<close>

section \<open>The envelope\<close>

datatype actor_type = UserActor | AgentActor | SystemActor | ToolActor

record chronicle_actor =
  actor_type :: actor_type
  actor_id :: string

datatype classification = Public | Internal | Confidential | Secret

record valid_time =
  vt_from :: string
  vt_to :: "string option"

record chronicle_scope =
  sc_goal :: "string option"
  sc_plan :: "string option"
  sc_task :: "string option"
  sc_episode :: "string option"
  sc_thread :: "string option"
  sc_turn :: "string option"
  sc_step :: "string option"

definition no_scope :: chronicle_scope where
  "no_scope = \<lparr>sc_goal = None, sc_plan = None, sc_task = None, sc_episode = None,
     sc_thread = None, sc_turn = None, sc_step = None\<rparr>"

record 'p new_event =
  ev_id :: string
  ev_type :: string
  ev_schemaVersion :: int
  ev_time :: string
  ev_validTime :: "valid_time option"
  ev_scope :: chronicle_scope
  ev_actor :: chronicle_actor
  ev_causationId :: "string option"
  ev_correlationId :: string
  ev_parentIds :: "string list option"
  ev_worldVersion :: "string option"
  ev_structureVersion :: "string option"
  ev_policyVersion :: "string option"
  ev_contextManifestId :: "string option"
  ev_classification :: classification
  ev_retentionClass :: string
  ev_payload :: 'p

record 'p chronicle_event = "'p new_event" +
  ev_stream :: string
  ev_sequence :: int
  ev_ingestTime :: string

definition actor_ok :: "chronicle_actor \<Rightarrow> bool" where
  "actor_ok a \<longleftrightarrow> min1 (actor_id a)"

definition valid_time_ok :: "zod \<Rightarrow> valid_time \<Rightarrow> bool" where
  "valid_time_ok z v \<longleftrightarrow> z_datetime z (vt_from v) \<and> opt_ok (z_datetime z) (vt_to v)"

definition scope_ok :: "chronicle_scope \<Rightarrow> bool" where
  "scope_ok s \<longleftrightarrow> opt_ok min1 (sc_goal s) \<and> opt_ok min1 (sc_plan s) \<and> opt_ok min1 (sc_task s) \<and>
     opt_ok min1 (sc_episode s) \<and> opt_ok min1 (sc_thread s) \<and> opt_ok min1 (sc_turn s) \<and>
     opt_ok min1 (sc_step s)"

text \<open>\<open>NewChronicleEventSchema\<close>: what \<open>safeParse\<close> accepts.\<close>

definition new_event_ok :: "zod \<Rightarrow> ('p, 'x) new_event_scheme \<Rightarrow> bool" where
  "new_event_ok z e \<longleftrightarrow>
     z_uuid z (ev_id e) \<and> min1 (ev_type e) \<and> 0 < ev_schemaVersion e \<and> z_datetime z (ev_time e) \<and>
     opt_ok (valid_time_ok z) (ev_validTime e) \<and> scope_ok (ev_scope e) \<and> actor_ok (ev_actor e) \<and>
     opt_ok (z_uuid z) (ev_causationId e) \<and> z_uuid z (ev_correlationId e) \<and>
     opt_ok (list_all (z_uuid z)) (ev_parentIds e) \<and> opt_ok min1 (ev_worldVersion e) \<and>
     opt_ok min1 (ev_structureVersion e) \<and> opt_ok min1 (ev_policyVersion e) \<and>
     opt_ok min1 (ev_contextManifestId e) \<and> min1 (ev_retentionClass e)"

text \<open>\<open>ChronicleEventSchema\<close>: the stored event adds the position the store assigned.\<close>

definition stored_event_ok :: "zod \<Rightarrow> 'p chronicle_event \<Rightarrow> bool" where
  "stored_event_ok z e \<longleftrightarrow> new_event_ok z e \<and> min1 (ev_stream e) \<and> 0 < ev_sequence e \<and>
     z_datetime z (ev_ingestTime e)"

record 'p event_input =
  in_eventType :: string
  in_actor :: chronicle_actor
  in_payload :: 'p
  in_eventId :: "string option"
  in_schemaVersion :: "int option"
  in_eventTime :: "string option"
  in_validTime :: "valid_time option"
  in_scope :: chronicle_scope
  in_causationId :: "string option"
  in_correlationId :: "string option"
  in_parentIds :: "string list option"
  in_worldVersion :: "string option"
  in_structureVersion :: "string option"
  in_policyVersion :: "string option"
  in_contextManifestId :: "string option"
  in_classification :: "classification option"
  in_retentionClass :: "string option"

text \<open>An input that gives the three required fields and the scope only.\<close>

definition plain_input :: "string \<Rightarrow> chronicle_actor \<Rightarrow> chronicle_scope \<Rightarrow> 'p \<Rightarrow> 'p event_input" where
  "plain_input et a sc p = \<lparr>in_eventType = et, in_actor = a, in_payload = p, in_eventId = None,
     in_schemaVersion = None, in_eventTime = None, in_validTime = None, in_scope = sc,
     in_causationId = None, in_correlationId = None, in_parentIds = None, in_worldVersion = None,
     in_structureVersion = None, in_policyVersion = None, in_contextManifestId = None,
     in_classification = None, in_retentionClass = None\<rparr>"

text \<open>
  \<open>newChronicleEvent\<close>: \<open>uuid\<close> is what \<open>randomUUID()\<close> returns and \<open>now\<close> what the clock
  reads, should the defaults be needed.
\<close>

definition newChronicleEvent :: "string \<Rightarrow> string \<Rightarrow> 'p event_input \<Rightarrow> 'p new_event" where
  "newChronicleEvent uuid now i =
     (let eventId = coalesce (in_eventId i) uuid
      in \<lparr>ev_id = eventId, ev_type = in_eventType i,
          ev_schemaVersion = coalesce (in_schemaVersion i) 1,
          ev_time = coalesce (in_eventTime i) now, ev_validTime = in_validTime i,
          ev_scope = in_scope i, ev_actor = in_actor i, ev_causationId = in_causationId i,
          ev_correlationId = coalesce (in_correlationId i) eventId,
          ev_parentIds = in_parentIds i, ev_worldVersion = in_worldVersion i,
          ev_structureVersion = in_structureVersion i, ev_policyVersion = in_policyVersion i,
          ev_contextManifestId = in_contextManifestId i,
          ev_classification = coalesce (in_classification i) Internal,
          ev_retentionClass = coalesce (in_retentionClass i) ''default'',
          ev_payload = in_payload i\<rparr>)"

lemma newChronicleEvent_plain [simp]:
  "ev_id (newChronicleEvent u n (plain_input et a sc p)) = u"
  "ev_type (newChronicleEvent u n (plain_input et a sc p)) = et"
  "ev_time (newChronicleEvent u n (plain_input et a sc p)) = n"
  "ev_scope (newChronicleEvent u n (plain_input et a sc p)) = sc"
  "ev_payload (newChronicleEvent u n (plain_input et a sc p)) = p"
  by (simp_all add: newChronicleEvent_def plain_input_def Let_def)

lemma newChronicleEvent_plain_ok:
  "z_uuid z u \<Longrightarrow> z_datetime z n \<Longrightarrow> min1 et \<Longrightarrow> actor_ok a \<Longrightarrow> scope_ok sc \<Longrightarrow>
   new_event_ok z (newChronicleEvent u n (plain_input et a sc p))"
  by (simp add: new_event_ok_def newChronicleEvent_def plain_input_def Let_def)

section \<open>The schema registry\<close>

datatype chronicle_error =
    UnknownChronicleEventType string
  | ChronicleEventValidation string string
  | AlreadyRegistered string
  | ChronicleSequenceConflict string int int
  | StoredEventInvalid
  | ConstraintViolation

record 'p type_registration =
  reg_eventType :: string
  reg_payload :: "'p \<Rightarrow> bool"
  reg_ignorable :: bool

type_synonym 'p registry = "(string, 'p type_registration) jsmap"

definition register :: "string \<Rightarrow> ('p \<Rightarrow> bool) \<Rightarrow> bool option \<Rightarrow> 'p registry \<Rightarrow>
    chronicle_error + 'p registry" where
  "register et payload ignorable r =
     (if map_of r et \<noteq> None then Inl (AlreadyRegistered et)
      else Inr (jsmap_set et \<lparr>reg_eventType = et, reg_payload = payload,
             reg_ignorable = coalesce ignorable False\<rparr> r))"

definition registry_has :: "'p registry \<Rightarrow> string \<Rightarrow> bool" where
  "registry_has r et \<longleftrightarrow> map_of r et \<noteq> None"

definition listTypes :: "'p registry \<Rightarrow> string list" where
  "listTypes r = jsmap_keys r"

definition registry_require :: "'p registry \<Rightarrow> string \<Rightarrow> chronicle_error + 'p type_registration" where
  "registry_require r et =
     (case map_of r et of None \<Rightarrow> Inl (UnknownChronicleEventType et) | Some g \<Rightarrow> Inr g)"

definition validateNew :: "zod \<Rightarrow> 'p registry \<Rightarrow> 'p new_event \<Rightarrow> chronicle_error + unit" where
  "validateNew z r e =
     (if \<not> new_event_ok z e then Inl (ChronicleEventValidation (ev_type e) ''envelope schema'')
      else case registry_require r (ev_type e) of
        Inl err \<Rightarrow> Inl err
      | Inr g \<Rightarrow>
          if \<not> reg_payload g (ev_payload e)
          then Inl (ChronicleEventValidation (ev_type e) ''payload schema'')
          else Inr ())"

datatype replay_validation = ReplayOk | ReplayBad bool chronicle_error

definition validateReplay :: "'p registry \<Rightarrow> 'p chronicle_event \<Rightarrow> replay_validation" where
  "validateReplay r e =
     (case map_of r (ev_type e) of
        None \<Rightarrow> ReplayBad False (UnknownChronicleEventType (ev_type e))
      | Some g \<Rightarrow>
          if \<not> reg_payload g (ev_payload e)
          then ReplayBad (reg_ignorable g) (ChronicleEventValidation (ev_type e) ''payload schema'')
          else ReplayOk)"

text \<open>The loop at the head of \<open>append\<close>: the first event that fails aborts it.\<close>

fun validate_all :: "zod \<Rightarrow> 'p registry \<Rightarrow> 'p new_event list \<Rightarrow> chronicle_error + unit" where
  "validate_all z r [] = Inr ()"
| "validate_all z r (e # es) =
     (case validateNew z r e of Inl err \<Rightarrow> Inl err | Inr _ \<Rightarrow> validate_all z r es)"

definition event_accepted :: "zod \<Rightarrow> 'p registry \<Rightarrow> ('p, 'x) new_event_scheme \<Rightarrow> bool" where
  "event_accepted z r e \<longleftrightarrow> new_event_ok z e \<and>
     (\<exists>g. map_of r (ev_type e) = Some g \<and> reg_payload g (ev_payload e))"

lemma validateNew_Inr: "validateNew z r e = Inr u \<longleftrightarrow> event_accepted z r e"
  by (auto simp: validateNew_def registry_require_def event_accepted_def split: option.splits)

lemma validate_all_Inr: "validate_all z r es = Inr u \<longleftrightarrow> list_all (event_accepted z r) es"
proof (induction es)
  case (Cons e es)
  then show ?case
    using validateNew_Inr [of z r e "()"] by (cases "validateNew z r e") auto
qed simp

lemma register_present:
  "register et p i r = Inr r' \<Longrightarrow> registry_has r' et \<and>
   (\<forall>et'. registry_has r et' \<longrightarrow> map_of r' et' = map_of r et')"
  by (auto simp: register_def registry_has_def split: if_splits)

section \<open>The store contract\<close>

text \<open>
  A \<open>ChronicleStore\<close> is a record of operations over some state. \<open>append\<close> takes the
  clock reading it stamps as \<open>ingestTime\<close>; \<open>readStream\<close> yields the events up to the
  point where it throws, if it does.
\<close>

record ('s, 'p) chronicle_ops =
  op_append :: "string \<Rightarrow> string \<Rightarrow> 'p new_event list \<Rightarrow> int \<Rightarrow> 's \<Rightarrow>
    's \<times> (chronicle_error + 'p chronicle_event list)"
  op_read :: "string \<Rightarrow> int \<Rightarrow> 's \<Rightarrow> 'p chronicle_event list \<times> chronicle_error option"
  op_latest :: "string \<Rightarrow> 's \<Rightarrow> int"
  op_streams :: "'s \<Rightarrow> string list"

definition stored_event :: "string \<Rightarrow> int \<Rightarrow> string \<Rightarrow> 'p new_event \<Rightarrow> 'p chronicle_event" where
  "stored_event sid n now e = new_event.extend e (chronicle_event.fields sid n now)"

fun stamp :: "string \<Rightarrow> string \<Rightarrow> int \<Rightarrow> 'p new_event list \<Rightarrow> 'p chronicle_event list" where
  "stamp sid now n [] = []"
| "stamp sid now n (e # es) = stored_event sid n now e # stamp sid now (n + 1) es"

lemma stored_event_sel [simp]:
  "ev_id (stored_event sid n now e) = ev_id e"
  "ev_type (stored_event sid n now e) = ev_type e"
  "ev_time (stored_event sid n now e) = ev_time e"
  "ev_scope (stored_event sid n now e) = ev_scope e"
  "ev_payload (stored_event sid n now e) = ev_payload e"
  "ev_stream (stored_event sid n now e) = sid"
  "ev_sequence (stored_event sid n now e) = n"
  "ev_ingestTime (stored_event sid n now e) = now"
  by (simp_all add: stored_event_def new_event.extend_def chronicle_event.fields_def)

lemma stored_event_new_ok [simp]: "new_event_ok z (stored_event sid n now e) = new_event_ok z e"
  by (simp add: new_event_ok_def stored_event_def new_event.extend_def chronicle_event.fields_def)

lemma stored_event_accepted [simp]:
  "event_accepted z r (stored_event sid n now e) = event_accepted z r e"
  by (simp add: event_accepted_def)

lemma length_stamp [simp]: "length (stamp sid now n es) = length es"
  by (induction es arbitrary: n) auto

lemma stamp_ids [simp]: "map ev_id (stamp sid now n es) = map ev_id es"
  by (induction es arbitrary: n) auto

lemma stamp_nonempty [simp]: "stamp sid now n es = [] \<longleftrightarrow> es = []"
  by (cases es) auto

lemma stamp_sequences: "map ev_sequence (stamp sid now n es) = [n..n + int (length es) - 1]"
proof (induction es arbitrary: n)
  case (Cons e es)
  have "[n..n + int (length (e # es)) - 1] = n # [n + 1..n + 1 + int (length es) - 1]"
    by (simp add: upto_rec1)
  then show ?case by (simp add: Cons.IH)
qed simp

lemma stamp_all:
  "e \<in> set (stamp sid now n es) \<Longrightarrow> \<exists>e0\<in>set es. \<exists>k. e = stored_event sid k now e0"
proof (induction es arbitrary: n)
  case (Cons a es)
  then have "e = stored_event sid n now a \<or> e \<in> set (stamp sid now (n + 1) es)" by simp
  then show ?case using Cons.IH [of "n + 1"] by auto
qed simp

section \<open>What append promises\<close>

text \<open>
  The contract of \<open>append\<close> over the streams as a function: the events take the next
  positions when the caller expected the next position; a batch already stored at the
  expected position is returned unchanged; everything else is a conflict.
\<close>

type_synonym 'p streams = "string \<Rightarrow> 'p chronicle_event list"

definition spec_append :: "zod \<Rightarrow> 'p registry \<Rightarrow> string \<Rightarrow> string \<Rightarrow> 'p new_event list \<Rightarrow> int \<Rightarrow>
    'p streams \<Rightarrow> 'p streams \<times> (chronicle_error + 'p chronicle_event list)" where
  "spec_append z r now sid evs expected v =
     (let n = int (length (v sid)); old = take (length evs) (drop (nat (expected - 1)) (v sid))
      in if evs = [] then (v, Inr [])
         else case validate_all z r evs of
           Inl err \<Rightarrow> (v, Inl err)
         | Inr _ \<Rightarrow>
             if expected = n + 1
             then (v(sid := v sid @ stamp sid now (n + 1) evs), Inr (stamp sid now (n + 1) evs))
             else if 1 \<le> expected \<and> map ev_id old = map ev_id evs then (v, Inr old)
             else (v, Inl (ChronicleSequenceConflict sid expected (n + 1))))"

text \<open>Contiguous positions from 1, on the stream they claim, all of them validated.\<close>

definition stream_ok :: "zod \<Rightarrow> 'p registry \<Rightarrow> string \<Rightarrow> 'p chronicle_event list \<Rightarrow> bool" where
  "stream_ok z r sid es \<longleftrightarrow>
     map ev_sequence es = [1..int (length es)] \<and>
     list_all (\<lambda>e. ev_stream e = sid \<and> event_accepted z r e) es"

lemma stream_ok_Nil [simp]: "stream_ok z r sid []"
  by (simp add: stream_ok_def)

lemma upto_append: "a \<le> b + 1 \<Longrightarrow> b \<le> c \<Longrightarrow> [a..b] @ [b + 1..c] = [a..c]" for a :: int
proof (cases "a = b + 1")
  case False
  assume "a \<le> b + 1" "b \<le> c"
  with False show ?thesis by (simp add: upto_split2 [of a b c])
qed simp

lemma stream_ok_append:
  assumes "stream_ok z r sid es" and "list_all (event_accepted z r) evs"
  shows "stream_ok z r sid (es @ stamp sid now (int (length es) + 1) evs)"
proof -
  let ?n = "int (length es)" and ?m = "int (length evs)"
  have "map ev_sequence (es @ stamp sid now (?n + 1) evs) = [1..?n] @ [?n + 1..?n + ?m]"
    using assms(1) by (simp add: stream_ok_def stamp_sequences add.commute add.left_commute)
  also have "\<dots> = [1..?n + ?m]" by (rule upto_append) auto
  finally have "map ev_sequence (es @ stamp sid now (?n + 1) evs) =
      [1..int (length (es @ stamp sid now (?n + 1) evs))]" by simp
  moreover have "list_all (\<lambda>e. ev_stream e = sid \<and> event_accepted z r e) (stamp sid now (?n + 1) evs)"
    using assms(2) by (auto simp: list_all_iff dest!: stamp_all)
  ultimately show ?thesis using assms(1) by (simp add: stream_ok_def)
qed

lemma spec_append_stream_ok:
  assumes "\<forall>s. stream_ok z r s (v s)" and "spec_append z r now sid evs ex v = (v', res)"
  shows "stream_ok z r s (v' s)"
  using assms stream_ok_append [of z r sid "v sid" evs now]
  by (auto simp: spec_append_def Let_def validate_all_Inr split: if_splits sum.splits)

lemma spec_append_prefix:
  assumes "spec_append z r now sid evs ex v = (v', res)"
  shows "prefix (v s) (v' s)"
  using assms by (auto simp: spec_append_def Let_def split: if_splits sum.splits)

lemma spec_append_other:
  assumes "spec_append z r now sid evs ex v = (v', res)" and "s \<noteq> sid"
  shows "v' s = v s"
  using assms by (auto simp: spec_append_def Let_def split: if_splits sum.splits)

lemma spec_append_err:
  "spec_append z r now sid evs ex v = (v', Inl err) \<Longrightarrow> v' = v"
  by (auto simp: spec_append_def Let_def split: if_splits sum.splits)

text \<open>Retrying the append that produced a state answers it again and writes nothing.\<close>

lemma spec_append_retry:
  assumes "spec_append z r now sid evs ex v = (v', Inr es)"
  shows "spec_append z r now' sid evs ex v' = (v', Inr es)"
proof (cases "evs = []")
  case True
  with assms show ?thesis by (simp add: spec_append_def)
next
  case False
  then have 0: "length evs \<noteq> 0" by simp
  from False assms obtain u where val: "validate_all z r evs = Inr u"
    by (auto simp: spec_append_def Let_def split: sum.splits)
  show ?thesis
  proof (cases "ex = int (length (v sid)) + 1")
    case True
    with assms False val
    have "v' = v(sid := v sid @ stamp sid now ex evs)" "es = stamp sid now ex evs"
      by (auto simp: spec_append_def Let_def)
    with val False True 0 show ?thesis by (auto simp: spec_append_def Let_def)
  next
    case ne: False
    with assms False val have "v' = v"
      "1 \<le> ex" "map ev_id (take (length evs) (drop (nat (ex - 1)) (v sid))) = map ev_id evs"
      "es = take (length evs) (drop (nat (ex - 1)) (v sid))"
      by (auto simp: spec_append_def Let_def split: if_splits)
    with val False ne show ?thesis by (auto simp: spec_append_def Let_def)
  qed
qed

section \<open>Reading by position\<close>

text \<open>A list numbered without gaps is cut by comparing the numbers.\<close>

lemma numbered_Cons:
  "map f (x # xs) = [b..b + int (length (x # xs)) - 1] \<longleftrightarrow>
   f x = b \<and> map f xs = [b + 1..b + 1 + int (length xs) - 1]" for b :: int
  by (subst upto_rec1) auto

lemma numbered_filter_ge:
  "map f xs = [b..b + int (length xs) - 1] \<Longrightarrow> filter (\<lambda>x. a \<le> f x) xs = drop (nat (a - b)) xs"
  for b :: int
proof (induction xs arbitrary: b)
  case (Cons x xs)
  from Cons.prems have x: "f x = b" and xs: "map f xs = [b + 1..b + 1 + int (length xs) - 1]"
    unfolding numbered_Cons by auto
  show ?case
  proof (cases "a \<le> b")
    case True
    then show ?thesis using Cons.IH [OF xs] x by simp
  next
    case False
    then have "nat (a - b) = Suc (nat (a - (b + 1)))" by simp
    with False show ?thesis using Cons.IH [OF xs] x by simp
  qed
qed simp

lemma numbered_filter_less:
  "map f xs = [b..b + int (length xs) - 1] \<Longrightarrow> filter (\<lambda>x. f x < c) xs = take (nat (c - b)) xs"
  for b :: int
proof (induction xs arbitrary: b)
  case (Cons x xs)
  from Cons.prems have x: "f x = b" and xs: "map f xs = [b + 1..b + 1 + int (length xs) - 1]"
    unfolding numbered_Cons by auto
  show ?case
  proof (cases "b < c")
    case True
    then have "nat (c - b) = Suc (nat (c - (b + 1)))" by simp
    with True show ?thesis using Cons.IH [OF xs] x by simp
  next
    case False
    then show ?thesis using Cons.IH [OF xs] x by simp
  qed
qed simp

lemma numbered_window:
  assumes "map f xs = [1..int (length xs)]" and "1 \<le> a"
  shows "filter (\<lambda>x. a \<le> f x \<and> f x < a + int k) xs = take k (drop (nat (a - 1)) xs)"
proof -
  have "filter (\<lambda>x. a \<le> f x \<and> f x < a + int k) xs =
      filter (\<lambda>x. a \<le> f x) (filter (\<lambda>x. f x < a + int k) xs)"
    by (simp add: conj_commute)
  also have "\<dots> = filter (\<lambda>x. a \<le> f x) (take (nat (a + int k - 1)) xs)" (is "_ = filter _ ?t")
    using assms(1) by (subst numbered_filter_less [where b = 1]) auto
  also have "\<dots> = drop (nat (a - 1)) ?t"
  proof (rule numbered_filter_ge)
    have "map f ?t = take (nat (a + int k - 1)) [1..int (length xs)]"
      by (simp add: assms(1) [symmetric] take_map)
    also have "\<dots> = [1..1 + int (length ?t) - 1]"
    proof (cases "nat (a + int k - 1) \<le> length xs")
      case True
      then have "[1..int (length xs)] =
          [1..int (nat (a + int k - 1))] @ [int (nat (a + int k - 1)) + 1..int (length xs)]"
        by (subst upto_append) auto
      with True show ?thesis by (simp add: min_def)
    qed simp
    finally show "map f ?t = [1..1 + int (length ?t) - 1]" .
  qed
  also have "\<dots> = take k (drop (nat (a - 1)) xs)"
    using assms(2) by (simp add: drop_take nat_diff_distrib' nat_add_distrib algebra_simps)
  finally show ?thesis .
qed

lemma stream_ok_after:
  "stream_ok z r sid es \<Longrightarrow> filter (\<lambda>e. after < ev_sequence e) es = drop (nat after) es"
  using numbered_filter_ge [of ev_sequence es 1 "after + 1"]
  by (simp add: stream_ok_def add1_zle_eq)

section \<open>The interface of a Chronicle store\<close>

text \<open>
  What a client may rely on: under the store's invariant the operations are the contract
  over the streams the store holds. The clock reading is an ISO date-time and the stream
  has a name; both hold of every call in the program.
\<close>

locale chronicle_store =
  fixes ops :: "('s, 'p) chronicle_ops"
    and z :: zod
    and reg :: "'p registry"
    and inv :: "'s \<Rightarrow> bool"
    and view :: "'s \<Rightarrow> 'p streams"
  assumes append_refines: "inv s \<Longrightarrow> z_datetime z now \<Longrightarrow> sid \<noteq> [] \<Longrightarrow>
      op_append ops now sid evs ex s = (s', res) \<Longrightarrow>
      inv s' \<and> spec_append z reg now sid evs ex (view s) = (view s', res)"
    and read_view: "inv s \<Longrightarrow>
      op_read ops sid after s = (filter (\<lambda>e. after < ev_sequence e) (view s sid), None)"
    and latest_view: "inv s \<Longrightarrow> op_latest ops sid s = int (length (view s sid))"
    and streams_view: "inv s \<Longrightarrow> set (op_streams ops s) = {sid. view s sid \<noteq> []}"
    and streams_distinct: "inv s \<Longrightarrow> distinct (op_streams ops s)"
    and view_ok: "inv s \<Longrightarrow> stream_ok z reg sid (view s sid)"
begin

lemma append_inv:
  "inv s \<Longrightarrow> z_datetime z now \<Longrightarrow> sid \<noteq> [] \<Longrightarrow> inv (fst (op_append ops now sid evs ex s))"
  by (cases "op_append ops now sid evs ex s") (auto dest: append_refines)

lemma append_spec:
  assumes "inv s" and "z_datetime z now" and "sid \<noteq> []"
  shows "op_append ops now sid evs ex s = (s', res) \<Longrightarrow>
    spec_append z reg now sid evs ex (view s) = (view s', res)"
  using append_refines [OF assms] by blast

lemma read_after:
  "inv s \<Longrightarrow> op_read ops sid after s = (drop (nat after) (view s sid), None)"
  using stream_ok_after [OF view_ok] by (simp add: read_view)

lemma read_all: "inv s \<Longrightarrow> op_read ops sid 0 s = (view s sid, None)"
  by (simp add: read_after)

text \<open>An append at the tail position either fails or writes exactly the batch.\<close>

lemma append_next:
  assumes "inv s" and "z_datetime z now" and "sid \<noteq> []" and "evs \<noteq> []"
    and "op_append ops now sid evs (int (length (view s sid)) + 1) s = (s', res)"
  shows "(case res of
      Inl err \<Rightarrow> view s' = view s \<and> \<not> list_all (event_accepted z reg) evs
    | Inr es \<Rightarrow> list_all (event_accepted z reg) evs \<and>
        es = stamp sid now (int (length (view s sid)) + 1) evs \<and>
        view s' = (view s)(sid := view s sid @ es))"
  using append_spec [OF assms(1-3,5)] assms(4) validate_all_Inr [of z reg evs "()"]
  by (auto simp: spec_append_def Let_def split: sum.splits)

text \<open>One attempt writes the event or leaves the streams alone.\<close>

lemma append_attempt:
  assumes "inv s" and "z_datetime z now" and "sid \<noteq> []"
    and "op_append ops now sid [e] (op_latest ops sid s + 1) s = (s', res)"
  shows "inv s' \<and> (case res of
      Inl err \<Rightarrow> view s' = view s \<and> \<not> event_accepted z reg e
    | Inr es \<Rightarrow> event_accepted z reg e \<and> (\<exists>k. view s' = (view s)(sid := view s sid @ [stored_event sid k now e])))"
proof -
  have "inv s'" using append_refines [OF assms] by simp
  with append_next [OF assms(1-3), where evs = "[e]" and s' = s' and res = res] assms(4) latest_view [OF assms(1), of sid]
  show ?thesis by (auto split: sum.splits)
qed

text \<open>Any other position never writes.\<close>

lemma append_elsewhere:
  assumes "inv s" and "z_datetime z now" and "sid \<noteq> []"
    and "op_append ops now sid evs ex s = (s', res)" and "ex \<noteq> int (length (view s sid)) + 1"
  shows "view s' = view s"
  using append_spec [OF assms(1-4)] assms(5)
  by (auto simp: spec_append_def Let_def split: if_splits sum.splits)

lemma append_grows:
  assumes "inv s" and "z_datetime z now" and "sid \<noteq> []"
    and "op_append ops now sid evs ex s = (s', res)"
  shows "prefix (view s x) (view s' x)"
  using append_spec [OF assms] by (rule spec_append_prefix)

lemma append_retry:
  assumes "inv s" and "z_datetime z now" and "z_datetime z now'" and "sid \<noteq> []"
    and "op_append ops now sid evs ex s = (s', Inr es)"
    and "op_append ops now' sid evs ex s' = (s'', res)"
  shows "res = Inr es \<and> view s'' = view s'"
proof -
  have "inv s'" using append_refines [OF assms(1,2,4,5)] by blast
  from append_spec [OF this assms(3,4,6)]
    spec_append_retry [OF append_spec [OF assms(1,2,4,5)]]
  show ?thesis by auto
qed

text \<open>
  Two writers that expect the same position: whoever comes second with other events is
  refused, and the refusal names the next free position.
\<close>

lemma append_race:
  assumes "inv s" and "z_datetime z now" and "z_datetime z now'" and "sid \<noteq> []"
    and "evs \<noteq> []" and "evs' \<noteq> []" and "ev_id (hd evs) \<noteq> ev_id (hd evs')"
    and first: "op_append ops now sid evs ex s = (s', Inr es)"
    and wrote: "view s' \<noteq> view s"
    and second: "op_append ops now' sid evs' ex s' = (s'', res)"
    and "list_all (event_accepted z reg) evs'"
  shows "res = Inl (ChronicleSequenceConflict sid ex (int (length (view s' sid)) + 1)) \<and>
    view s'' = view s'"
proof -
  have inv': "inv s'" using append_refines [OF assms(1,2,4) first] by blast
  have ex: "ex = int (length (view s sid)) + 1"
    using append_elsewhere [OF assms(1,2,4) first] wrote by blast
  have s': "view s' = (view s)(sid := view s sid @ stamp sid now ex evs)"
    using append_next [OF assms(1,2,4,5)] first ex by fastforce
  then obtain e rest where evs: "evs = e # rest" using assms(5) by (cases evs) auto
  obtain e' rest' where evs': "evs' = e' # rest'" using assms(6) by (cases evs') auto
  from assms(7) have "ev_id e \<noteq> ev_id e'" by (simp add: evs evs')
  then have "map ev_id (take (length evs') (drop (nat (ex - 1)) (view s' sid))) \<noteq> map ev_id evs'"
    by (simp add: s' ex evs evs')
  moreover have "ex \<noteq> int (length (view s' sid)) + 1" by (simp add: s' ex evs)
  ultimately show ?thesis
    using append_spec [OF inv' assms(3,4) second] assms(6,11)
    by (auto simp: spec_append_def Let_def validate_all_Inr split: sum.splits
        dest: validate_all_Inr [THEN iffD2, of z reg evs' "()"])
qed

end

end
