(* ===== verification/KanbanTypes.thy ===== *)
theory KanbanTypes
  imports Chronicle
begin

text \<open>
  The Kanban domain model (\<open>packages/kanban/src/protocol.ts\<close>): one record or datatype per
  zod schema, and for each schema the predicate of the values that \<open>parse\<close> accepts. The
  constructor of a new task (\<open>construct.ts\<close>) closes the theory.
\<close>

datatype kanban_status =
    KInbox | KTriaged | KReady | KRunning | KBlocked | KReview | KDone | KFailed | KCancelled
  | KArchived

definition KANBAN_TASK_STATUSES :: "kanban_status list" where
  "KANBAN_TASK_STATUSES = [KInbox, KTriaged, KReady, KRunning, KBlocked, KReview, KDone, KFailed,
     KCancelled, KArchived]"

lemma statuses_complete: "set KANBAN_TASK_STATUSES = UNIV"
proof -
  have "s \<in> set KANBAN_TASK_STATUSES" for s
    by (cases s) (simp_all add: KANBAN_TASK_STATUSES_def)
  then show ?thesis by blast
qed

instantiation kanban_status :: enum
begin

definition enum_kanban_status :: "kanban_status list" where
  "enum_kanban_status = KANBAN_TASK_STATUSES"

definition enum_all_kanban_status :: "(kanban_status \<Rightarrow> bool) \<Rightarrow> bool" where
  "enum_all_kanban_status P \<longleftrightarrow> list_all P KANBAN_TASK_STATUSES"

definition enum_ex_kanban_status :: "(kanban_status \<Rightarrow> bool) \<Rightarrow> bool" where
  "enum_ex_kanban_status P \<longleftrightarrow> list_ex P KANBAN_TASK_STATUSES"

instance
  by standard
    (auto simp: enum_kanban_status_def enum_all_kanban_status_def enum_ex_kanban_status_def
      list_all_iff list_ex_iff statuses_complete, auto simp: KANBAN_TASK_STATUSES_def)

end

datatype kanban_priority = Lowest | Low | Medium | High | Urgent

datatype dependency_kind = Blocks | Related

record kanban_dependency =
  dep_taskId :: string
  dep_kind :: dependency_kind
  dep_satisfiedWhen :: "kanban_status option"

record kanban_source =
  src_threadId :: string
  src_turnId :: "string option"
  src_itemId :: "string option"

record kanban_workspace =
  ws_workspaceId :: string
  ws_path :: "string option"

record kanban_budget =
  bud_maxTokens :: "int option"
  bud_maxCostCents :: "int option"
  bud_maxDurationMs :: "int option"

record kanban_claim =
  cl_claimant :: string
  cl_leaseId :: string
  cl_claimedAt :: string
  cl_expiresAt :: string

record kanban_ref =
  ref_id :: string
  ref_version :: string

record kanban_comment =
  cm_id :: string
  cm_author :: string
  cm_body :: string
  cm_at :: string

record kanban_task =
  kt_id :: string
  kt_title :: string
  kt_goal :: "string option"
  kt_acceptanceCriteria :: "string list"
  kt_priority :: kanban_priority
  kt_labels :: "string list"
  kt_dependencies :: "kanban_dependency list"
  kt_source :: "kanban_source option"
  kt_workspace :: "kanban_workspace option"
  kt_requiredCapabilities :: "string list"
  kt_budget :: "kanban_budget option"
  kt_scheduledAt :: "string option"
  kt_deadline :: "string option"
  kt_idempotencyKey :: "string option"
  kt_status :: kanban_status
  kt_claim :: "kanban_claim option"
  kt_artifactRefs :: "kanban_ref list"
  kt_trajectoryRefs :: "kanban_ref list"
  kt_comments :: "kanban_comment list"
  kt_version :: int
  kt_createdAt :: string
  kt_updatedAt :: string
  kt_endedAt :: "string option"

section \<open>The schemas\<close>

definition dependency_ok :: "zod \<Rightarrow> kanban_dependency \<Rightarrow> bool" where
  "dependency_ok z d \<longleftrightarrow> z_uuid z (dep_taskId d)"

definition source_ok :: "zod \<Rightarrow> kanban_source \<Rightarrow> bool" where
  "source_ok z s \<longleftrightarrow> z_uuid z (src_threadId s) \<and> opt_ok (z_uuid z) (src_turnId s) \<and>
     opt_ok (z_uuid z) (src_itemId s)"

definition workspace_ok :: "kanban_workspace \<Rightarrow> bool" where
  "workspace_ok w \<longleftrightarrow> min1 (ws_workspaceId w)"

definition budget_ok :: "kanban_budget \<Rightarrow> bool" where
  "budget_ok b \<longleftrightarrow> opt_ok (\<lambda>n. 0 < n) (bud_maxTokens b) \<and> opt_ok (\<lambda>n. 0 \<le> n) (bud_maxCostCents b) \<and>
     opt_ok (\<lambda>n. 0 < n) (bud_maxDurationMs b)"

definition claim_ok :: "zod \<Rightarrow> kanban_claim \<Rightarrow> bool" where
  "claim_ok z c \<longleftrightarrow> min1 (cl_claimant c) \<and> z_uuid z (cl_leaseId c) \<and>
     z_datetime z (cl_claimedAt c) \<and> z_datetime z (cl_expiresAt c)"

definition ref_ok :: "kanban_ref \<Rightarrow> bool" where
  "ref_ok r \<longleftrightarrow> min1 (ref_id r) \<and> min1 (ref_version r)"

definition comment_ok :: "zod \<Rightarrow> kanban_comment \<Rightarrow> bool" where
  "comment_ok z c \<longleftrightarrow> z_uuid z (cm_id c) \<and> min1 (cm_author c) \<and> min1 (cm_body c) \<and>
     z_datetime z (cm_at c)"

definition task_ok :: "zod \<Rightarrow> kanban_task \<Rightarrow> bool" where
  "task_ok z t \<longleftrightarrow>
     z_uuid z (kt_id t) \<and> min1 (kt_title t) \<and> opt_ok min1 (kt_goal t) \<and>
     list_all min1 (kt_acceptanceCriteria t) \<and> list_all min1 (kt_labels t) \<and>
     list_all (dependency_ok z) (kt_dependencies t) \<and> opt_ok (source_ok z) (kt_source t) \<and>
     opt_ok workspace_ok (kt_workspace t) \<and> list_all min1 (kt_requiredCapabilities t) \<and>
     opt_ok budget_ok (kt_budget t) \<and> opt_ok (z_datetime z) (kt_scheduledAt t) \<and>
     opt_ok (z_datetime z) (kt_deadline t) \<and> opt_ok min1 (kt_idempotencyKey t) \<and>
     opt_ok (claim_ok z) (kt_claim t) \<and> list_all ref_ok (kt_artifactRefs t) \<and>
     list_all ref_ok (kt_trajectoryRefs t) \<and> list_all (comment_ok z) (kt_comments t) \<and>
     0 < kt_version t \<and> z_datetime z (kt_createdAt t) \<and> z_datetime z (kt_updatedAt t) \<and>
     opt_ok (z_datetime z) (kt_endedAt t)"

section \<open>Errors\<close>

datatype kanban_error =
    KTaskNotFound string
  | KLeaseLost string string
  | KVersionConflict string int int
  | KInvalidTransition kanban_status kanban_status
  | KUnknownEventType string
  | KFoldBeforeCreated string
  | KMalformedPayload string
  | KZodError
  | KInvalidTime
  | KStoreError chronicle_error

section \<open>A new task\<close>

record new_task_init =
  nt_title :: string
  nt_priority :: "kanban_priority option"
  nt_goal :: "string option"
  nt_acceptanceCriteria :: "string list option"
  nt_labels :: "string list option"
  nt_dependencies :: "kanban_dependency list option"
  nt_source :: "kanban_source option"
  nt_workspace :: "kanban_workspace option"
  nt_requiredCapabilities :: "string list option"
  nt_budget :: "kanban_budget option"
  nt_scheduledAt :: "string option"
  nt_deadline :: "string option"
  nt_idempotencyKey :: "string option"
  nt_id :: "string option"
  nt_now :: "string option"

text \<open>
  \<open>newKanbanTask\<close>: \<open>uuid\<close> and \<open>now\<close> are the environment's defaults for the id and the
  creation time; the result of \<open>KanbanTaskSchema.parse\<close> is the task or its error.
\<close>

definition initial_task :: "string \<Rightarrow> string \<Rightarrow> new_task_init \<Rightarrow> kanban_task" where
  "initial_task uuid clock i =
     (let now = coalesce (nt_now i) clock
      in \<lparr>kt_id = coalesce (nt_id i) uuid, kt_title = nt_title i, kt_goal = nt_goal i,
          kt_acceptanceCriteria = coalesce (nt_acceptanceCriteria i) [],
          kt_priority = coalesce (nt_priority i) Medium,
          kt_labels = coalesce (nt_labels i) [],
          kt_dependencies = coalesce (nt_dependencies i) [],
          kt_source = nt_source i, kt_workspace = nt_workspace i,
          kt_requiredCapabilities = coalesce (nt_requiredCapabilities i) [],
          kt_budget = nt_budget i, kt_scheduledAt = nt_scheduledAt i, kt_deadline = nt_deadline i,
          kt_idempotencyKey = nt_idempotencyKey i, kt_status = KInbox, kt_claim = None,
          kt_artifactRefs = [], kt_trajectoryRefs = [], kt_comments = [], kt_version = 1,
          kt_createdAt = now, kt_updatedAt = now, kt_endedAt = None\<rparr>)"

definition newKanbanTask :: "zod \<Rightarrow> string \<Rightarrow> string \<Rightarrow> new_task_init \<Rightarrow> kanban_error + kanban_task" where
  "newKanbanTask z uuid clock i =
     (let t = initial_task uuid clock i in if task_ok z t then Inr t else Inl KZodError)"

lemma newKanbanTask_Inr:
  "newKanbanTask z u n i = Inr t \<longleftrightarrow> t = initial_task u n i \<and> task_ok z t"
  by (auto simp: newKanbanTask_def Let_def)

lemma initial_task_sel [simp]:
  "kt_id (initial_task u n i) = coalesce (nt_id i) u"
  "kt_status (initial_task u n i) = KInbox"
  "kt_version (initial_task u n i) = 1"
  "kt_claim (initial_task u n i) = None"
  "kt_endedAt (initial_task u n i) = None"
  "kt_comments (initial_task u n i) = []"
  "kt_idempotencyKey (initial_task u n i) = nt_idempotencyKey i"
  by (simp_all add: initial_task_def Let_def)

section \<open>Event payloads\<close>

text \<open>
  The payloads of \<open>events.ts\<close>: \<open>{task}\<close> (created and updated), \<open>{from, to, reason, task}\<close>,
  \<open>{leaseId, expiresAt}\<close> and \<open>{comment}\<close>. A schema looks at the keys it names and ignores
  others, so a status-change payload also passes for a \<open>{task}\<close> one.
\<close>

datatype kanban_payload =
    KTaskP kanban_task
  | KStatusChangedP kanban_status kanban_status "string option" kanban_task
  | KLeaseRenewedP string string
  | KCommentedP kanban_comment

text \<open>The property \<open>task\<close> of a payload, where it has one.\<close>

fun payload_task :: "kanban_payload \<Rightarrow> kanban_task option" where
  "payload_task (KTaskP t) = Some t"
| "payload_task (KStatusChangedP from to reason t) = Some t"
| "payload_task _ = None"

datatype kanban_event_kind =
    TaskCreated | TaskStatusChanged | TaskLeaseRenewed | TaskUpdated | TaskCommented

fun kanban_event_name :: "kanban_event_kind \<Rightarrow> string" where
  "kanban_event_name TaskCreated = ''kanban.task.created''"
| "kanban_event_name TaskStatusChanged = ''kanban.task.status_changed''"
| "kanban_event_name TaskLeaseRenewed = ''kanban.task.lease_renewed''"
| "kanban_event_name TaskUpdated = ''kanban.task.updated''"
| "kanban_event_name TaskCommented = ''kanban.task.commented''"

definition kanban_payload_ok :: "zod \<Rightarrow> kanban_event_kind \<Rightarrow> kanban_payload \<Rightarrow> bool" where
  "kanban_payload_ok z k p =
     (case k of
        TaskCreated \<Rightarrow> (case payload_task p of None \<Rightarrow> False | Some t \<Rightarrow> task_ok z t)
      | TaskUpdated \<Rightarrow> (case payload_task p of None \<Rightarrow> False | Some t \<Rightarrow> task_ok z t)
      | TaskStatusChanged \<Rightarrow>
          (case p of KStatusChangedP from to reason t \<Rightarrow> opt_ok min1 reason \<and> task_ok z t
           | _ \<Rightarrow> False)
      | TaskLeaseRenewed \<Rightarrow>
          (case p of KLeaseRenewedP leaseId expiresAt \<Rightarrow> z_uuid z leaseId \<and> z_datetime z expiresAt
           | _ \<Rightarrow> False)
      | TaskCommented \<Rightarrow> (case p of KCommentedP c \<Rightarrow> comment_ok z c | _ \<Rightarrow> False))"

lemma kanban_event_name_inject [simp]: "kanban_event_name a = kanban_event_name b \<longleftrightarrow> a = b"
  by (cases a; cases b) simp_all

text \<open>A sample input: a title, an id and an idempotency key.\<close>

definition plain_task :: "string \<Rightarrow> new_task_init" where
  "plain_task title = \<lparr>nt_title = title, nt_priority = None, nt_goal = None,
     nt_acceptanceCriteria = None, nt_labels = None, nt_dependencies = None, nt_source = None,
     nt_workspace = None, nt_requiredCapabilities = None, nt_budget = None, nt_scheduledAt = None,
     nt_deadline = None, nt_idempotencyKey = Some ''k'', nt_id = Some ''t1'', nt_now = None\<rparr>"

end
