(* ===== verification/KanbanMachine.thy ===== *)
theory KanbanMachine
  imports KanbanTypes
begin

text \<open>
  The Kanban state machine (\<open>packages/kanban/src/state-machine.ts\<close>): the transition table,
  \<open>applyTransition\<close> with its two guards, and the breadth-first search
  \<open>shortestTransitionPath\<close>, whose loop is shown to end and whose answer is shown to be a
  shortest legal path.
\<close>

section \<open>The table\<close>

fun KANBAN_TRANSITIONS :: "kanban_status \<Rightarrow> kanban_status list" where
  "KANBAN_TRANSITIONS KInbox = [KTriaged, KCancelled, KFailed, KArchived]"
| "KANBAN_TRANSITIONS KTriaged = [KReady, KCancelled, KFailed, KArchived]"
| "KANBAN_TRANSITIONS KReady = [KRunning, KCancelled, KFailed, KArchived]"
| "KANBAN_TRANSITIONS KRunning =
     [KReady, KBlocked, KReview, KDone, KCancelled, KFailed, KArchived]"
| "KANBAN_TRANSITIONS KBlocked = [KRunning, KReady, KCancelled, KFailed, KArchived]"
| "KANBAN_TRANSITIONS KReview = [KDone, KRunning, KCancelled, KFailed, KArchived]"
| "KANBAN_TRANSITIONS KDone = [KArchived]"
| "KANBAN_TRANSITIONS KFailed = [KReady, KRunning, KCancelled, KArchived]"
| "KANBAN_TRANSITIONS KCancelled = [KArchived]"
| "KANBAN_TRANSITIONS KArchived = []"

definition KANBAN_TERMINAL_STATUSES :: "kanban_status list" where
  "KANBAN_TERMINAL_STATUSES = [KDone, KFailed, KCancelled, KArchived]"

definition isTerminal :: "kanban_status \<Rightarrow> bool" where
  "isTerminal s \<longleftrightarrow> List.member KANBAN_TERMINAL_STATUSES s"

definition isActive :: "kanban_status \<Rightarrow> bool" where
  "isActive s \<longleftrightarrow> \<not> isTerminal s"

definition allowedTransitions :: "kanban_status \<Rightarrow> kanban_status list" where
  "allowedTransitions s = KANBAN_TRANSITIONS s"

definition canTransition :: "kanban_status \<Rightarrow> kanban_status \<Rightarrow> bool" where
  "canTransition from to \<longleftrightarrow> List.member (KANBAN_TRANSITIONS from) to"

lemma isTerminal_simps [simp]:
  "isTerminal s \<longleftrightarrow> s = KDone \<or> s = KFailed \<or> s = KCancelled \<or> s = KArchived"
  by (auto simp: isTerminal_def KANBAN_TERMINAL_STATUSES_def)

section \<open>One transition\<close>

record transition_command =
  tc_to :: kanban_status
  tc_expectedVersion :: int
  tc_reason :: "string option"
  tc_at :: "string option"
  tc_claim :: "kanban_claim option"

definition applyTransition :: "string \<Rightarrow> kanban_task \<Rightarrow> transition_command \<Rightarrow>
    kanban_error + kanban_task" where
  "applyTransition clock task cmd =
     (if tc_expectedVersion cmd \<noteq> kt_version task
      then Inl (KVersionConflict (kt_id task) (tc_expectedVersion cmd) (kt_version task))
      else if \<not> canTransition (kt_status task) (tc_to cmd)
      then Inl (KInvalidTransition (kt_status task) (tc_to cmd))
      else
        let at = coalesce (tc_at cmd) clock; terminal = isTerminal (tc_to cmd)
        in Inr (task\<lparr>kt_status := tc_to cmd, kt_version := kt_version task + 1,
             kt_updatedAt := at, kt_endedAt := (if terminal then Some at else kt_endedAt task),
             kt_claim := (if tc_to cmd = KRunning
                          then (case tc_claim cmd of Some c \<Rightarrow> Some c | None \<Rightarrow> kt_claim task)
                          else None)\<rparr>))"

text \<open>Only a running task holds a lease.\<close>

definition claim_inv :: "kanban_task \<Rightarrow> bool" where
  "claim_inv t \<longleftrightarrow> (kt_claim t \<noteq> None \<longrightarrow> kt_status t = KRunning)"

lemma applyTransition_Inr:
  assumes "applyTransition clock t cmd = Inr t'"
  shows "tc_expectedVersion cmd = kt_version t" and "canTransition (kt_status t) (tc_to cmd)"
    and "kt_status t' = tc_to cmd" and "kt_version t' = kt_version t + 1"
    and "kt_updatedAt t' = coalesce (tc_at cmd) clock" and "kt_id t' = kt_id t"
    and "kt_comments t' = kt_comments t" and "kt_idempotencyKey t' = kt_idempotencyKey t"
  using assms by (auto simp: applyTransition_def Let_def split: if_splits)

lemma applyTransition_claim [preserved]:
  "applyTransition clock t cmd = Inr t' \<Longrightarrow> claim_inv t'"
  by (auto simp: applyTransition_def claim_inv_def Let_def split: if_splits)

section \<open>The breadth-first search\<close>

definition terminalish :: "kanban_status \<Rightarrow> bool" where
  "terminalish s \<longleftrightarrow> s = KFailed \<or> s = KCancelled \<or> s = KArchived"

text \<open>
  The inner loop over the statuses next to the end of \<open>path\<close>: it answers the extended
  path when it meets the target (\<open>Inl\<close>), else the new \<open>seen\<close> set and queue.
\<close>

fun scan_next :: "kanban_status \<Rightarrow> kanban_status \<Rightarrow> kanban_status list \<Rightarrow> kanban_status list \<Rightarrow>
    kanban_status list \<Rightarrow> kanban_status list list \<Rightarrow>
    kanban_status list + kanban_status list \<times> kanban_status list list" where
  "scan_next from to path [] seen queue = Inr (seen, queue)"
| "scan_next from to path (n # ns) seen queue =
     (if List.member seen n then scan_next from to path ns seen queue
      else if n \<noteq> to \<and> n \<noteq> from \<and> terminalish n then scan_next from to path ns seen queue
      else let extended = path @ [n]
        in if n = to then Inl (tl extended)
           else scan_next from to path ns (n # seen) (queue @ [extended]))"

lemma scan_next_measure:
  "scan_next from to path ns seen queue = Inr (seen', queue') \<Longrightarrow>
   length queue' + card (UNIV - set seen') = length queue + card (UNIV - set seen)"
proof (induction ns arbitrary: seen queue)
  case (Cons n ns)
  show ?case
  proof (cases "n \<in> set seen \<or> (n \<noteq> to \<and> n \<noteq> from \<and> terminalish n)")
    case True
    with Cons.prems have "scan_next from to path ns seen queue = Inr (seen', queue')"
      by (auto split: if_splits)
    then show ?thesis by (rule Cons.IH)
  next
    case False
    with Cons.prems have eq: "scan_next from to path ns (n # seen) (queue @ [path @ [n]]) =
        Inr (seen', queue')"
      by (auto simp: Let_def split: if_splits)
    have "card (UNIV - set seen) = Suc (card (UNIV - set seen - {n}))"
      using False by (intro card.remove) auto
    also have "UNIV - set seen - {n} = UNIV - set (n # seen)" by auto
    finally show ?thesis using Cons.IH [OF eq] by simp
  qed
qed simp

function bfs :: "kanban_status \<Rightarrow> kanban_status \<Rightarrow> kanban_status list list \<Rightarrow>
    kanban_status list \<Rightarrow> kanban_status list option" where
  "bfs from to [] seen = None"
| "bfs from to (path # queue) seen =
     (case scan_next from to path (allowedTransitions (last path)) seen queue of
        Inl found \<Rightarrow> Some found
      | Inr (seen', queue') \<Rightarrow> bfs from to queue' seen')"
  by pat_completeness auto
termination
  by (relation "measure (\<lambda>(from, to, queue, seen). length queue + card (UNIV - set seen))")
     (auto dest!: scan_next_measure)

definition shortestTransitionPath :: "kanban_status \<Rightarrow> kanban_status \<Rightarrow> kanban_status list option" where
  "shortestTransitionPath from to = (if from = to then Some [] else bfs from to [[from]] [from])"

lemma path_examples:
  "shortestTransitionPath KInbox KDone = Some [KTriaged, KReady, KRunning, KDone]"
  "shortestTransitionPath KDone KReady = None"
  by (simp_all add: shortestTransitionPath_def allowedTransitions_def terminalish_def)

section \<open>The search answers a shortest path\<close>

text \<open>
  A hop sequence the search may take: every hop is legal, and no status short of the
  target is failed, cancelled or archived.
\<close>

fun healthy_path :: "kanban_status \<Rightarrow> kanban_status \<Rightarrow> kanban_status list \<Rightarrow> bool" where
  "healthy_path to a [] \<longleftrightarrow> a = to"
| "healthy_path to a (x # xs) \<longleftrightarrow>
     canTransition a x \<and> (x = to \<or> \<not> terminalish x) \<and> healthy_path to x xs"

lemma search_sound:
  "\<forall>a b. case shortestTransitionPath a b of None \<Rightarrow> True | Some p \<Rightarrow> healthy_path b a p"
  by code_simp

text \<open>One hop changes the length of the answer by at most one.\<close>

lemma search_hop:
  "\<forall>a b. list_all (\<lambda>x. x \<noteq> b \<and> terminalish x \<or>
      (case shortestTransitionPath x b of
         None \<Rightarrow> True
       | Some q \<Rightarrow> (case shortestTransitionPath a b of
           None \<Rightarrow> False | Some p \<Rightarrow> length p \<le> Suc (length q)))) (KANBAN_TRANSITIONS a)"
  by code_simp

lemma search_optimal:
  "healthy_path b a q \<Longrightarrow> \<exists>p. shortestTransitionPath a b = Some p \<and> length p \<le> length q"
proof (induction q arbitrary: a)
  case Nil
  then show ?case by (simp add: shortestTransitionPath_def)
next
  case (Cons x q)
  then obtain p' where p': "shortestTransitionPath x b = Some p'" "length p' \<le> length q" by auto
  from Cons.prems have "x \<in> set (KANBAN_TRANSITIONS a)" "x = b \<or> \<not> terminalish x"
    by (auto simp: canTransition_def)
  with search_hop p' show ?case by (fastforce simp: list_all_iff split: option.splits)
qed

text \<open>
  C39: the search of \<open>shortestTransitionPath\<close> answers with a legal hop sequence that
  does not pass through failed, cancelled or archived on its way and that no other such
  sequence undercuts, and it answers \<open>undefined\<close> only when there is none.
\<close>

theorem shortest_path_correct:
  "case shortestTransitionPath a b of
     None \<Rightarrow> \<not> (\<exists>q. healthy_path b a q)
   | Some p \<Rightarrow> healthy_path b a p \<and> \<not> (\<exists>q. healthy_path b a q \<and> length q < length p)"
proof (cases "shortestTransitionPath a b")
  case None
  then show ?thesis using search_optimal [of b a] by auto
next
  case (Some p)
  then have "healthy_path b a p" using search_sound [rule_format, of b a] by simp
  with Some show ?thesis using search_optimal [of b a] by fastforce
qed

section \<open>Runs of transitions\<close>

text \<open>Commands applied one after the other, each with its clock; the first error ends the run.\<close>

fun run_transitions :: "kanban_task \<Rightarrow> (string \<times> transition_command) list \<Rightarrow>
    kanban_error + kanban_task" where
  "run_transitions t [] = Inr t"
| "run_transitions t ((clock, cmd) # rest) =
     (case applyTransition clock t cmd of Inl e \<Rightarrow> Inl e | Inr t' \<Rightarrow> run_transitions t' rest)"

text \<open>What every task the state machine produces satisfies.\<close>

definition lifecycle_inv :: "kanban_task \<Rightarrow> bool" where
  "lifecycle_inv t \<longleftrightarrow> claim_inv t \<and> (isTerminal (kt_status t) \<longrightarrow> kt_endedAt t \<noteq> None)"

lemma initial_task_lifecycle [simp]: "lifecycle_inv (initial_task u n i)"
  by (simp add: lifecycle_inv_def claim_inv_def)

lemma applyTransition_lifecycle [preserved]:
  "applyTransition clock t cmd = Inr t' \<Longrightarrow> lifecycle_inv t'"
  using applyTransition_claim [of clock t cmd t']
  by (auto simp: lifecycle_inv_def applyTransition_def Let_def split: if_splits)

lemma run_transitions_Inr:
  "run_transitions t cmds = Inr t' \<Longrightarrow> lifecycle_inv t \<Longrightarrow>
   lifecycle_inv t' \<and> kt_version t' = kt_version t + int (length cmds) \<and> kt_id t' = kt_id t"
proof (induction cmds arbitrary: t)
  case (Cons c cmds)
  then show ?case
    by (cases c) (fastforce split: sum.splits dest: applyTransition_lifecycle applyTransition_Inr)
qed simp

text \<open>No status leads out of archived, and done and cancelled lead only there.\<close>

lemma transitions_from_terminal:
  "canTransition KArchived s \<longleftrightarrow> False" "canTransition KDone s \<longleftrightarrow> s = KArchived"
  "canTransition KCancelled s \<longleftrightarrow> s = KArchived"
  by (simp_all add: canTransition_def)

text \<open>
  A task created by \<open>newKanbanTask\<close> and moved by any accepted sequence of transitions
  keeps its id, counts its versions from 1, holds a lease only while running, and has an
  end time whenever its status is terminal.
\<close>

theorem transitions_keep_lifecycle:
  assumes "newKanbanTask z uuid clock i = Inr t0" and "run_transitions t0 cmds = Inr t"
  shows "kt_id t = kt_id t0 \<and> kt_version t = 1 + int (length cmds) \<and> claim_inv t \<and>
    (isTerminal (kt_status t) \<longrightarrow> kt_endedAt t \<noteq> None)"
proof -
  have "lifecycle_inv t0" and v: "kt_version t0 = 1"
    using assms(1) by (auto simp: newKanbanTask_Inr)
  from run_transitions_Inr [OF assms(2) this(1)] v show ?thesis by (auto simp: lifecycle_inv_def)
qed

definition move_to :: "kanban_status \<Rightarrow> int \<Rightarrow> transition_command" where
  "move_to s v = \<lparr>tc_to = s, tc_expectedVersion = v, tc_reason = None, tc_at = None, tc_claim = None\<rparr>"

lemma transitions_keep_lifecycle_witness:
  "\<exists>t. run_transitions (initial_task ''u'' ''now'' (plain_task ''paint''))
      [(''a'', move_to KTriaged 1), (''b'', move_to KCancelled 2)] = Inr t \<and>
    kt_version t = 3 \<and> kt_endedAt t \<noteq> None"
proof -
  let ?t = "initial_task ''u'' ''now'' (plain_task ''paint'')"
  have new: "newKanbanTask any_zod ''u'' ''now'' (plain_task ''paint'') = Inr ?t"
    by (simp add: newKanbanTask_def any_zod_def plain_task_def initial_task_def task_ok_def Let_def)
  obtain t where t: "run_transitions ?t [(''a'', move_to KTriaged 1), (''b'', move_to KCancelled 2)] = Inr t"
    "kt_status t = KCancelled"
    by (simp add: applyTransition_def move_to_def canTransition_def Let_def)
  from transitions_keep_lifecycle [OF new t(1)] t show ?thesis by simp
qed

text \<open>
  an archived task is final: whatever command a caller sends it is refused, and a
  finished or cancelled task accepts nothing but its archiving.
\<close>

theorem terminal_tasks_stay:
  assumes "kt_status t \<in> {KArchived, KDone, KCancelled}" and "applyTransition clock t cmd = Inr t'"
  shows "kt_status t' = KArchived \<and> kt_status t \<noteq> KArchived"
  using applyTransition_Inr(2,3) [OF assms(2)] assms(1) by (auto simp: transitions_from_terminal)

lemma terminal_tasks_stay_witness:
  "\<exists>t. applyTransition ''now'' (initial_task ''u'' ''now'' (plain_task ''p'')\<lparr>kt_status := KDone\<rparr>)
      (move_to KArchived 1) = Inr t \<and> kt_status t = KArchived"
proof -
  let ?t = "initial_task ''u'' ''now'' (plain_task ''p'')\<lparr>kt_status := KDone\<rparr>"
  obtain t where t: "applyTransition ''now'' ?t (move_to KArchived 1) = Inr t"
    by (simp add: applyTransition_def move_to_def canTransition_def Let_def)
  with terminal_tasks_stay [OF _ t] show ?thesis by simp
qed

end
