(* ===== verification/Json.thy ===== *)
theory Json
  imports Prelude
begin

text \<open>
  JSON values, for the fields the schemas leave as \<open>z.unknown()\<close>. Numbers are the
  integers among the JavaScript numbers.
\<close>

datatype json =
    JNull
  | JBool bool
  | JNum int
  | JStr string
  | JArr "json list"
  | JObj "(string \<times> json) list"

text \<open>The digest format \<open>^sha256:[0-9a-f]{64}$\<close>.\<close>

definition hex_digit :: "char \<Rightarrow> bool" where
  "hex_digit c \<longleftrightarrow> List.member ''0123456789abcdef'' c"

definition sha256_digest :: "string \<Rightarrow> bool" where
  "sha256_digest s \<longleftrightarrow> starts_with ''sha256:'' s \<and> length s = 71 \<and> list_all hex_digit (drop 7 s)"

end
