(* ===== verification/ThreadTypes.thy ===== *)
theory ThreadTypes
  imports Json
begin

text \<open>
  The Thread-Turn-Item protocol (\<open>packages/thread/src/protocol.ts\<close>): threads, turns, items
  with their eight payload shapes, and the thirteen wire events, each schema as a record or
  datatype with the predicate of the values it accepts.
\<close>

section \<open>Threads, turns and items\<close>

record protocol_ref =
  pr_id :: string
  pr_version :: string

record thread =
  th_id :: string
  th_title :: string
  th_workspaceId :: "string option"
  th_memoryView :: "protocol_ref option"
  th_createdAt :: string
  th_updatedAt :: string

datatype turn_status = TActive | TCompleted | TFailed | TCancelled

datatype turn_trigger = UserTrigger | SystemTrigger | ScheduleTrigger

record turn =
  tu_id :: string
  tu_threadId :: string
  tu_status :: turn_status
  tu_trigger :: turn_trigger
  tu_input :: "string option"
  tu_structureVersion :: "string option"
  tu_startedAt :: string
  tu_endedAt :: "string option"

datatype item_status = IActive | ICompleted | IFailed

datatype message_role = RUser | RAssistant | RSystem | RTool

record message_tool_call =
  mtc_callId :: string
  mtc_toolId :: string
  mtc_input :: json
  mtc_inputError :: "string option"

datatype approval_status = Pending | Approved | Rejected

datatype file_change = Created | Modified | Deleted

datatype item_payload =
    MessageItem message_role string "message_tool_call list option"
  | PlanItem string string
  | ToolCallItem string string json "string option" "json option" "string option" "bool option"
  | ApprovalItem string "string option" approval_status "string option" "string option"
      "string option"
  | ArtifactItem "string option" string int
  | FileChangeItem string file_change "string option"
  | MemoryCitationItem string string
  | LearningNoteItem string

record item =
  it_id :: string
  it_threadId :: string
  it_turnId :: string
  it_status :: item_status
  it_createdAt :: string
  it_updatedAt :: "string option"
  it_endedAt :: "string option"
  it_error :: "string option"
  it_payload :: item_payload

definition protocol_ref_ok :: "protocol_ref \<Rightarrow> bool" where
  "protocol_ref_ok r \<longleftrightarrow> min1 (pr_id r) \<and> min1 (pr_version r)"

definition thread_ok :: "zod \<Rightarrow> thread \<Rightarrow> bool" where
  "thread_ok z t \<longleftrightarrow> z_uuid z (th_id t) \<and> min1 (th_title t) \<and> opt_ok min1 (th_workspaceId t) \<and>
     opt_ok protocol_ref_ok (th_memoryView t) \<and> z_datetime z (th_createdAt t) \<and>
     z_datetime z (th_updatedAt t)"

definition turn_ok :: "zod \<Rightarrow> turn \<Rightarrow> bool" where
  "turn_ok z t \<longleftrightarrow> z_uuid z (tu_id t) \<and> z_uuid z (tu_threadId t) \<and>
     opt_ok min1 (tu_structureVersion t) \<and> z_datetime z (tu_startedAt t) \<and>
     opt_ok (z_datetime z) (tu_endedAt t)"

definition message_tool_call_ok :: "message_tool_call \<Rightarrow> bool" where
  "message_tool_call_ok c \<longleftrightarrow> min1 (mtc_callId c) \<and> min1 (mtc_toolId c)"

fun item_payload_ok :: "item_payload \<Rightarrow> bool" where
  "item_payload_ok (MessageItem role content calls) = opt_ok (list_all message_tool_call_ok) calls"
| "item_payload_ok (PlanItem planId version) = (min1 planId \<and> min1 version)"
| "item_payload_ok (ToolCallItem toolId callId inp inputError out content isError) =
     (min1 toolId \<and> min1 callId)"
| "item_payload_ok (ApprovalItem title detail status approvalId callId toolId) =
     (min1 title \<and> opt_ok min1 approvalId \<and> opt_ok min1 callId \<and> opt_ok min1 toolId)"
| "item_payload_ok (ArtifactItem name digest bytes) =
     (opt_ok min1 name \<and> sha256_digest digest \<and> 0 \<le> bytes)"
| "item_payload_ok (FileChangeItem path change digest) = (min1 path \<and> opt_ok sha256_digest digest)"
| "item_payload_ok (MemoryCitationItem memoryId snippet) = min1 memoryId"
| "item_payload_ok (LearningNoteItem text) = min1 text"

definition item_ok :: "zod \<Rightarrow> item \<Rightarrow> bool" where
  "item_ok z i \<longleftrightarrow> z_uuid z (it_id i) \<and> z_uuid z (it_threadId i) \<and> z_uuid z (it_turnId i) \<and>
     z_datetime z (it_createdAt i) \<and> opt_ok (z_datetime z) (it_updatedAt i) \<and>
     opt_ok (z_datetime z) (it_endedAt i) \<and> item_payload_ok (it_payload i)"

section \<open>Event payloads and wire events\<close>

text \<open>
  What a thread event carries in Chronicle: the wire event without its position
  (\<open>sequence\<close>, \<open>threadId\<close>, \<open>turnId\<close>) and without the discriminator.
\<close>

datatype thread_payload =
    PThread thread
  | PTitle string
  | PTurn turn
  | PTurnFailed string turn
  | PItem item
  | PItemDelta string string
  | PItemFailed string string
  | PCheckpoint int string
  | PRecoveryFailed int string string
  | PCompacted string int string int

datatype thread_event_kind =
    ThreadCreated | ThreadRenamed | TurnStarted | TurnCompleted | TurnFailed | TurnCancelled
  | ItemStarted | ItemDelta | ItemCompleted | ItemFailed | AgentCheckpoint | AgentRecoveryFailed
  | ContextCompacted

text \<open>The property \<open>turn\<close> of a payload, where it has one.\<close>

fun payload_turn :: "thread_payload \<Rightarrow> turn option" where
  "payload_turn (PTurn t) = Some t"
| "payload_turn (PTurnFailed err t) = Some t"
| "payload_turn _ = None"

text \<open>
  The payload schema of each event type: it looks at the keys it names and ignores others.
\<close>

definition thread_payload_ok :: "zod \<Rightarrow> thread_event_kind \<Rightarrow> thread_payload \<Rightarrow> bool" where
  "thread_payload_ok z k p =
     (case k of
        ThreadCreated \<Rightarrow> (case p of PThread t \<Rightarrow> thread_ok z t | _ \<Rightarrow> False)
      | ThreadRenamed \<Rightarrow> (case p of PTitle title \<Rightarrow> min1 title \<and> length title \<le> 200 | _ \<Rightarrow> False)
      | TurnStarted \<Rightarrow> (case payload_turn p of None \<Rightarrow> False | Some t \<Rightarrow> turn_ok z t)
      | TurnCompleted \<Rightarrow> (case payload_turn p of None \<Rightarrow> False | Some t \<Rightarrow> turn_ok z t)
      | TurnFailed \<Rightarrow> (case p of PTurnFailed err t \<Rightarrow> min1 err \<and> turn_ok z t | _ \<Rightarrow> False)
      | TurnCancelled \<Rightarrow> (case payload_turn p of None \<Rightarrow> False | Some t \<Rightarrow> turn_ok z t)
      | ItemStarted \<Rightarrow> (case p of PItem i \<Rightarrow> item_ok z i | _ \<Rightarrow> False)
      | ItemDelta \<Rightarrow> (case p of PItemDelta itemId d \<Rightarrow> z_uuid z itemId | _ \<Rightarrow> False)
      | ItemCompleted \<Rightarrow> (case p of PItem i \<Rightarrow> item_ok z i | _ \<Rightarrow> False)
      | ItemFailed \<Rightarrow>
          (case p of PItemFailed itemId err \<Rightarrow> z_uuid z itemId \<and> min1 err | _ \<Rightarrow> False)
      | AgentCheckpoint \<Rightarrow>
          (case p of PCheckpoint stepIndex digest \<Rightarrow> 0 \<le> stepIndex \<and> min1 digest | _ \<Rightarrow> False)
      | AgentRecoveryFailed \<Rightarrow>
          (case p of PRecoveryFailed sq expected actual \<Rightarrow> 0 < sq \<and> min1 expected \<and> min1 actual
           | _ \<Rightarrow> False)
      | ContextCompacted \<Rightarrow>
          (case p of PCompacted summary covered digest tokens \<Rightarrow>
             min1 summary \<and> 0 < covered \<and> sha256_digest digest \<and> 0 < tokens
           | _ \<Rightarrow> False))"

text \<open>A wire event: \<open>turnId\<close> is absent on the two thread-level events.\<close>

record thread_event =
  te_sequence :: int
  te_threadId :: string
  te_turnId :: "string option"
  te_kind :: thread_event_kind
  te_payload :: thread_payload

definition thread_event_ok :: "zod \<Rightarrow> thread_event \<Rightarrow> bool" where
  "thread_event_ok z e \<longleftrightarrow> 0 < te_sequence e \<and> z_uuid z (te_threadId e) \<and>
     (if te_kind e = ThreadCreated \<or> te_kind e = ThreadRenamed then te_turnId e = None
      else (case te_turnId e of None \<Rightarrow> False | Some t \<Rightarrow> z_uuid z t)) \<and>
     thread_payload_ok z (te_kind e) (te_payload e)"

record thread_event_page =
  pg_events :: "thread_event list"
  pg_hasMore :: bool

end
