(* ===== verification/SchedulerTypes.thy ===== *)
theory SchedulerTypes
  imports KanbanTypes
begin

text \<open>
  Triggers and event payloads of the durable scheduler
  (\<open>packages/runtime/src/scheduler-events.ts\<close>).
\<close>

record when_task_status =
  wt_taskId :: string
  wt_status :: kanban_status

record when_event =
  we_streamPrefix :: "string option"
  we_eventType :: string

record scheduler_when =
  sw_taskStatus :: "when_task_status option"
  sw_event :: "when_event option"

record scheduler_trigger =
  tr_id :: string
  tr_input :: string
  tr_threadId :: string
  tr_at :: "string option"
  tr_intervalMs :: "int option"
  tr_when :: "scheduler_when option"
  tr_enabled :: bool
  tr_createdAt :: string
  tr_nextRunAt :: "string option"

datatype run_status = RunCompleted | RunFailed | RunCancelled | RunSuspended | RunError

record triggered_payload =
  tp_triggerId :: string
  tp_threadId :: string
  tp_turnId :: "string option"
  tp_status :: run_status
  tp_firedAt :: string
  tp_missedIntervals :: int
  tp_nextRunAt :: "string option"

datatype scheduler_payload =
    SRegisteredP scheduler_trigger
  | STriggeredP triggered_payload
  | SRemovedP string "string option"

text \<open>The schema with its refinement: exactly one of the two conditions.\<close>

definition scheduler_when_ok :: "zod \<Rightarrow> scheduler_when \<Rightarrow> bool" where
  "scheduler_when_ok z w \<longleftrightarrow>
     opt_ok (\<lambda>t. z_uuid z (wt_taskId t)) (sw_taskStatus w) \<and>
     opt_ok (\<lambda>e. opt_ok min1 (we_streamPrefix e) \<and> min1 (we_eventType e)) (sw_event w) \<and>
     (sw_taskStatus w \<noteq> None) \<noteq> (sw_event w \<noteq> None)"

definition trigger_ok :: "zod \<Rightarrow> scheduler_trigger \<Rightarrow> bool" where
  "trigger_ok z t \<longleftrightarrow> z_uuid z (tr_id t) \<and> min1 (tr_input t) \<and> z_uuid z (tr_threadId t) \<and>
     opt_ok (z_datetime z) (tr_at t) \<and> opt_ok (\<lambda>n. 0 < n) (tr_intervalMs t) \<and>
     opt_ok (scheduler_when_ok z) (tr_when t) \<and> z_datetime z (tr_createdAt t) \<and>
     opt_ok (z_datetime z) (tr_nextRunAt t)"

definition triggered_payload_ok :: "zod \<Rightarrow> triggered_payload \<Rightarrow> bool" where
  "triggered_payload_ok z p \<longleftrightarrow> z_uuid z (tp_triggerId p) \<and> z_uuid z (tp_threadId p) \<and>
     opt_ok (z_uuid z) (tp_turnId p) \<and> z_datetime z (tp_firedAt p) \<and> 0 \<le> tp_missedIntervals p \<and>
     opt_ok (z_datetime z) (tp_nextRunAt p)"

fun scheduler_payload_ok :: "zod \<Rightarrow> scheduler_payload \<Rightarrow> bool" where
  "scheduler_payload_ok z (SRegisteredP t) = trigger_ok z t"
| "scheduler_payload_ok z (STriggeredP p) = triggered_payload_ok z p"
| "scheduler_payload_ok z (SRemovedP triggerId reason) = (z_uuid z triggerId \<and> opt_ok min1 reason)"

fun scheduler_event_type :: "scheduler_payload \<Rightarrow> string" where
  "scheduler_event_type (SRegisteredP _) = ''scheduler.trigger.registered''"
| "scheduler_event_type (STriggeredP _) = ''scheduler.trigger.triggered''"
| "scheduler_event_type (SRemovedP _ _) = ''scheduler.trigger.removed''"

definition SCHEDULER_STREAM_ID :: string where
  "SCHEDULER_STREAM_ID = ''scheduler''"

end
