(* ===== verification/ExecutionTypes.thy ===== *)
theory ExecutionTypes
  imports Chronicle Json
begin

text \<open>
  The values of the execution boundary: action requests and results, permission decisions
  and the payloads of the \<open>execution.*\<close> events
  (\<open>packages/execution/src/execution-world.ts\<close>), of the \<open>grant.*\<close> events
  (\<open>grant-events.ts\<close>) and of the \<open>skill.*\<close> events (\<open>skill-events.ts\<close>).
\<close>

section \<open>Action requests\<close>

text \<open>\<open>equals: z.union([z.string(), z.number()])\<close>.\<close>

datatype completion_value = EqualsString string | EqualsNumber int

record stdout_completion =
  so_property :: string
  so_equals :: completion_value

record stdio_step =
  si_input :: string
  si_waitFor :: "stdout_completion option"

record resource_requirements =
  rr_readPaths :: "string list"
  rr_writePaths :: "string list"
  rr_networkTargets :: "string list"
  rr_commands :: "string list list"
  rr_commandStdin :: "string option"
  rr_stdoutCompletion :: "stdout_completion option"
  rr_commandStdio :: "stdio_step list option"
  rr_secretEnv :: "(string, string) jsmap"
  rr_workingDirectory :: "string option"
  rr_timeoutMs :: "int option"
  rr_maxOutputBytes :: "int option"

record action_request =
  aq_id :: string
  aq_idempotencyKey :: string
  aq_capability :: string
  aq_subject :: chronicle_actor
  aq_input :: json
  aq_requirements :: resource_requirements
  aq_expectedEffects :: "string list"
  aq_verification :: "string list"
  aq_threadId :: string
  aq_turnId :: string
  aq_itemId :: "string option"
  aq_structureVersion :: "string option"

text \<open>\<open>path.isAbsolute\<close> of Node on a POSIX system.\<close>

definition isAbsolute :: "string \<Rightarrow> bool" where
  "isAbsolute p \<longleftrightarrow> take 1 p = ''/''"

definition completion_ok :: "stdout_completion \<Rightarrow> bool" where
  "completion_ok c \<longleftrightarrow> min1 (so_property c)"

text \<open>The staged writes: at least one, and the last must wait for an answer.\<close>

definition stdio_ok :: "stdio_step list \<Rightarrow> bool" where
  "stdio_ok steps \<longleftrightarrow> steps \<noteq> [] \<and> list_all (\<lambda>s. opt_ok completion_ok (si_waitFor s)) steps \<and>
     si_waitFor (last steps) \<noteq> None"

definition env_name_ok :: "string \<Rightarrow> bool" where
  "env_name_ok s \<longleftrightarrow> (case s of
     [] \<Rightarrow> False
   | c # cs \<Rightarrow> List.member ''ABCDEFGHIJKLMNOPQRSTUVWXYZ_'' c \<and>
       list_all (\<lambda>d. List.member ''ABCDEFGHIJKLMNOPQRSTUVWXYZ_0123456789'' d) cs)"

definition command_ok :: "string list \<Rightarrow> bool" where
  "command_ok argv \<longleftrightarrow> (case argv of [] \<Rightarrow> False | exe # args \<Rightarrow> isAbsolute exe)"

definition requirements_ok :: "resource_requirements \<Rightarrow> bool" where
  "requirements_ok r \<longleftrightarrow> list_all isAbsolute (rr_readPaths r) \<and> list_all isAbsolute (rr_writePaths r) \<and>
     list_all command_ok (rr_commands r) \<and> opt_ok completion_ok (rr_stdoutCompletion r) \<and>
     opt_ok stdio_ok (rr_commandStdio r) \<and>
     list_all (\<lambda>(k, v). env_name_ok k \<and> min1 v) (rr_secretEnv r) \<and>
     opt_ok isAbsolute (rr_workingDirectory r) \<and> opt_ok (\<lambda>n. 0 < n) (rr_timeoutMs r) \<and>
     opt_ok (\<lambda>n. 0 < n) (rr_maxOutputBytes r)"

definition request_ok :: "zod \<Rightarrow> action_request \<Rightarrow> bool" where
  "request_ok z q \<longleftrightarrow> z_uuid z (aq_id q) \<and> min1 (aq_idempotencyKey q) \<and> min1 (aq_capability q) \<and>
     min1 (actor_id (aq_subject q)) \<and> requirements_ok (aq_requirements q) \<and>
     list_all min1 (aq_expectedEffects q) \<and> list_all min1 (aq_verification q) \<and>
     min1 (aq_threadId q) \<and> min1 (aq_turnId q) \<and> opt_ok min1 (aq_itemId q) \<and>
     opt_ok min1 (aq_structureVersion q)"

record action_result =
  ar_output :: json
  ar_content :: string
  ar_isError :: "bool option"
  ar_worldDiff :: "json option"
  ar_verification :: "string list"

section \<open>Decisions\<close>

datatype decision_kind = Allow | Ask | Deny

record decision =
  dc_decision :: decision_kind
  dc_reason :: string

record capability_report =
  cr_provider :: string
  cr_filesystemIsolation :: bool
  cr_networkIsolation :: bool
  cr_processIsolation :: bool

record layer_decision =
  ld_id :: string
  ld_decision :: decision_kind
  ld_reason :: string

record permission_snapshot =
  pn_capability :: string
  pn_decision :: decision_kind
  pn_reason :: string
  pn_layers :: "layer_decision list"
  pn_sandbox :: "capability_report option"

definition snapshot_ok :: "permission_snapshot \<Rightarrow> bool" where
  "snapshot_ok s \<longleftrightarrow> min1 (pn_capability s) \<and> min1 (pn_reason s) \<and>
     list_all (\<lambda>l. min1 (ld_id l) \<and> min1 (ld_reason l)) (pn_layers s) \<and>
     opt_ok (\<lambda>c. min1 (cr_provider c)) (pn_sandbox s)"

section \<open>Execution events\<close>

datatype execution_payload =
    XRequestedP action_request string
  | XSnapshotP string permission_snapshot
  | XAuthorizedP string decision
  | XApprovalP string string string string
  | XDeniedP string decision
  | XStartedP string
  | XCompletedP string action_result
  | XFailedP string string

fun execution_event_type :: "execution_payload \<Rightarrow> string" where
  "execution_event_type (XRequestedP _ _) = ''execution.requested''"
| "execution_event_type (XSnapshotP _ _) = ''execution.permission_snapshot''"
| "execution_event_type (XAuthorizedP _ _) = ''execution.authorized''"
| "execution_event_type (XApprovalP _ _ _ _) = ''execution.approval_required''"
| "execution_event_type (XDeniedP _ _) = ''execution.denied''"
| "execution_event_type (XStartedP _) = ''execution.started''"
| "execution_event_type (XCompletedP _ _) = ''execution.completed''"
| "execution_event_type (XFailedP _ _) = ''execution.failed''"

fun execution_payload_ok :: "zod \<Rightarrow> execution_payload \<Rightarrow> bool" where
  "execution_payload_ok z (XRequestedP q digest) = (request_ok z q \<and> sha256_digest digest)"
| "execution_payload_ok z (XSnapshotP rid s) = (z_uuid z rid \<and> snapshot_ok s)"
| "execution_payload_ok z (XAuthorizedP rid d) = (z_uuid z rid \<and> min1 (dc_reason d))"
| "execution_payload_ok z (XApprovalP rid aid title detail) =
     (z_uuid z rid \<and> min1 aid \<and> min1 title \<and> min1 detail)"
| "execution_payload_ok z (XDeniedP rid d) = (z_uuid z rid \<and> min1 (dc_reason d))"
| "execution_payload_ok z (XStartedP rid) = z_uuid z rid"
| "execution_payload_ok z (XCompletedP rid r) = z_uuid z rid"
| "execution_payload_ok z (XFailedP rid m) = (z_uuid z rid \<and> min1 m)"

definition EXECUTION_EVENT_TYPES :: "string list" where
  "EXECUTION_EVENT_TYPES = [''execution.requested'', ''execution.permission_snapshot'',
     ''execution.authorized'', ''execution.approval_required'', ''execution.denied'',
     ''execution.started'', ''execution.completed'', ''execution.failed'']"

lemma execution_event_type_listed [simp]: "execution_event_type p \<in> set EXECUTION_EVENT_TYPES"
  by (cases p) (simp_all add: EXECUTION_EVENT_TYPES_def)

section \<open>Grant events\<close>

record grant_fact =
  gf_capability :: string
  gf_reason :: "string option"
  gf_by :: string
  gf_at :: string

datatype grant_payload = GRecordedP grant_fact | GRevokedP grant_fact

fun grant_event_type :: "grant_payload \<Rightarrow> string" where
  "grant_event_type (GRecordedP _) = ''grant.recorded''"
| "grant_event_type (GRevokedP _) = ''grant.revoked''"

text \<open>\<open>GrantBaseSchema\<close>, the schema of both events.\<close>

definition grant_fact_ok :: "zod \<Rightarrow> grant_fact \<Rightarrow> bool" where
  "grant_fact_ok z f \<longleftrightarrow> min1 (gf_capability f) \<and> opt_ok min1 (gf_reason f) \<and> min1 (gf_by f) \<and>
     z_datetime z (gf_at f)"

fun grant_payload_ok :: "zod \<Rightarrow> grant_payload \<Rightarrow> bool" where
  "grant_payload_ok z (GRecordedP f) = grant_fact_ok z f"
| "grant_payload_ok z (GRevokedP f) = grant_fact_ok z f"

definition GRANT_EVENT_TYPES :: "string list" where
  "GRANT_EVENT_TYPES = [''grant.recorded'', ''grant.revoked'']"

definition GRANTS_STREAM_ID :: string where
  "GRANTS_STREAM_ID = ''grants''"

section \<open>Skill events\<close>

record skill_origin =
  so_proposalId :: string
  so_targetKey :: string

record skill_registration =
  kr_skillId :: string
  kr_name :: string
  kr_summary :: string
  kr_instructions :: string
  kr_boundToolId :: string
  kr_typicalInput :: "(string, json) jsmap"
  kr_origin :: skill_origin
  kr_registeredBy :: string
  kr_registeredAt :: string

record skill_revocation =
  kv_skillId :: string
  kv_reason :: "string option"
  kv_registeredBy :: string
  kv_registeredAt :: string

datatype skill_payload = SkillRegisteredP skill_registration | SkillRevokedP skill_revocation

fun skill_event_type :: "skill_payload \<Rightarrow> string" where
  "skill_event_type (SkillRegisteredP _) = ''skill.registered''"
| "skill_event_type (SkillRevokedP _) = ''skill.revoked''"

fun skill_payload_ok :: "zod \<Rightarrow> skill_payload \<Rightarrow> bool" where
  "skill_payload_ok z (SkillRegisteredP k) = (min1 (kr_skillId k) \<and> min1 (kr_name k) \<and>
     min1 (kr_summary k) \<and> min1 (kr_instructions k) \<and> min1 (kr_boundToolId k) \<and>
     min1 (so_proposalId (kr_origin k)) \<and> min1 (so_targetKey (kr_origin k)) \<and>
     min1 (kr_registeredBy k) \<and> z_datetime z (kr_registeredAt k))"
| "skill_payload_ok z (SkillRevokedP k) = (min1 (kv_skillId k) \<and> opt_ok min1 (kv_reason k) \<and>
     min1 (kv_registeredBy k) \<and> z_datetime z (kv_registeredAt k))"

definition SKILL_EVENT_TYPES :: "string list" where
  "SKILL_EVENT_TYPES = [''skill.registered'', ''skill.revoked'']"

definition SKILLS_STREAM_ID :: string where
  "SKILLS_STREAM_ID = ''skills''"

end
