(* ===== verification/WorldTypes.thy ===== *)
theory WorldTypes
  imports Chronicle Json
begin

text \<open>
  The values of the world model (\<open>packages/knowledge/src/world-schema.ts\<close>) and the payloads
  of the \<open>world.*\<close> events (\<open>world-events.ts\<close>).
\<close>

datatype world_entity_kind = ActorEntity | ResourceEntity | CapabilityEntity | LocationEntity

datatype world_attribute = AStr string | ANum int | ABool bool | ANull

record world_entity =
  en_id :: string
  en_kind :: world_entity_kind
  en_subtype :: "string option"
  en_attributes :: "(string, world_attribute) jsmap"
  en_firstSeenAt :: string
  en_lastSeenAt :: string

record new_world_entity =
  ne_id :: string
  ne_kind :: world_entity_kind
  ne_subtype :: "string option"
  ne_attributes :: "(string, world_attribute) jsmap option"
  ne_seenAt :: "string option"

record world_provenance =
  pv_streamId :: string
  pv_sequence :: int
  pv_threadId :: "string option"
  pv_turnId :: "string option"
  pv_itemId :: "string option"

datatype world_relation_type =
    Owns | DependsOn | Contains | ConnectedTo | AuthorizedFor | ProducedBy | Used

record world_relation =
  wl_id :: string
  wl_type :: world_relation_type
  wl_fromEntityId :: string
  wl_toEntityId :: string
  wl_provenance :: world_provenance
  wl_validTime :: valid_time
  wl_recordedAt :: string

record new_world_relation =
  nl_type :: world_relation_type
  nl_fromEntityId :: string
  nl_toEntityId :: string
  nl_provenance :: world_provenance
  nl_validTime :: "valid_time option"
  nl_id :: "string option"
  nl_recordedAt :: "string option"

record world_version =
  wv_version :: int
  wv_digest :: string
  wv_at :: string

record world_projection =
  wp_entities :: "new_world_entity list option"
  wp_relations :: "new_world_relation list option"

definition entity_ok :: "zod \<Rightarrow> world_entity \<Rightarrow> bool" where
  "entity_ok z e \<longleftrightarrow> min1 (en_id e) \<and> opt_ok min1 (en_subtype e) \<and> z_datetime z (en_firstSeenAt e) \<and>
     z_datetime z (en_lastSeenAt e)"

definition provenance_ok :: "world_provenance \<Rightarrow> bool" where
  "provenance_ok p \<longleftrightarrow> min1 (pv_streamId p) \<and> 0 < pv_sequence p \<and> opt_ok min1 (pv_threadId p) \<and>
     opt_ok min1 (pv_turnId p) \<and> opt_ok min1 (pv_itemId p)"

definition relation_ok :: "zod \<Rightarrow> world_relation \<Rightarrow> bool" where
  "relation_ok z r \<longleftrightarrow> z_uuid z (wl_id r) \<and> min1 (wl_fromEntityId r) \<and> min1 (wl_toEntityId r) \<and>
     provenance_ok (wl_provenance r) \<and> valid_time_ok z (wl_validTime r) \<and> z_datetime z (wl_recordedAt r)"

definition version_ok :: "zod \<Rightarrow> world_version \<Rightarrow> bool" where
  "version_ok z v \<longleftrightarrow> 0 < wv_version v \<and> sha256_digest (wv_digest v) \<and> z_datetime z (wv_at v)"

datatype world_payload =
    WEntityP world_entity
  | WRelationP world_relation
  | WVersionP world_version

fun world_event_type :: "world_payload \<Rightarrow> string" where
  "world_event_type (WEntityP _) = ''world.entity.recorded''"
| "world_event_type (WRelationP _) = ''world.relation.projected''"
| "world_event_type (WVersionP _) = ''world.version.bumped''"

fun world_payload_ok :: "zod \<Rightarrow> world_payload \<Rightarrow> bool" where
  "world_payload_ok z (WEntityP e) = entity_ok z e"
| "world_payload_ok z (WRelationP r) = relation_ok z r"
| "world_payload_ok z (WVersionP v) = version_ok z v"

definition WORLD_EVENT_TYPES :: "string list" where
  "WORLD_EVENT_TYPES = [''world.entity.recorded'', ''world.relation.projected'', ''world.version.bumped'']"

definition WORLD_STREAM_ID :: string where
  "WORLD_STREAM_ID = ''world''"

lemma world_event_type_listed [simp]: "world_event_type p \<in> set WORLD_EVENT_TYPES"
  by (cases p) (simp_all add: WORLD_EVENT_TYPES_def)

end
