(* ===== verification/CanonicalJson.thy ===== *)
theory CanonicalJson
  imports Json
begin

text \<open>
  \<open>canonicalJson\<close> of \<open>packages/kernel/src/structure.ts\<close>: JSON with the members of every
  object sorted by key, the text every digest of the program is taken over. It is shown to
  determine the value up to the order of members.
\<close>

section \<open>JSON.stringify of the leaves\<close>

definition hex_char :: "nat \<Rightarrow> char" where
  "hex_char n = ''0123456789abcdef'' ! n"

text \<open>The escapes of \<open>JSON.stringify\<close>: quotes, backslashes and control characters.\<close>

definition json_escape :: "char \<Rightarrow> string" where
  "json_escape c =
     (if c = CHR 0x22 then [CHR 0x5C, CHR 0x22]
      else if c = CHR 0x5C then [CHR 0x5C, CHR 0x5C]
      else if c = CHR 0x08 then [CHR 0x5C, CHR ''b'']
      else if c = CHR 0x09 then [CHR 0x5C, CHR ''t'']
      else if c = CHR 0x0A then [CHR 0x5C, CHR ''n'']
      else if c = CHR 0x0C then [CHR 0x5C, CHR ''f'']
      else if c = CHR 0x0D then [CHR 0x5C, CHR ''r'']
      else let k = of_char c :: nat
        in if k < 32 then [CHR 0x5C, CHR ''u'', CHR ''0'', CHR ''0'', hex_char (k div 16), hex_char (k mod 16)]
           else [c])"

definition json_string :: "string \<Rightarrow> string" where
  "json_string s = CHR 0x22 # concat (map json_escape s) @ [CHR 0x22]"

fun nat_string :: "nat \<Rightarrow> string" where
  "nat_string n = (if n < 10 then [char_of (48 + n)] else nat_string (n div 10) @ [char_of (48 + n mod 10)])"

declare nat_string.simps [simp del]

definition int_string :: "int \<Rightarrow> string" where
  "int_string n = (if n < 0 then CHR ''-'' # nat_string (nat (- n)) else nat_string (nat n))"

text \<open>\<open>Array.prototype.join\<close> with a comma.\<close>

fun join_comma :: "string list \<Rightarrow> string" where
  "join_comma [] = []"
| "join_comma [x] = x"
| "join_comma (x # y # ys) = x @ CHR '','' # join_comma (y # ys)"

text \<open>The sorted members of an object, by the code units of their keys.\<close>

definition sort_members :: "(string \<times> 'a) list \<Rightarrow> (string \<times> 'a) list" where
  "sort_members kvs = js_sort (\<lambda>a b. code_unit_compare (fst a) (fst b)) kvs"

fun canonicalJson :: "json \<Rightarrow> string" where
  "canonicalJson JNull = ''null''"
| "canonicalJson (JBool b) = (if b then ''true'' else ''false'')"
| "canonicalJson (JNum n) = int_string n"
| "canonicalJson (JStr s) = json_string s"
| "canonicalJson (JArr xs) = CHR ''['' # join_comma (map canonicalJson xs) @ '']''"
| "canonicalJson (JObj kvs) = CHR ''{'' # join_comma (map (\<lambda>(k, text). json_string k @ CHR '':'' # text)
     (sort_members (map (\<lambda>(k, v). (k, canonicalJson v)) kvs))) @ ''}''"

section \<open>The value up to the order of members\<close>

fun json_norm :: "json \<Rightarrow> json" where
  "json_norm (JArr xs) = JArr (map json_norm xs)"
| "json_norm (JObj kvs) = JObj (sort_members (map (\<lambda>(k, v). (k, json_norm v)) kvs))"
| "json_norm v = v"

text \<open>Printing a value with its members in the order they have.\<close>

fun print_json :: "json \<Rightarrow> string" where
  "print_json JNull = ''null''"
| "print_json (JBool b) = (if b then ''true'' else ''false'')"
| "print_json (JNum n) = int_string n"
| "print_json (JStr s) = json_string s"
| "print_json (JArr xs) = CHR ''['' # join_comma (map print_json xs) @ '']''"
| "print_json (JObj kvs) = CHR ''{'' # join_comma (map (\<lambda>(k, v). json_string k @ CHR '':'' # print_json v) kvs) @ ''}''"

lemma insert_by_map:
  "map f (insert_by (\<lambda>a b. c (g a) (g b)) x xs) = insert_by (\<lambda>a b. c (h a) (h b)) (f x) (map f xs)"
  if "\<And>a. h (f a) = g a"
  by (induction xs) (simp_all add: that)

lemma js_sort_map:
  "map f (js_sort (\<lambda>a b. c (g a) (g b)) xs) = js_sort (\<lambda>a b. c (h a) (h b)) (map f xs)"
  if "\<And>a. h (f a) = g a"
  by (induction xs) (simp_all add: insert_by_map [where f = f and g = g and h = h and c = c, OF that])

lemma sort_members_map:
  "sort_members (map (\<lambda>(k, v). (k, f v)) kvs) = map (\<lambda>(k, v). (k, f v)) (sort_members kvs)"
  unfolding sort_members_def by (rule js_sort_map [symmetric]) auto

lemma set_sort_members [simp]: "set (sort_members kvs) = set kvs"
  by (simp add: sort_members_def)

lemma canonicalJson_norm: "canonicalJson v = print_json (json_norm v)"
proof (induction v)
  case (JObj kvs)
  let ?norm = "map (\<lambda>(k, v). (k, json_norm v)) kvs"
  have "map (\<lambda>(k, v). (k, canonicalJson v)) kvs = map (\<lambda>(k, v). (k, print_json v)) ?norm"
    using JObj by (auto simp: snds.simps)
  then have "sort_members (map (\<lambda>(k, v). (k, canonicalJson v)) kvs) =
      map (\<lambda>(k, v). (k, print_json v)) (sort_members ?norm)"
    by (simp only: sort_members_map)
  then show ?case by (simp add: o_def case_prod_unfold)
qed (simp_all cong: map_cong)

section \<open>Decoding\<close>

text \<open>One character of a JSON string, and what follows it.\<close>

definition hex_value :: "char \<Rightarrow> nat" where
  "hex_value c = (let k = of_char c in if k < 58 then k - 48 else k - 87)"

fun unescape :: "string \<Rightarrow> (char \<times> string) option" where
  "unescape [] = None"
| "unescape (c # rest) =
     (if c = CHR 0x22 then None
      else if c \<noteq> CHR 0x5C then Some (c, rest)
      else case rest of
        [] \<Rightarrow> None
      | d # rest' \<Rightarrow>
          if d = CHR ''b'' then Some (CHR 0x08, rest')
          else if d = CHR ''t'' then Some (CHR 0x09, rest')
          else if d = CHR ''n'' then Some (CHR 0x0A, rest')
          else if d = CHR ''f'' then Some (CHR 0x0C, rest')
          else if d = CHR ''r'' then Some (CHR 0x0D, rest')
          else if d = CHR ''u'' then
            (case rest' of
               z0 # z1 # a # b # rest'' \<Rightarrow> Some (char_of (16 * hex_value a + hex_value b), rest'')
             | _ \<Rightarrow> None)
          else Some (d, rest'))"

lemma unescape_append: "unescape s = Some (c, rest) \<Longrightarrow> unescape (s @ r) = Some (c, rest @ r)"
  by (cases s rule: unescape.cases) (auto split: list.splits if_splits)

lemma hex_value_char: "n < 16 \<Longrightarrow> hex_value (hex_char n) = n"
proof -
  assume "n < 16"
  then have "n \<in> set [0..<16]" by simp
  then show ?thesis by (simp add: upt_rec) (elim disjE; simp add: hex_value_def hex_char_def)
qed

lemma unescape_single: "unescape (json_escape c) = Some (c, [])"
proof (cases "c \<in> {CHR 0x22, CHR 0x5C, CHR 0x08, CHR 0x09, CHR 0x0A, CHR 0x0C, CHR 0x0D}")
  case True
  then show ?thesis by (auto simp: json_escape_def)
next
  case False
  define k where "k = (of_char c :: nat)"
  have c: "c = char_of k" unfolding k_def by simp
  show ?thesis
  proof (cases "k < 32")
    case True
    then have "k div 16 < 16" by simp
    then have "char_of (16 * hex_value (hex_char (k div 16)) + hex_value (hex_char (k mod 16))) = c"
      unfolding c by (simp add: hex_value_char)
    moreover have "json_escape c =
        [CHR 0x5C, CHR ''u'', CHR ''0'', CHR ''0'', hex_char (k div 16), hex_char (k mod 16)]"
      using False True unfolding json_escape_def Let_def k_def [symmetric] by simp
    ultimately show ?thesis by simp
  next
    case False
    with \<open>c \<notin> _\<close> show ?thesis by (simp add: json_escape_def Let_def k_def)
  qed
qed

lemma unescape_escape: "unescape (json_escape c @ r) = Some (c, r)"
  using unescape_append [OF unescape_single, of c r] by simp

lemma json_string_inject:
  "json_string s @ r = json_string t @ r' \<Longrightarrow> s = t \<and> r = r'"
proof -
  have "concat (map json_escape s) @ CHR 0x22 # r = concat (map json_escape t) @ CHR 0x22 # r' \<Longrightarrow>
      s = t \<and> r = r'"
  proof (induction s arbitrary: t)
    case Nil
    show ?case
    proof (cases t)
      case (Cons d t')
      with Nil have "unescape (CHR 0x22 # r) = unescape (json_escape d @ concat (map json_escape t') @ CHR 0x22 # r')"
        by simp
      then show ?thesis by (simp add: unescape_escape)
    qed (use Nil in simp)
  next
    case (Cons c s)
    show ?case
    proof (cases t)
      case Nil
      with Cons.prems have "unescape (json_escape c @ concat (map json_escape s) @ CHR 0x22 # r) =
          unescape (CHR 0x22 # r')" by simp
      then show ?thesis by (simp add: unescape_escape)
    next
      case (Cons d t')
      with Cons.prems have "unescape (json_escape c @ concat (map json_escape s) @ CHR 0x22 # r) =
          unescape (json_escape d @ concat (map json_escape t') @ CHR 0x22 # r')" by simp
      then have "c = d" "concat (map json_escape s) @ CHR 0x22 # r = concat (map json_escape t') @ CHR 0x22 # r'"
        by (simp_all add: unescape_escape)
      with Cons.IH [of t'] Cons show ?thesis by simp
    qed
  qed
  then show "json_string s @ r = json_string t @ r' \<Longrightarrow> s = t \<and> r = r'" by (simp add: json_string_def)
qed

text \<open>Numbers end where the digits end.\<close>

definition is_digit :: "char \<Rightarrow> bool" where
  "is_digit c \<longleftrightarrow> (48 :: nat) \<le> of_char c \<and> (of_char c :: nat) < 58"

definition nat_value :: "string \<Rightarrow> nat" where
  "nat_value s = foldl (\<lambda>a c. 10 * a + (of_char c - 48)) 0 s"

lemma digit_of_nat: "n < 10 \<Longrightarrow> of_char (char_of (48 + n) :: char) = (48 + n :: nat)"
  by simp

lemma nat_string_digits: "list_all is_digit (nat_string n)"
proof (induction n rule: nat_string.induct)
  case (1 n)
  have "n mod 10 < 10" by simp
  with 1 show ?case
    unfolding nat_string.simps [of n] by (simp add: is_digit_def digit_of_nat del: of_char_of)
qed

lemma nat_value_string: "nat_value (nat_string n) = n"
proof (induction n rule: nat_string.induct)
  case (1 n)
  show ?case
  proof (cases "n < 10")
    case True
    then show ?thesis unfolding nat_string.simps [of n] by (simp add: nat_value_def digit_of_nat del: of_char_of)
  next
    case False
    have "n mod 10 < 10" by simp
    then have "nat_value (nat_string n) = 10 * nat_value (nat_string (n div 10)) + n mod 10"
      using False unfolding nat_string.simps [of n] nat_value_def
      by (simp add: digit_of_nat del: of_char_of)
    with 1 [OF False] show ?thesis by simp
  qed
qed

lemma nat_string_nonempty: "nat_string n \<noteq> []"
  by (subst nat_string.simps) simp

definition delim :: "string \<Rightarrow> bool" where
  "delim r \<longleftrightarrow> r = [] \<or> hd r \<in> {CHR '','', CHR '']'', CHR ''}''}"

lemma delim_simps [simp]: "delim (CHR '','' # r)" "delim (CHR '']'' # r)" "delim (CHR ''}'' # r)"
  by (simp_all add: delim_def)

lemma digits_delim:
  assumes "list_all is_digit s" and "delim r"
  shows "takeWhile is_digit (s @ r) = s"
proof -
  have "takeWhile is_digit r = []" using assms(2) by (cases r) (auto simp: delim_def is_digit_def)
  with assms(1) show ?thesis by (simp add: list_all_iff takeWhile_append)
qed

lemma nat_string_inject:
  assumes "nat_string m @ r = nat_string n @ r'" and "delim r" and "delim r'"
  shows "m = n \<and> r = r'"
proof -
  have "nat_string m = nat_string n"
    using digits_delim [OF nat_string_digits assms(2), of m] digits_delim [OF nat_string_digits assms(3), of n]
      assms(1) by simp
  moreover from this have "m = n" using nat_value_string by metis
  ultimately show ?thesis using assms(1) by simp
qed

lemma nat_string_head: "\<exists>d s. nat_string n = d # s \<and> is_digit d"
  using nat_string_digits [of n] nat_string_nonempty [of n] by (cases "nat_string n") simp_all

lemma int_string_inject:
  assumes "int_string m @ r = int_string n @ r'" and "delim r" and "delim r'"
  shows "m = n \<and> r = r'"
proof -
  have sign: "m < 0 \<longleftrightarrow> n < 0"
  proof -
    have head: "hd (int_string k @ x) = CHR ''-'' \<longleftrightarrow> k < 0" for k x
      using nat_string_head [of "nat k"] by (auto simp: int_string_def is_digit_def)
    show ?thesis using head [of m r] head [of n r'] assms(1) by simp
  qed
  show ?thesis
  proof (cases "m < 0")
    case True
    with sign assms nat_string_inject [of "nat (- m)" r "nat (- n)" r']
    have "nat (- m) = nat (- n) \<and> r = r'" by (simp add: int_string_def)
    with True sign show ?thesis by linarith
  next
    case False
    with sign assms nat_string_inject [of "nat m" r "nat n" r']
    have "nat m = nat n \<and> r = r'" by (simp add: int_string_def)
    with False sign show ?thesis by linarith
  qed
qed

text \<open>Lists: every element is followed by a comma or the closing bracket.\<close>

lemma join_inject:
  assumes "\<And>x y r r'. x \<in> set xs \<Longrightarrow> f x @ r = f y @ r' \<Longrightarrow> delim r \<Longrightarrow> delim r' \<Longrightarrow> x = y \<and> r = r'"
    and "\<And>x. f x \<noteq> [] \<and> hd (f x) \<noteq> e"
    and "e \<in> {CHR '']'', CHR ''}''}"
    and "join_comma (map f xs) @ e # r = join_comma (map f ys) @ e # r'"
  shows "xs = ys \<and> r = r'"
  using assms(1,4)
proof (induction xs arbitrary: ys)
  case Nil
  have start: "hd (join_comma (map f (y # ys)) @ t) \<noteq> e" for y ys t
    using assms(2) [of y] by (cases ys) (simp_all add: hd_append)
  have "ys = []"
  proof (cases ys)
    case (Cons y ys')
    with Nil.prems(2) have "hd (join_comma (map f (y # ys')) @ e # r') = e" by (metis append_Nil join_comma.simps(1) list.sel(1) list.simps(8))
    with start show ?thesis by blast
  qed
  with Nil show ?case by simp
next
  case (Cons x xs)
  have start: "hd (join_comma (map f (y # ys)) @ t) \<noteq> e" for y ys t
    using assms(2) [of y] by (cases ys) (simp_all add: hd_append)
  have rest: "join_comma (map f (z # zs)) @ t =
      f z @ (case zs of [] \<Rightarrow> t | w # ws \<Rightarrow> CHR '','' # join_comma (map f zs) @ t)" for z zs t
    by (cases zs) simp_all
  have d: "delim (case zs of [] \<Rightarrow> e # t | w # ws \<Rightarrow> CHR '','' # join_comma (map f zs) @ e # t)"
    for zs :: "'a list" and t
    using assms(3) by (cases zs) auto
  obtain y ys' where ys: "ys = y # ys'"
  proof (cases ys)
    case Nil
    with Cons.prems(2) have "hd (join_comma (map f (x # xs)) @ e # r) = e" by simp
    with start show thesis by blast
  qed
  from Cons.prems(1) [of x, OF _ Cons.prems(2) [unfolded ys rest] d d]
  have x: "x = y" and tails: "(case xs of [] \<Rightarrow> e # r | w # ws \<Rightarrow> CHR '','' # join_comma (map f xs) @ e # r) =
      (case ys' of [] \<Rightarrow> e # r' | w # ws \<Rightarrow> CHR '','' # join_comma (map f ys') @ e # r')" by simp_all
  have "CHR '','' \<noteq> e" using assms(3) by auto
  with tails have "join_comma (map f xs) @ e # r = join_comma (map f ys') @ e # r'"
    by (cases xs; cases ys') auto
  moreover have "v = w \<and> t = t'" if "v \<in> set xs" "f v @ t = f w @ t'" "delim t" "delim t'" for v w t t'
    using Cons.prems(1) [of v t w t'] that by simp
  ultimately have "xs = ys' \<and> r = r'" by (intro Cons.IH)
  with x ys show ?case by simp
qed

text \<open>The first character tells the kind of a value.\<close>

fun json_kind :: "json \<Rightarrow> nat" where
  "json_kind JNull = 0"
| "json_kind (JBool b) = 1"
| "json_kind (JNum n) = 2"
| "json_kind (JStr s) = 3"
| "json_kind (JArr xs) = 4"
| "json_kind (JObj kvs) = 5"

definition lead_kind :: "char \<Rightarrow> nat" where
  "lead_kind c = (if c = CHR ''n'' then 0 else if c = CHR ''t'' \<or> c = CHR ''f'' then 1
     else if c = CHR 0x22 then 3 else if c = CHR ''['' then 4 else if c = CHR ''{'' then 5 else 2)"

lemma print_lead: "\<exists>c s. print_json v = c # s \<and> lead_kind c = json_kind v"
proof (cases v)
  case (JNum n)
  have "lead_kind d = 2" if "is_digit d" for d
  proof -
    have "\<not> is_digit (CHR ''n'')" "\<not> is_digit (CHR ''t'')" "\<not> is_digit (CHR ''f'')" "\<not> is_digit (CHR 0x22)"
      "\<not> is_digit (CHR ''['')" "\<not> is_digit (CHR ''{'')"
      by (simp_all add: is_digit_def)
    with that have "d \<notin> {CHR ''n'', CHR ''t'', CHR ''f'', CHR 0x22, CHR ''['', CHR ''{''}" by blast
    then show ?thesis unfolding lead_kind_def by simp
  qed
  moreover have "lead_kind (CHR ''-'') = 2" by (simp add: lead_kind_def)
  moreover obtain d s where "nat_string (nat n) = d # s" "is_digit d" using nat_string_head by blast
  ultimately show ?thesis using JNum by (cases "n < 0") (simp_all add: int_string_def)
qed (auto simp: lead_kind_def json_string_def)

lemma print_start: "print_json v \<noteq> [] \<and> hd (print_json v) \<noteq> CHR '']''"
  using print_lead [of v]
proof (elim exE conjE)
  fix c s assume v: "print_json v = c # s" and k: "lead_kind c = json_kind v"
  show ?thesis
  proof (cases "c = CHR '']''")
    case True
    with k have "json_kind v = 2" by (simp add: lead_kind_def)
    then obtain n where "v = JNum n" by (cases v) auto
    with v True show ?thesis using nat_string_head [of "nat n"]
      by (auto simp: int_string_def is_digit_def split: if_splits)
  qed (simp add: v)
qed

lemma print_inject:
  "print_json a @ r = print_json b @ r' \<Longrightarrow> delim r \<Longrightarrow> delim r' \<Longrightarrow> a = b \<and> r = r'"
proof (induction a arbitrary: b r r')
  case (JArr xs)
  obtain ys where b: "b = JArr ys"
    using JArr.prems(1) print_lead [of "JArr xs"] print_lead [of b] by (cases b) auto
  have "join_comma (map print_json xs) @ CHR '']'' # r = join_comma (map print_json ys) @ CHR '']'' # r'"
    using JArr.prems(1) by (simp add: b)
  from join_inject [OF JArr.IH print_start _ this] b show ?case by simp
next
  case (JObj kvs)
  let ?f = "\<lambda>(k, v). json_string k @ CHR '':'' # print_json v"
  obtain kvs' where b: "b = JObj kvs'"
    using JObj.prems(1) print_lead [of "JObj kvs"] print_lead [of b] by (cases b) auto
  have all: "join_comma (map ?f kvs) @ CHR ''}'' # r = join_comma (map ?f kvs') @ CHR ''}'' # r'"
    using JObj.prems(1) by (simp add: b)
  have one: "x = y \<and> t = t'" if "x \<in> set kvs" "?f x @ t = ?f y @ t'" "delim t" "delim t'" for x y t t'
  proof -
    obtain k v k' v' where xy: "x = (k, v)" "y = (k', v')" by fastforce
    with that(2) have eq: "json_string k @ (CHR '':'' # print_json v @ t) =
        json_string k' @ (CHR '':'' # print_json v' @ t')" by simp
    from json_string_inject [OF this] have "k = k'" "print_json v @ t = print_json v' @ t'" by simp_all
    moreover have "v \<in> Basic_BNFs.snds x" using xy by simp
    ultimately have "v = v' \<and> t = t'" using that(3,4) by (intro JObj.IH [OF that(1)])
    with \<open>k = k'\<close> xy show ?thesis by simp
  qed
  have start: "?f x \<noteq> [] \<and> hd (?f x) \<noteq> CHR ''}''" for x
    by (cases x) (simp add: json_string_def)
  from join_inject [OF one start _ all] b show ?case by simp
next
  case (JBool x)
  then show ?case using print_lead [of b] by (cases b) (auto split: if_splits simp: lead_kind_def)
next
  case JNull
  then show ?case using print_lead [of b] by (cases b) (auto split: if_splits simp: lead_kind_def)
next
  case (JNum n)
  obtain m where b: "b = JNum m"
    using JNum.prems(1) print_lead [of "JNum n"] print_lead [of b] by (cases b) auto
  with JNum int_string_inject [of n r m r'] show ?case by simp
next
  case (JStr s)
  obtain t where b: "b = JStr t"
    using JStr.prems(1) print_lead [of "JStr s"] print_lead [of b] by (cases b) auto
  with JStr json_string_inject [of s r t r'] show ?case by simp
qed

lemma canonical_same: "canonicalJson a = canonicalJson b \<Longrightarrow> json_norm a = json_norm b"
  using print_inject [of "json_norm a" "[]" "json_norm b" "[]"]
  by (simp add: canonicalJson_norm delim_def)

lemma canonical_eq_norm: "canonicalJson a = canonicalJson b \<longleftrightarrow> json_norm a = json_norm b"
  using canonical_same by (auto simp: canonicalJson_norm)

text \<open>
  C33: Canonical JSON identifies the value. Two JSON values have the same canonical text
  exactly when they are the same up to the order of the members of their objects, at every
  depth: no two different values share a text to hash.
\<close>

theorem canonicalJson_identifies:
  "canonicalJson a = canonicalJson b \<longleftrightarrow> json_norm a = json_norm b"
  by (rule canonical_eq_norm)

end
