(* ===== verification/Structure.thy ===== *)
theory Structure
  imports CanonicalJson
begin

text \<open>
  The structure of an agent (\<open>packages/kernel/src/structure.ts\<close>): bundles, their resolution
  into one effective structure, its canonical JSON and digest, and the provenance rows. The
  SHA-256 of node's crypto and the agent_bundle loader are parameters. Resolution recurses over
  includes that only the loader knows, so it takes fuel.
\<close>

definition BEE_PROFILE_ID :: string where
  "BEE_PROFILE_ID = ''bee''"

section \<open>References and bundles\<close>

record structure_ref =
  sr_id :: string
  sr_version :: string

definition structure_ref_ok :: "structure_ref \<Rightarrow> bool" where
  "structure_ref_ok r \<longleftrightarrow> min1 (sr_id r) \<and> min1 (sr_version r)"

record bundle_source =
  bs_bundleId :: string
  bs_bundleVersion :: string

definition bundle_source_ok :: "bundle_source \<Rightarrow> bool" where
  "bundle_source_ok s \<longleftrightarrow> min1 (bs_bundleId s) \<and> min1 (bs_bundleVersion s)"

datatype budget_value = BudgetString string | BudgetNumber int | BudgetBool bool

record bundle_plugin =
  bp_id :: string
  bp_ref :: structure_ref
  bp_enabled :: bool
  bp_config :: "json option"

definition bundle_plugin_ok :: "'a bundle_plugin_scheme \<Rightarrow> bool" where
  "bundle_plugin_ok p \<longleftrightarrow> min1 (bp_id p) \<and> structure_ref_ok (bp_ref p)"

text \<open>The record of budgets is its list of entries.\<close>

record agent_bundle =
  bd_id :: string
  bd_version :: string
  bd_profile :: string
  bd_model :: "structure_ref option"
  bd_prompt :: "structure_ref option"
  bd_contextPolicy :: "structure_ref option"
  bd_memoryView :: "structure_ref option"
  bd_sandbox :: "structure_ref option"
  bd_evalPolicy :: "structure_ref option"
  bd_skills :: "structure_ref list"
  bd_tools :: "structure_ref list"
  bd_plugins :: "bundle_plugin list"
  bd_permissions :: "string list"
  bd_budgets :: "(string \<times> budget_value) list"
  bd_includes :: "structure_ref list"

datatype scalar_slot =
    ModelSlot | PromptSlot | ContextPolicySlot | MemoryViewSlot | SandboxSlot | EvalPolicySlot

definition SCALAR_SLOT_NAMES :: "scalar_slot list" where
  "SCALAR_SLOT_NAMES =
     [ModelSlot, PromptSlot, ContextPolicySlot, MemoryViewSlot, SandboxSlot, EvalPolicySlot]"

fun slot_name :: "scalar_slot \<Rightarrow> string" where
  "slot_name ModelSlot = ''model''"
| "slot_name PromptSlot = ''prompt''"
| "slot_name ContextPolicySlot = ''contextPolicy''"
| "slot_name MemoryViewSlot = ''memoryView''"
| "slot_name SandboxSlot = ''sandbox''"
| "slot_name EvalPolicySlot = ''evalPolicy''"

fun bundle_slot :: "scalar_slot \<Rightarrow> agent_bundle \<Rightarrow> structure_ref option" where
  "bundle_slot ModelSlot b = bd_model b"
| "bundle_slot PromptSlot b = bd_prompt b"
| "bundle_slot ContextPolicySlot b = bd_contextPolicy b"
| "bundle_slot MemoryViewSlot b = bd_memoryView b"
| "bundle_slot SandboxSlot b = bd_sandbox b"
| "bundle_slot EvalPolicySlot b = bd_evalPolicy b"

definition bundle_ok :: "agent_bundle \<Rightarrow> bool" where
  "bundle_ok b \<longleftrightarrow> min1 (bd_id b) \<and> min1 (bd_version b) \<and> bd_profile b = BEE_PROFILE_ID \<and>
     list_all (\<lambda>s. opt_ok structure_ref_ok (bundle_slot s b)) SCALAR_SLOT_NAMES \<and>
     list_all structure_ref_ok (bd_skills b) \<and> list_all structure_ref_ok (bd_tools b) \<and>
     list_all bundle_plugin_ok (bd_plugins b) \<and> list_all min1 (bd_permissions b) \<and>
     list_all (\<lambda>(name, v). min1 name) (bd_budgets b) \<and> list_all structure_ref_ok (bd_includes b)"

definition source_of :: "agent_bundle \<Rightarrow> bundle_source" where
  "source_of b = \<lparr>bs_bundleId = bd_id b, bs_bundleVersion = bd_version b\<rparr>"

section \<open>The effective structure\<close>

record effective_slot =
  es_ref :: structure_ref
  es_source :: bundle_source

record effective_plugin = bundle_plugin +
  ep_source :: bundle_source

text \<open>The structure without its digest, and with it.\<close>

record structure_body =
  ef_profileId :: string
  ef_bundles :: "bundle_source list"
  ef_model :: effective_slot
  ef_prompt :: effective_slot
  ef_contextPolicy :: effective_slot
  ef_memoryView :: effective_slot
  ef_sandbox :: effective_slot
  ef_evalPolicy :: effective_slot
  ef_skills :: "effective_slot list"
  ef_tools :: "effective_slot list"
  ef_plugins :: "effective_plugin list"
  ef_permissions :: "(string \<times> bundle_source) list"
  ef_budgets :: "(string \<times> budget_value \<times> bundle_source) list"

record effective_structure = structure_body +
  ef_digest :: string

fun structure_slot :: "scalar_slot \<Rightarrow> 'a structure_body_scheme \<Rightarrow> effective_slot" where
  "structure_slot ModelSlot s = ef_model s"
| "structure_slot PromptSlot s = ef_prompt s"
| "structure_slot ContextPolicySlot s = ef_contextPolicy s"
| "structure_slot MemoryViewSlot s = ef_memoryView s"
| "structure_slot SandboxSlot s = ef_sandbox s"
| "structure_slot EvalPolicySlot s = ef_evalPolicy s"

definition effective_slot_ok :: "effective_slot \<Rightarrow> bool" where
  "effective_slot_ok s \<longleftrightarrow> structure_ref_ok (es_ref s) \<and> bundle_source_ok (es_source s)"

definition effective_structure_ok :: "effective_structure \<Rightarrow> bool" where
  "effective_structure_ok s \<longleftrightarrow> ef_profileId s = BEE_PROFILE_ID \<and>
     list_all bundle_source_ok (ef_bundles s) \<and>
     list_all (\<lambda>n. effective_slot_ok (structure_slot n s)) SCALAR_SLOT_NAMES \<and>
     list_all effective_slot_ok (ef_skills s) \<and> list_all effective_slot_ok (ef_tools s) \<and>
     list_all (\<lambda>p. bundle_plugin_ok p \<and> bundle_source_ok (ep_source p)) (ef_plugins s) \<and>
     list_all (\<lambda>(name, src). min1 name \<and> bundle_source_ok src) (ef_permissions s) \<and>
     list_all (\<lambda>(name, v, src). min1 name \<and> bundle_source_ok src) (ef_budgets s) \<and>
     sha256_digest (ef_digest s)"

record structure_version =
  sv_profileId :: string
  sv_digest :: string

definition structureVersionOf :: "effective_structure \<Rightarrow> structure_version" where
  "structureVersionOf s = \<lparr>sv_profileId = ef_profileId s, sv_digest = ef_digest s\<rparr>"

section \<open>The digest\<close>

definition ref_json :: "structure_ref \<Rightarrow> json" where
  "ref_json r = JObj [(''id'', JStr (sr_id r)), (''version'', JStr (sr_version r))]"

definition source_json :: "bundle_source \<Rightarrow> json" where
  "source_json s = JObj [(''bundleId'', JStr (bs_bundleId s)), (''bundleVersion'', JStr (bs_bundleVersion s))]"

definition slot_json :: "effective_slot \<Rightarrow> json" where
  "slot_json s = JObj [(''ref'', ref_json (es_ref s)), (''source'', source_json (es_source s))]"

fun budget_json :: "budget_value \<Rightarrow> json" where
  "budget_json (BudgetString s) = JStr s"
| "budget_json (BudgetNumber n) = JNum n"
| "budget_json (BudgetBool b) = JBool b"

text \<open>An absent optional key does not appear in the object.\<close>

definition plugin_json :: "effective_plugin \<Rightarrow> json" where
  "plugin_json p = JObj ([(''id'', JStr (bp_id p)), (''ref'', ref_json (bp_ref p)),
     (''enabled'', JBool (bp_enabled p))] @
     (case bp_config p of None \<Rightarrow> [] | Some c \<Rightarrow> [(''config'', c)]) @
     [(''source'', source_json (ep_source p))])"

definition body_json :: "'a structure_body_scheme \<Rightarrow> json" where
  "body_json s = JObj [(''profileId'', JStr (ef_profileId s)),
     (''bundles'', JArr (map source_json (ef_bundles s))),
     (''model'', slot_json (ef_model s)), (''prompt'', slot_json (ef_prompt s)),
     (''contextPolicy'', slot_json (ef_contextPolicy s)),
     (''memoryView'', slot_json (ef_memoryView s)), (''sandbox'', slot_json (ef_sandbox s)),
     (''evalPolicy'', slot_json (ef_evalPolicy s)),
     (''skills'', JArr (map slot_json (ef_skills s))), (''tools'', JArr (map slot_json (ef_tools s))),
     (''plugins'', JArr (map plugin_json (ef_plugins s))),
     (''permissions'', JArr (map (\<lambda>(name, src). JObj [(''name'', JStr name), (''source'', source_json src)])
        (ef_permissions s))),
     (''budgets'', JArr (map (\<lambda>(name, v, src). JObj [(''name'', JStr name), (''value'', budget_json v),
        (''source'', source_json src)]) (ef_budgets s)))]"

definition computeStructureDigest :: "(string \<Rightarrow> string) \<Rightarrow> 'a structure_body_scheme \<Rightarrow> string" where
  "computeStructureDigest sha256 s = ''sha256:'' @ sha256 (canonicalJson (body_json s))"

datatype structure_error =
    IncludeCycle string
  | NoBundleLoader string string
  | LoaderMismatch string string
  | LoaderFailed structure_ref
  | BundleRejected
  | SlotUnresolved scalar_slot
  | StructureRejected
  | DigestMismatch string

text \<open>Verification of a structure from outside, as the value its schema describes.\<close>

definition verifyEffectiveStructure :: "(string \<Rightarrow> string) \<Rightarrow> effective_structure \<Rightarrow>
    structure_error + effective_structure" where
  "verifyEffectiveStructure sha256 s =
     (if \<not> effective_structure_ok s then Inl StructureRejected
      else let expected = computeStructureDigest sha256 s
        in if ef_digest s \<noteq> expected then Inl (DigestMismatch expected) else Inr s)"

section \<open>The include chain\<close>

definition refKey :: "structure_ref \<Rightarrow> string" where
  "refKey r = sr_id r @ ''@'' @ sr_version r"

definition bundle_key :: "agent_bundle \<Rightarrow> string" where
  "bundle_key b = refKey \<lparr>sr_id = bd_id b, sr_version = bd_version b\<rparr>"

text \<open>Two references may share a key: both parts may contain the separator.\<close>

lemma refKey_collides:
  "refKey \<lparr>sr_id = ''a@b'', sr_version = ''c''\<rparr> = refKey \<lparr>sr_id = ''a'', sr_version = ''b@c''\<rparr>"
  by (simp add: refKey_def)

type_synonym bundle_loader = "structure_ref \<Rightarrow> agent_bundle option"

text \<open>
  The recursive \<open>visit\<close>, threading the chain and the resolved keys; \<open>visiting\<close> is a set that
  each call restores, so it is an argument. Out of fuel the result is \<open>None\<close>.
\<close>

fun visit :: "bundle_loader option \<Rightarrow> nat \<Rightarrow> string list \<Rightarrow> agent_bundle \<Rightarrow> agent_bundle list \<times> string list \<Rightarrow>
    (structure_error + agent_bundle list \<times> string list) option"
  and visit_includes :: "bundle_loader option \<Rightarrow> nat \<Rightarrow> string list \<Rightarrow> string \<Rightarrow> structure_ref list \<Rightarrow>
    agent_bundle list \<times> string list \<Rightarrow> (structure_error + agent_bundle list \<times> string list) option" where
  "visit load 0 visiting b st = None"
| "visit load (Suc n) visiting b (chain, resolved) =
     (let key = bundle_key b
      in if List.member resolved key then Some (Inr (chain, resolved))
         else if List.member visiting key then Some (Inl (IncludeCycle key))
         else case visit_includes load n (key # visiting) key (bd_includes b) (chain, resolved) of
           None \<Rightarrow> None
         | Some (Inl err) \<Rightarrow> Some (Inl err)
         | Some (Inr (chain', resolved')) \<Rightarrow> Some (Inr (chain' @ [b], key # resolved')))"
| "visit_includes load n visiting key [] st = Some (Inr st)"
| "visit_includes load n visiting key (r # rs) (chain, resolved) =
     (let includeKey = refKey r
      in if List.member resolved includeKey then visit_includes load n visiting key rs (chain, resolved)
         else case load of
           None \<Rightarrow> Some (Inl (NoBundleLoader key includeKey))
         | Some loader \<Rightarrow>
             (case loader r of
                None \<Rightarrow> Some (Inl (LoaderFailed r))
              | Some loaded \<Rightarrow>
                  if \<not> bundle_ok loaded then Some (Inl BundleRejected)
                  else if bundle_key loaded \<noteq> includeKey
                  then Some (Inl (LoaderMismatch (bundle_key loaded) includeKey))
                  else case visit load n visiting loaded (chain, resolved) of
                    None \<Rightarrow> None
                  | Some (Inl err) \<Rightarrow> Some (Inl err)
                  | Some (Inr st) \<Rightarrow> visit_includes load n visiting key rs st))"

section \<open>Merging the chain\<close>

record merge_state =
  ms_scalars :: "(scalar_slot, effective_slot) jsmap"
  ms_skills :: "(string, effective_slot) jsmap"
  ms_tools :: "(string, effective_slot) jsmap"
  ms_plugins :: "(string, effective_plugin) jsmap"
  ms_permissions :: "(string, bundle_source) jsmap"
  ms_budgets :: "(string, string \<times> budget_value \<times> bundle_source) jsmap"

definition empty_merge :: merge_state where
  "empty_merge = \<lparr>ms_scalars = [], ms_skills = [], ms_tools = [], ms_plugins = [],
     ms_permissions = [], ms_budgets = []\<rparr>"

definition merge_scalars :: "agent_bundle \<Rightarrow> (scalar_slot, effective_slot) jsmap \<Rightarrow>
    (scalar_slot, effective_slot) jsmap" where
  "merge_scalars b m = fold (\<lambda>name m. case bundle_slot name b of
       None \<Rightarrow> m
     | Some r \<Rightarrow> jsmap_set name \<lparr>es_ref = r, es_source = source_of b\<rparr> m) SCALAR_SLOT_NAMES m"

definition mergeList :: "structure_ref list \<Rightarrow> bundle_source \<Rightarrow> (string, effective_slot) jsmap \<Rightarrow>
    (string, effective_slot) jsmap" where
  "mergeList refs src m = fold (\<lambda>r. jsmap_set (sr_id r) \<lparr>es_ref = r, es_source = src\<rparr>) refs m"

definition merge_bundle :: "agent_bundle \<Rightarrow> merge_state \<Rightarrow> merge_state" where
  "merge_bundle b ms =
     \<lparr>ms_scalars = merge_scalars b (ms_scalars ms),
      ms_skills = mergeList (bd_skills b) (source_of b) (ms_skills ms),
      ms_tools = mergeList (bd_tools b) (source_of b) (ms_tools ms),
      ms_plugins = fold (\<lambda>p. jsmap_set (bp_id p) (bundle_plugin.extend p \<lparr>ep_source = source_of b\<rparr>))
        (bd_plugins b) (ms_plugins ms),
      ms_permissions = fold (\<lambda>name. jsmap_set name (source_of b)) (bd_permissions b) (ms_permissions ms),
      ms_budgets = fold (\<lambda>(name, v). jsmap_set name (name, v, source_of b)) (bd_budgets b)
        (ms_budgets ms)\<rparr>"

text \<open>The first slot, in the order they are picked, that no bundle pinned.\<close>

definition unpinned :: "merge_state \<Rightarrow> scalar_slot option" where
  "unpinned ms = find (\<lambda>n. map_of (ms_scalars ms) n = None) SCALAR_SLOT_NAMES"

definition merged_body :: "agent_bundle list \<Rightarrow> merge_state \<Rightarrow> structure_body" where
  "merged_body chain ms =
     (let slot = (\<lambda>n. the (map_of (ms_scalars ms) n))
      in \<lparr>ef_profileId = BEE_PROFILE_ID, ef_bundles = map source_of chain,
          ef_model = slot ModelSlot, ef_prompt = slot PromptSlot,
          ef_contextPolicy = slot ContextPolicySlot, ef_memoryView = slot MemoryViewSlot,
          ef_sandbox = slot SandboxSlot, ef_evalPolicy = slot EvalPolicySlot,
          ef_skills = jsmap_values (ms_skills ms), ef_tools = jsmap_values (ms_tools ms),
          ef_plugins = jsmap_values (ms_plugins ms),
          ef_permissions = js_sort (\<lambda>a b. code_unit_compare (fst a) (fst b)) (ms_permissions ms),
          ef_budgets = js_sort (\<lambda>a b. code_unit_compare (fst a) (fst b)) (jsmap_values (ms_budgets ms))\<rparr>)"

definition with_digest :: "string \<Rightarrow> structure_body \<Rightarrow> effective_structure" where
  "with_digest d s = structure_body.extend s \<lparr>ef_digest = d\<rparr>"

definition resolveEffectiveStructure :: "(string \<Rightarrow> string) \<Rightarrow> bundle_loader option \<Rightarrow> nat \<Rightarrow> agent_bundle \<Rightarrow>
    (structure_error + effective_structure) option" where
  "resolveEffectiveStructure sha256 load fuel root =
     (if \<not> bundle_ok root then Some (Inl BundleRejected)
      else case visit load fuel [] root ([], []) of
        None \<Rightarrow> None
      | Some (Inl err) \<Rightarrow> Some (Inl err)
      | Some (Inr (chain, resolved)) \<Rightarrow>
          let ms = fold merge_bundle chain empty_merge
          in Some (case unpinned ms of
            Some name \<Rightarrow> Inl (SlotUnresolved name)
          | None \<Rightarrow>
              let body = merged_body chain ms;
                  s = with_digest (computeStructureDigest sha256 body) body
              in if effective_structure_ok s then Inr s else Inl StructureRejected))"

section \<open>Provenance\<close>

record provenance_entry =
  pe_kind :: string
  pe_id :: string
  pe_version :: "string option"
  pe_source :: bundle_source

definition slot_row :: "string \<Rightarrow> effective_slot \<Rightarrow> provenance_entry" where
  "slot_row kind s = \<lparr>pe_kind = kind, pe_id = sr_id (es_ref s), pe_version = Some (sr_version (es_ref s)),
     pe_source = es_source s\<rparr>"

definition traceStructure :: "'a structure_body_scheme \<Rightarrow> provenance_entry list" where
  "traceStructure s =
     map (\<lambda>n. slot_row (slot_name n) (structure_slot n s)) SCALAR_SLOT_NAMES @
     map (slot_row ''skill'') (ef_skills s) @ map (slot_row ''tool'') (ef_tools s) @
     map (\<lambda>p. \<lparr>pe_kind = ''plugin'', pe_id = bp_id p, pe_version = Some (sr_version (bp_ref p)),
       pe_source = ep_source p\<rparr>) (ef_plugins s) @
     map (\<lambda>(name, src). \<lparr>pe_kind = ''permission'', pe_id = name, pe_version = None, pe_source = src\<rparr>)
       (ef_permissions s) @
     map (\<lambda>(name, v, src). \<lparr>pe_kind = ''budget'', pe_id = name, pe_version = None, pe_source = src\<rparr>)
       (ef_budgets s)"

end
