(* ===== verification/StructureTypes.thy ===== *)
theory StructureTypes
  imports Structure
begin

text \<open>
  The events of the structure stream (\<open>packages/knowledge/src/structure-events.ts\<close>): payload
  schemas and event types. The failure event carries the name and message of an error.
\<close>

definition STRUCTURE_STREAM_ID :: string where
  "STRUCTURE_STREAM_ID = ''structure''"

datatype structure_phase = PhasePrepared | PhaseActivated | PhaseUpdated | PhaseDraining | PhaseDisposed

datatype structure_payload =
    SResolvedP string string "bundle_source list" effective_structure
  | SPhaseP structure_phase string string
  | SFailedP string string string string
  | SRestartP string string "string list"

fun phase_event_type :: "structure_phase \<Rightarrow> string" where
  "phase_event_type PhasePrepared = ''structure.prepared''"
| "phase_event_type PhaseActivated = ''structure.activated''"
| "phase_event_type PhaseUpdated = ''structure.updated''"
| "phase_event_type PhaseDraining = ''structure.draining''"
| "phase_event_type PhaseDisposed = ''structure.disposed''"

fun structure_event_type :: "structure_payload \<Rightarrow> string" where
  "structure_event_type (SResolvedP profile digest bundles s) = ''structure.resolved''"
| "structure_event_type (SPhaseP phase g digest) = phase_event_type phase"
| "structure_event_type (SFailedP g digest name msg) = ''structure.activation_failed''"
| "structure_event_type (SRestartP g digest pluginIds) = ''structure.restart_required''"

fun structure_payload_ok :: "zod \<Rightarrow> structure_payload \<Rightarrow> bool" where
  "structure_payload_ok z (SResolvedP profile digest bundles s) \<longleftrightarrow>
     profile = BEE_PROFILE_ID \<and> sha256_digest digest \<and> list_all bundle_source_ok bundles \<and> effective_structure_ok s"
| "structure_payload_ok z (SPhaseP phase g digest) \<longleftrightarrow> z_uuid z g \<and> sha256_digest digest"
| "structure_payload_ok z (SFailedP g digest name msg) \<longleftrightarrow> z_uuid z g \<and> sha256_digest digest \<and> min1 name"
| "structure_payload_ok z (SRestartP g digest pluginIds) \<longleftrightarrow> z_uuid z g \<and> sha256_digest digest \<and>
     pluginIds \<noteq> [] \<and> list_all min1 pluginIds"

definition PHASE_EVENT_TYPES :: "string list" where
  "PHASE_EVENT_TYPES = [''structure.prepared'', ''structure.activated'', ''structure.updated'',
     ''structure.draining'', ''structure.disposed'']"

definition STRUCTURE_EVENT_TYPES :: "string list" where
  "STRUCTURE_EVENT_TYPES = ''structure.resolved'' # PHASE_EVENT_TYPES @
     [''structure.activation_failed'', ''structure.restart_required'']"

text \<open>One schema for the five phases: the registry does not tie the phase to the event type.\<close>

definition structure_type_ok :: "string \<Rightarrow> structure_payload \<Rightarrow> bool" where
  "structure_type_ok et p = (case p of
     SPhaseP phase g digest \<Rightarrow> List.member PHASE_EVENT_TYPES et
   | _ \<Rightarrow> structure_event_type p = et)"

lemma structure_type_self [simp]: "structure_type_ok (structure_event_type p) p"
  by (cases p) (auto simp: structure_type_ok_def PHASE_EVENT_TYPES_def elim: phase_event_type.elims
      split: structure_payload.split, metis (full_types) phase_event_type.simps structure_phase.exhaust)

lemma structure_event_type_listed [simp]: "structure_event_type p \<in> set STRUCTURE_EVENT_TYPES"
proof (cases p)
  case (SPhaseP phase g digest)
  then show ?thesis by (cases phase) (simp_all add: STRUCTURE_EVENT_TYPES_def PHASE_EVENT_TYPES_def)
qed (simp_all add: STRUCTURE_EVENT_TYPES_def)

end
