(* ===== verification/HostEvents.thy ===== *)
theory HostEvents
  imports KanbanTypes ThreadTypes SchedulerTypes ExecutionTypes WorldTypes StructureTypes
begin

text \<open>
  The payloads the Host's one Chronicle carries, as a sum over the components that write
  to it, and the registry the Host builds at start-up (\<open>apps/bee/src/main.ts\<close>,
  \<open>packages/runtime/src/chronicle-events.ts\<close>) from the \<open>register...ChronicleEvents\<close> function
  of each component. The payloads of the components outside the model are \<open>OtherP\<close>.
\<close>

datatype payload =
    TaskP kanban_payload
  | ThreadP thread_payload
  | SchedulerP scheduler_payload
  | ExecutionP execution_payload
  | WorldP world_payload
  | SkillP skill_payload
  | GrantP grant_payload
  | StructureP structure_payload
  | OtherP json

section \<open>Stream ids\<close>

definition kanbanStreamId :: "string \<Rightarrow> string" where
  "kanbanStreamId taskId = ''kanban:'' @ taskId"

definition threadStreamId :: "string \<Rightarrow> string" where
  "threadStreamId threadId = ''thread:'' @ threadId"

lemma stream_ids_distinct [simp]:
  "kanbanStreamId a \<noteq> threadStreamId b" "threadStreamId b \<noteq> kanbanStreamId a"
  "kanbanStreamId a \<noteq> SCHEDULER_STREAM_ID" "SCHEDULER_STREAM_ID \<noteq> kanbanStreamId a"
  "threadStreamId a \<noteq> SCHEDULER_STREAM_ID" "SCHEDULER_STREAM_ID \<noteq> threadStreamId a"
  by (simp_all add: kanbanStreamId_def threadStreamId_def SCHEDULER_STREAM_ID_def)

lemma kanbanStreamId_inject [simp]: "kanbanStreamId a = kanbanStreamId b \<longleftrightarrow> a = b"
  by (simp add: kanbanStreamId_def)

lemma threadStreamId_inject [simp]: "threadStreamId a = threadStreamId b \<longleftrightarrow> a = b"
  by (simp add: threadStreamId_def)

lemma stream_ids_nonempty [simp]:
  "kanbanStreamId a \<noteq> []" "threadStreamId a \<noteq> []" "SCHEDULER_STREAM_ID \<noteq> []"
  by (simp_all add: kanbanStreamId_def threadStreamId_def SCHEDULER_STREAM_ID_def)

text \<open>\<open>kanbanTaskIdFromStream\<close>: an id outside \<open>kanban:\<close> or one that is no uuid fails.\<close>

definition kanbanTaskIdFromStream :: "zod \<Rightarrow> string \<Rightarrow> string option" where
  "kanbanTaskIdFromStream z sid =
     (if \<not> starts_with ''kanban:'' sid then None
      else let t = drop (length ''kanban:'') sid in if z_uuid z t then Some t else None)"

lemma task_id_roundtrip: "z_uuid z t \<Longrightarrow> kanbanTaskIdFromStream z (kanbanStreamId t) = Some t"
  by (simp add: kanbanTaskIdFromStream_def kanbanStreamId_def Let_def starts_with_def)

section \<open>Payload schemas\<close>

definition task_schema :: "zod \<Rightarrow> kanban_event_kind \<Rightarrow> payload \<Rightarrow> bool" where
  "task_schema z k p = (case p of TaskP q \<Rightarrow> kanban_payload_ok z k q | _ \<Rightarrow> False)"

definition thread_schema :: "zod \<Rightarrow> thread_event_kind \<Rightarrow> payload \<Rightarrow> bool" where
  "thread_schema z k p = (case p of ThreadP t \<Rightarrow> thread_payload_ok z k t | _ \<Rightarrow> False)"

definition scheduler_schema :: "zod \<Rightarrow> string \<Rightarrow> payload \<Rightarrow> bool" where
  "scheduler_schema z et p =
     (case p of SchedulerP s \<Rightarrow> scheduler_event_type s = et \<and> scheduler_payload_ok z s | _ \<Rightarrow> False)"

definition execution_schema :: "zod \<Rightarrow> string \<Rightarrow> payload \<Rightarrow> bool" where
  "execution_schema z et p =
     (case p of ExecutionP x \<Rightarrow> execution_event_type x = et \<and> execution_payload_ok z x | _ \<Rightarrow> False)"

definition world_schema :: "zod \<Rightarrow> string \<Rightarrow> payload \<Rightarrow> bool" where
  "world_schema z et p =
     (case p of WorldP w \<Rightarrow> world_event_type w = et \<and> world_payload_ok z w | _ \<Rightarrow> False)"

definition skill_schema :: "zod \<Rightarrow> string \<Rightarrow> payload \<Rightarrow> bool" where
  "skill_schema z et p =
     (case p of SkillP k \<Rightarrow> skill_event_type k = et \<and> skill_payload_ok z k | _ \<Rightarrow> False)"

definition structure_schema :: "zod \<Rightarrow> string \<Rightarrow> payload \<Rightarrow> bool" where
  "structure_schema z et p =
     (case p of StructureP s \<Rightarrow> structure_type_ok et s \<and> structure_payload_ok z s | _ \<Rightarrow> False)"

definition grant_schema :: "zod \<Rightarrow> string \<Rightarrow> payload \<Rightarrow> bool" where
  "grant_schema z et p =
     (case p of GrantP g \<Rightarrow> grant_event_type g = et \<and> grant_payload_ok z g | _ \<Rightarrow> False)"

definition KANBAN_EVENT_KINDS :: "kanban_event_kind list" where
  "KANBAN_EVENT_KINDS =
     [TaskCreated, TaskStatusChanged, TaskLeaseRenewed, TaskUpdated, TaskCommented]"

definition KANBAN_TASK_EVENT_TYPES :: "string list" where
  "KANBAN_TASK_EVENT_TYPES = map kanban_event_name KANBAN_EVENT_KINDS"

definition SCHEDULER_EVENT_TYPES :: "string list" where
  "SCHEDULER_EVENT_TYPES = [''scheduler.trigger.registered'', ''scheduler.trigger.triggered'',
     ''scheduler.trigger.removed'']"

fun thread_event_name :: "thread_event_kind \<Rightarrow> string" where
  "thread_event_name ThreadCreated = ''thread.created''"
| "thread_event_name ThreadRenamed = ''thread.renamed''"
| "thread_event_name TurnStarted = ''turn.started''"
| "thread_event_name TurnCompleted = ''turn.completed''"
| "thread_event_name TurnFailed = ''turn.failed''"
| "thread_event_name TurnCancelled = ''turn.cancelled''"
| "thread_event_name ItemStarted = ''item.started''"
| "thread_event_name ItemDelta = ''item.delta''"
| "thread_event_name ItemCompleted = ''item.completed''"
| "thread_event_name ItemFailed = ''item.failed''"
| "thread_event_name AgentCheckpoint = ''agent.checkpoint''"
| "thread_event_name AgentRecoveryFailed = ''agent.recovery_failed''"
| "thread_event_name ContextCompacted = ''context.compacted''"

definition THREAD_EVENT_KINDS :: "thread_event_kind list" where
  "THREAD_EVENT_KINDS = [ThreadCreated, ThreadRenamed, TurnStarted, TurnCompleted, TurnFailed,
     TurnCancelled, ItemStarted, ItemDelta, ItemCompleted, ItemFailed, AgentCheckpoint,
     AgentRecoveryFailed, ContextCompacted]"

definition THREAD_EVENT_TYPES :: "string list" where
  "THREAD_EVENT_TYPES = map thread_event_name THREAD_EVENT_KINDS"

lemma all_event_kinds: "k \<in> set THREAD_EVENT_KINDS"
  by (cases k) (simp_all add: THREAD_EVENT_KINDS_def)

lemma all_task_kinds: "k \<in> set KANBAN_EVENT_KINDS"
  by (cases k) (simp_all add: KANBAN_EVENT_KINDS_def)

section \<open>Registration\<close>

text \<open>Registers a list of types; the first that is present already aborts the loop.\<close>

fun register_all :: "(string \<times> (payload \<Rightarrow> bool)) list \<Rightarrow> payload registry \<Rightarrow>
    chronicle_error + payload registry" where
  "register_all [] r = Inr r"
| "register_all ((et, p) # rest) r =
     (case register et p None r of Inl err \<Rightarrow> Inl err | Inr r' \<Rightarrow> register_all rest r')"

definition schema_entry :: "string \<times> (payload \<Rightarrow> bool) \<Rightarrow> string \<times> payload type_registration" where
  "schema_entry x = (fst x, \<lparr>reg_eventType = fst x, reg_payload = snd x, reg_ignorable = False\<rparr>)"

lemma fst_schema_entry [simp]: "fst (schema_entry x) = fst x"
  by (simp add: schema_entry_def)

lemma register_all_fresh:
  "distinct (map fst ps) \<Longrightarrow> list_all (\<lambda>x. fst x \<notin> fst ` set r) ps \<Longrightarrow>
   register_all ps r = Inr (r @ map schema_entry ps)"
proof (induction ps arbitrary: r)
  case (Cons x ps)
  obtain et p where x: "x = (et, p)" by fastforce
  have "map_of r et = None" using Cons.prems(2) x by (auto simp: map_of_eq_None_iff)
  then have "register et p None r = Inr (r @ [schema_entry x])"
    by (simp add: register_def x schema_entry_def jsmap_set_new)
  moreover have "fst y \<notin> fst ` set (r @ [schema_entry x])" if "y \<in> set ps" for y
  proof -
    have "fst y \<in> fst ` set ps" using that by (rule imageI)
    moreover have "fst x \<notin> fst ` set ps" using Cons.prems(1) by simp
    ultimately have "fst y \<noteq> fst x" by metis
    with Cons.prems(2) that show ?thesis by (auto simp: list_all_iff)
  qed
  then have "register_all ps (r @ [schema_entry x]) = Inr ((r @ [schema_entry x]) @ map schema_entry ps)"
    using Cons.prems(1) by (intro Cons.IH) (simp_all add: list_all_iff)
  ultimately show ?case by (simp only: x register_all.simps sum.case list.map append_assoc append.simps)
qed simp

definition registerKanbanChronicleEvents :: "zod \<Rightarrow> payload registry \<Rightarrow>
    chronicle_error + payload registry" where
  "registerKanbanChronicleEvents z =
     register_all (map (\<lambda>k. (kanban_event_name k, task_schema z k)) KANBAN_EVENT_KINDS)"

definition registerThreadChronicleEvents :: "zod \<Rightarrow> payload registry \<Rightarrow>
    chronicle_error + payload registry" where
  "registerThreadChronicleEvents z =
     register_all (map (\<lambda>k. (thread_event_name k, thread_schema z k)) THREAD_EVENT_KINDS)"

definition registerSchedulerChronicleEvents :: "zod \<Rightarrow> payload registry \<Rightarrow>
    chronicle_error + payload registry" where
  "registerSchedulerChronicleEvents z =
     register_all (map (\<lambda>et. (et, scheduler_schema z et)) SCHEDULER_EVENT_TYPES)"

definition registerExecutionChronicleEvents :: "zod \<Rightarrow> payload registry \<Rightarrow>
    chronicle_error + payload registry" where
  "registerExecutionChronicleEvents z =
     register_all (map (\<lambda>et. (et, execution_schema z et)) EXECUTION_EVENT_TYPES)"

definition registerWorldChronicleEvents :: "zod \<Rightarrow> payload registry \<Rightarrow>
    chronicle_error + payload registry" where
  "registerWorldChronicleEvents z =
     register_all (map (\<lambda>et. (et, world_schema z et)) WORLD_EVENT_TYPES)"

definition registerSkillChronicleEvents :: "zod \<Rightarrow> payload registry \<Rightarrow>
    chronicle_error + payload registry" where
  "registerSkillChronicleEvents z =
     register_all (map (\<lambda>et. (et, skill_schema z et)) SKILL_EVENT_TYPES)"

definition registerStructureChronicleEvents :: "zod \<Rightarrow> payload registry \<Rightarrow>
    chronicle_error + payload registry" where
  "registerStructureChronicleEvents z =
     register_all (map (\<lambda>et. (et, structure_schema z et)) STRUCTURE_EVENT_TYPES)"

text \<open>Exported, but called nowhere at start-up.\<close>

definition registerGrantChronicleEvents :: "zod \<Rightarrow> payload registry \<Rightarrow>
    chronicle_error + payload registry" where
  "registerGrantChronicleEvents z =
     register_all (map (\<lambda>et. (et, grant_schema z et)) GRANT_EVENT_TYPES)"

text \<open>The runtime's events, each group unless it is there already (model requests are left out).\<close>

definition unless_registered :: "string \<Rightarrow> (payload registry \<Rightarrow> chronicle_error + payload registry) \<Rightarrow>
    payload registry \<Rightarrow> chronicle_error + payload registry" where
  "unless_registered et f r = (if registry_has r et then Inr r else f r)"

definition registerRuntimeChronicleEvents :: "zod \<Rightarrow> payload registry \<Rightarrow>
    chronicle_error + payload registry" where
  "registerRuntimeChronicleEvents z r =
     (case unless_registered ''execution.requested'' (registerExecutionChronicleEvents z) r of
        Inl err \<Rightarrow> Inl err
      | Inr r' \<Rightarrow> unless_registered ''scheduler.trigger.registered'' (registerSchedulerChronicleEvents z) r')"

fun register_each :: "(payload registry \<Rightarrow> chronicle_error + payload registry) list \<Rightarrow>
    payload registry \<Rightarrow> chronicle_error + payload registry" where
  "register_each [] r = Inr r"
| "register_each (f # fs) r = (case f r of Inl err \<Rightarrow> Inl err | Inr r' \<Rightarrow> register_each fs r')"

definition host_schemas :: "zod \<Rightarrow> (string \<times> (payload \<Rightarrow> bool)) list" where
  "host_schemas z =
     map (\<lambda>et. (et, skill_schema z et)) SKILL_EVENT_TYPES @
     map (\<lambda>et. (et, structure_schema z et)) STRUCTURE_EVENT_TYPES @
     map (\<lambda>k. (thread_event_name k, thread_schema z k)) THREAD_EVENT_KINDS @
     map (\<lambda>et. (et, execution_schema z et)) EXECUTION_EVENT_TYPES @
     map (\<lambda>et. (et, scheduler_schema z et)) SCHEDULER_EVENT_TYPES @
     map (\<lambda>k. (kanban_event_name k, task_schema z k)) KANBAN_EVENT_KINDS @
     map (\<lambda>et. (et, world_schema z et)) WORLD_EVENT_TYPES"

text \<open>The registry the Host starts with, in the order of its calls.\<close>

definition host_registry :: "zod \<Rightarrow> payload registry" where
  "host_registry z = map schema_entry (host_schemas z)"

definition HOST_EVENT_TYPES :: "string list" where
  "HOST_EVENT_TYPES = SKILL_EVENT_TYPES @ STRUCTURE_EVENT_TYPES @ THREAD_EVENT_TYPES @ EXECUTION_EVENT_TYPES @
     SCHEDULER_EVENT_TYPES @ KANBAN_TASK_EVENT_TYPES @ WORLD_EVENT_TYPES"

lemma host_types_distinct: "distinct HOST_EVENT_TYPES"
  by code_simp

lemma host_schemas_types: "map fst (host_schemas z) = HOST_EVENT_TYPES"
  by (simp add: host_schemas_def HOST_EVENT_TYPES_def THREAD_EVENT_TYPES_def
      KANBAN_TASK_EVENT_TYPES_def o_def)

lemma host_schemas_distinct: "distinct (map fst (host_schemas z))"
  by (simp only: host_schemas_types host_types_distinct)

lemma register_all_next:
  assumes "distinct (map fst (qs @ ps @ rs))"
  shows "register_all ps (map schema_entry qs) = Inr (map schema_entry (qs @ ps))"
proof -
  have "list_all (\<lambda>x. fst x \<notin> fst ` set (map schema_entry qs)) ps"
    using assms by (auto simp: list_all_iff image_image)
  with assms show ?thesis by (simp add: register_all_fresh del: register_all.simps)
qed

lemma not_registered:
  assumes "distinct (map fst (qs @ ps))" and "et \<in> fst ` set ps"
  shows "\<not> registry_has (map schema_entry qs) et"
  using assms by (auto simp: registry_has_def map_of_eq_None_iff image_image dest!: map_of_SomeD)

lemma host_registered:
  assumes "(et, p) \<in> set (host_schemas z)"
  shows "map_of (host_registry z) et = Some \<lparr>reg_eventType = et, reg_payload = p, reg_ignorable = False\<rparr>"
proof (rule map_of_is_SomeI)
  show "distinct (map fst (host_registry z))"
    using host_schemas_distinct [of z] by (simp add: host_registry_def o_def)
  show "(et, \<lparr>reg_eventType = et, reg_payload = p, reg_ignorable = False\<rparr>) \<in> set (host_registry z)"
    using assms by (force simp: host_registry_def schema_entry_def)
qed

lemma host_registry_built:
  "register_each [registerSkillChronicleEvents z, registerStructureChronicleEvents z,
     registerThreadChronicleEvents z, registerRuntimeChronicleEvents z, registerKanbanChronicleEvents z,
     registerWorldChronicleEvents z] [] = Inr (host_registry z)"
proof -
  let ?s = "map (\<lambda>et. (et, skill_schema z et)) SKILL_EVENT_TYPES"
    and ?u = "map (\<lambda>et. (et, structure_schema z et)) STRUCTURE_EVENT_TYPES"
    and ?t = "map (\<lambda>k. (thread_event_name k, thread_schema z k)) THREAD_EVENT_KINDS"
    and ?x = "map (\<lambda>et. (et, execution_schema z et)) EXECUTION_EVENT_TYPES"
    and ?c = "map (\<lambda>et. (et, scheduler_schema z et)) SCHEDULER_EVENT_TYPES"
    and ?k = "map (\<lambda>k. (kanban_event_name k, task_schema z k)) KANBAN_EVENT_KINDS"
    and ?w = "map (\<lambda>et. (et, world_schema z et)) WORLD_EVENT_TYPES"
  note d = host_schemas_distinct [of z, unfolded host_schemas_def]
  have r1: "registerSkillChronicleEvents z [] = Inr (map schema_entry ?s)"
    using register_all_next [of "[]" ?s "?u @ ?t @ ?x @ ?c @ ?k @ ?w"] d
    by (simp only: registerSkillChronicleEvents_def append_Nil list.map)
  have r2: "registerStructureChronicleEvents z (map schema_entry ?s) = Inr (map schema_entry (?s @ ?u))"
    using register_all_next [of ?s ?u "?t @ ?x @ ?c @ ?k @ ?w"] d
    by (simp only: registerStructureChronicleEvents_def)
  have r3: "registerThreadChronicleEvents z (map schema_entry (?s @ ?u)) = Inr (map schema_entry ((?s @ ?u) @ ?t))"
    using register_all_next [of "?s @ ?u" ?t "?x @ ?c @ ?k @ ?w"] d
    by (simp only: registerThreadChronicleEvents_def append_assoc)
  have x: "\<not> registry_has (map schema_entry ((?s @ ?u) @ ?t)) ''execution.requested''"
    using d by (intro not_registered [of _ "?x @ ?c @ ?k @ ?w"]) (simp_all add: EXECUTION_EVENT_TYPES_def)
  have r4: "registerExecutionChronicleEvents z (map schema_entry ((?s @ ?u) @ ?t)) =
      Inr (map schema_entry ((?s @ ?u @ ?t) @ ?x))"
    using register_all_next [of "?s @ ?u @ ?t" ?x "?c @ ?k @ ?w"] d
    by (simp only: registerExecutionChronicleEvents_def append_assoc)
  have c: "\<not> registry_has (map schema_entry ((?s @ ?u @ ?t) @ ?x)) ''scheduler.trigger.registered''"
    using d by (intro not_registered [of _ "?c @ ?k @ ?w"]) (simp_all add: SCHEDULER_EVENT_TYPES_def)
  have r5: "registerSchedulerChronicleEvents z (map schema_entry ((?s @ ?u @ ?t) @ ?x)) =
      Inr (map schema_entry ((?s @ ?u @ ?t @ ?x) @ ?c))"
    using register_all_next [of "?s @ ?u @ ?t @ ?x" ?c "?k @ ?w"] d
    by (simp only: registerSchedulerChronicleEvents_def append_assoc)
  have r6: "registerKanbanChronicleEvents z (map schema_entry ((?s @ ?u @ ?t @ ?x) @ ?c)) =
      Inr (map schema_entry ((?s @ ?u @ ?t @ ?x @ ?c) @ ?k))"
    using register_all_next [of "?s @ ?u @ ?t @ ?x @ ?c" ?k ?w] d
    by (simp only: registerKanbanChronicleEvents_def append_assoc)
  have r7: "registerWorldChronicleEvents z (map schema_entry ((?s @ ?u @ ?t @ ?x @ ?c) @ ?k)) = Inr (host_registry z)"
    using register_all_next [of "?s @ ?u @ ?t @ ?x @ ?c @ ?k" ?w "[]"] d
    by (simp only: registerWorldChronicleEvents_def append_assoc append_Nil2 host_registry_def host_schemas_def)
  have r45: "registerRuntimeChronicleEvents z (map schema_entry ((?s @ ?u) @ ?t)) =
      Inr (map schema_entry ((?s @ ?u @ ?t @ ?x) @ ?c))"
    using x c r4 r5 by (simp only: registerRuntimeChronicleEvents_def unless_registered_def if_False sum.case)
  show ?thesis by (simp only: register_each.simps r1 r2 r3 r45 r6 r7 sum.case)
qed

lemma host_registry_task:
  "map_of (host_registry z) (kanban_event_name k) =
     Some \<lparr>reg_eventType = kanban_event_name k, reg_payload = task_schema z k, reg_ignorable = False\<rparr>"
  by (rule host_registered) (use all_task_kinds in \<open>auto simp: host_schemas_def\<close>)

lemma host_registry_thread:
  "map_of (host_registry z) (thread_event_name k) =
     Some \<lparr>reg_eventType = thread_event_name k, reg_payload = thread_schema z k, reg_ignorable = False\<rparr>"
  by (rule host_registered) (use all_event_kinds in \<open>auto simp: host_schemas_def\<close>)

lemma host_registry_scheduler:
  "et \<in> set SCHEDULER_EVENT_TYPES \<Longrightarrow>
   map_of (host_registry z) et =
     Some \<lparr>reg_eventType = et, reg_payload = scheduler_schema z et, reg_ignorable = False\<rparr>"
  by (rule host_registered) (simp add: host_schemas_def image_iff)

lemma host_registry_execution:
  "et \<in> set EXECUTION_EVENT_TYPES \<Longrightarrow>
   map_of (host_registry z) et =
     Some \<lparr>reg_eventType = et, reg_payload = execution_schema z et, reg_ignorable = False\<rparr>"
  by (rule host_registered) (simp add: host_schemas_def image_iff)

lemma host_registry_world:
  "et \<in> set WORLD_EVENT_TYPES \<Longrightarrow>
   map_of (host_registry z) et =
     Some \<lparr>reg_eventType = et, reg_payload = world_schema z et, reg_ignorable = False\<rparr>"
  by (rule host_registered) (simp add: host_schemas_def image_iff)

lemma host_registry_skill:
  "et \<in> set SKILL_EVENT_TYPES \<Longrightarrow>
   map_of (host_registry z) et =
     Some \<lparr>reg_eventType = et, reg_payload = skill_schema z et, reg_ignorable = False\<rparr>"
  by (rule host_registered) (simp add: host_schemas_def image_iff)

lemma host_registry_structure:
  "et \<in> set STRUCTURE_EVENT_TYPES \<Longrightarrow>
   map_of (host_registry z) et =
     Some \<lparr>reg_eventType = et, reg_payload = structure_schema z et, reg_ignorable = False\<rparr>"
  by (rule host_registered) (simp add: host_schemas_def image_iff)

lemma grant_types_missing: "list_all (\<lambda>et. \<not> List.member HOST_EVENT_TYPES et) GRANT_EVENT_TYPES"
  by code_simp

lemma host_registry_grant:
  "et \<in> set GRANT_EVENT_TYPES \<Longrightarrow> map_of (host_registry z) et = None"
proof -
  assume "et \<in> set GRANT_EVENT_TYPES"
  then have "et \<notin> set HOST_EVENT_TYPES" using grant_types_missing by (auto simp: list_all_iff)
  moreover have "map fst (host_registry z) = HOST_EVENT_TYPES"
    using host_schemas_types [of z] by (simp add: host_registry_def o_def)
  ultimately show ?thesis by (simp add: map_of_eq_None_iff flip: set_map)
qed

lemma scheduler_event_type_listed [simp]: "scheduler_event_type k \<in> set SCHEDULER_EVENT_TYPES"
  by (cases k) (simp_all add: SCHEDULER_EVENT_TYPES_def)

end
