(* ===== verification/ChronicleMemory.thy ===== *)
theory ChronicleMemory
  imports Chronicle
begin

text \<open>
  \<open>MemoryChronicleStore\<close> (\<open>packages/knowledge/src/testing.ts\<close>): the streams as a
  \<open>Map\<close> from stream id to the array of stored events. The interpretation at the end
  shows that it implements the store contract.
\<close>

record 'p mem_store =
  ms_registry :: "'p registry"
  ms_streams :: "(string, 'p chronicle_event list) jsmap"

definition mem_new :: "'p registry \<Rightarrow> 'p mem_store" where
  "mem_new r = \<lparr>ms_registry = r, ms_streams = []\<rparr>"

definition mem_append :: "zod \<Rightarrow> string \<Rightarrow> string \<Rightarrow> 'p new_event list \<Rightarrow> int \<Rightarrow> 'p mem_store \<Rightarrow>
    'p mem_store \<times> (chronicle_error + 'p chronicle_event list)" where
  "mem_append z now sid evs expected st =
     (if evs = [] then (st, Inr [])
      else case validate_all z (ms_registry st) evs of
        Inl err \<Rightarrow> (st, Inl err)
      | Inr _ \<Rightarrow>
        let stream = coalesce (map_of (ms_streams st) sid) [];
            nextSequence = int (length stream) + 1
        in if expected < 1 then (st, Inl (ChronicleSequenceConflict sid expected nextSequence))
           else if expected \<noteq> nextSequence then
             let start = expected - 1;
                 existing = js_slice start (start + int (length evs)) stream;
                 idempotent = (length existing = length evs \<and>
                   list_all2 (\<lambda>stored ev. ev_id stored = ev_id ev) existing evs)
             in if \<not> idempotent
                then (st, Inl (ChronicleSequenceConflict sid expected nextSequence))
                else (st, Inr existing)
           else
             let stored = stamp sid now nextSequence evs
             in (st\<lparr>ms_streams := jsmap_set sid (stream @ stored) (ms_streams st)\<rparr>, Inr stored))"

definition mem_readStream :: "string \<Rightarrow> int \<Rightarrow> 'p mem_store \<Rightarrow>
    'p chronicle_event list \<times> chronicle_error option" where
  "mem_readStream sid after st =
     (case map_of (ms_streams st) sid of
        None \<Rightarrow> ([], None)
      | Some stream \<Rightarrow> (filter (\<lambda>e. after < ev_sequence e) stream, None))"

definition mem_getLatestSequence :: "string \<Rightarrow> 'p mem_store \<Rightarrow> int" where
  "mem_getLatestSequence sid st = int (length (coalesce (map_of (ms_streams st) sid) []))"

definition mem_listStreams :: "'p mem_store \<Rightarrow> string list" where
  "mem_listStreams st = jsmap_keys (ms_streams st)"

definition mem_close :: "'p mem_store \<Rightarrow> 'p mem_store" where
  "mem_close st = st\<lparr>ms_streams := []\<rparr>"

definition mem_ops :: "zod \<Rightarrow> ('p mem_store, 'p) chronicle_ops" where
  "mem_ops z = \<lparr>op_append = mem_append z, op_read = mem_readStream,
     op_latest = mem_getLatestSequence, op_streams = mem_listStreams\<rparr>"

lemma mem_ops_sel [simp]:
  "op_append (mem_ops z) = mem_append z"
  "op_read (mem_ops z) = mem_readStream"
  "op_latest (mem_ops z) = mem_getLatestSequence"
  "op_streams (mem_ops z) = mem_listStreams"
  by (simp_all add: mem_ops_def)

section \<open>The memory store implements the contract\<close>

definition mem_view :: "'p mem_store \<Rightarrow> 'p streams" where
  "mem_view st sid = coalesce (map_of (ms_streams st) sid) []"

definition mem_inv :: "zod \<Rightarrow> 'p registry \<Rightarrow> 'p mem_store \<Rightarrow> bool" where
  "mem_inv z r st \<longleftrightarrow> ms_registry st = r \<and> jsmap_wf (ms_streams st) \<and>
     (\<forall>(sid, es) \<in> set (ms_streams st). es \<noteq> [] \<and> stream_ok z r sid es)"

lemma mem_new_inv [simp]: "mem_inv z r (mem_new r)"
  by (simp add: mem_inv_def mem_new_def)

lemma mem_new_view [simp]: "mem_view (mem_new r) sid = []"
  by (simp add: mem_view_def mem_new_def)

lemma mem_view_ok: "mem_inv z r st \<Longrightarrow> stream_ok z r sid (mem_view st sid)"
  by (cases "map_of (ms_streams st) sid")
     (auto simp: mem_inv_def mem_view_def dest: map_of_SomeD)

lemma existing_ids:
  "length xs = length es \<and> list_all2 (\<lambda>s e. ev_id s = ev_id e) xs es \<longleftrightarrow> map ev_id xs = map ev_id es"
  for xs :: "'p chronicle_event list" and es :: "'p new_event list"
  by (induction xs es rule: list_induct2') auto

lemma mem_append_spec:
  assumes "mem_inv z r st" and "mem_append z now sid evs ex st = (st', res)"
  shows "spec_append z r now sid evs ex (mem_view st) = (mem_view st', res)"
proof -
  have r: "ms_registry st = r" using assms(1) by (simp add: mem_inv_def)
  have slice: "js_slice (ex - 1) (ex - 1 + int (length evs)) (mem_view st sid) =
      take (length evs) (drop (nat (ex - 1)) (mem_view st sid))" if "1 \<le> ex"
    using that by (subst js_slice_nonneg) auto
  have set: "mem_view (st\<lparr>ms_streams := jsmap_set sid es (ms_streams st)\<rparr>) = (mem_view st)(sid := es)" for es
    by (simp add: mem_view_def fun_eq_iff)
  show ?thesis
    using assms(2) slice
    unfolding mem_append_def spec_append_def Let_def existing_ids r mem_view_def [of st sid, symmetric]
    by (auto simp: set split: if_splits sum.splits)
qed

lemma mem_append_inv:
  assumes "mem_inv z r st" and "mem_append z now sid evs ex st = (st', res)"
  shows "mem_inv z r st'"
proof -
  have r: "ms_registry st = r" and wf: "jsmap_wf (ms_streams st)"
    and all: "\<And>s es. map_of (ms_streams st) s = Some es \<Longrightarrow> es \<noteq> [] \<and> stream_ok z r s es"
    using assms(1) by (auto simp: mem_inv_def dest: map_of_SomeD)
  have step: "mem_inv z r (st\<lparr>ms_streams := jsmap_set sid es (ms_streams st)\<rparr>)"
    if "es \<noteq> []" "stream_ok z r sid es" for es
    using wf that by (auto simp: mem_inv_def r jsmap_entries_iff split: if_splits dest!: all)
  have view: "coalesce (map_of (ms_streams st) sid) [] = mem_view st sid"
    by (simp add: mem_view_def)
  show ?thesis
    using assms stream_ok_append [OF mem_view_ok [OF assms(1), of sid], of evs now]
    unfolding mem_append_def Let_def r view
    by (auto simp: validate_all_Inr intro!: step split: if_splits sum.splits)
qed

interpretation mem: chronicle_store "mem_ops z" z reg "mem_inv z reg" mem_view
  for z :: zod and reg :: "'p registry"
proof
  fix s :: "'p mem_store" and now sid evs ex s' res
  assume "mem_inv z reg s" and "op_append (mem_ops z) now sid evs ex s = (s', res)"
  then show "mem_inv z reg s' \<and> spec_append z reg now sid evs ex (mem_view s) = (mem_view s', res)"
    by (auto intro: mem_append_spec mem_append_inv)
next
  fix s :: "'p mem_store" and sid after
  assume "mem_inv z reg s"
  then show "op_read (mem_ops z) sid after s =
      (filter (\<lambda>e. after < ev_sequence e) (mem_view s sid), None)"
    by (auto simp: mem_readStream_def mem_view_def split: option.splits)
next
  fix s :: "'p mem_store" and sid
  assume inv: "mem_inv z reg s"
  show "op_latest (mem_ops z) sid s = int (length (mem_view s sid))"
    by (simp add: mem_getLatestSequence_def mem_view_def)
  show "stream_ok z reg sid (mem_view s sid)"
    using inv by (rule mem_view_ok)
  show "set (op_streams (mem_ops z) s) = {sid. mem_view s sid \<noteq> []}"
    using inv
    by (auto simp: mem_listStreams_def mem_view_def mem_inv_def jsmap_wf_def coalesce_def
        split: option.splits dest: map_of_SomeD) force+
  show "distinct (op_streams (mem_ops z) s)"
    using inv by (simp add: mem_listStreams_def mem_inv_def jsmap_wf_def)
qed

end
