(* ===== verification/ChronicleSqlite.thy ===== *)
theory ChronicleSqlite
  imports Chronicle
begin

text \<open>
  \<open>SQLiteChronicleStore\<close> (\<open>adapters/storage/sqlite/src\<close>): the two tables of
  \<open>chronicle-migration.ts\<close> as row lists in rowid order, every SQL statement of
  \<open>sqlite-chronicle-store.ts\<close> as a function on them, and \<open>append\<close> as a transaction that
  keeps the old database when it throws. The column \<open>event_json\<close> is modelled by the event
  it encodes: \<open>JSON.parse\<close> inverts \<open>JSON.stringify\<close> on the JSON values a Chronicle
  event is made of.
\<close>

record 'p event_row =
  row_stream :: string
  row_sequence :: int
  row_eventId :: string
  row_event :: "'p chronicle_event"

record 'p sqlite_db =
  tbl_streams :: "(string \<times> int) list"
  tbl_events :: "'p event_row list"

definition sqlite_new :: "'p sqlite_db" where
  "sqlite_new = \<lparr>tbl_streams = [], tbl_events = []\<rparr>"

section \<open>Statements\<close>

definition insert_or_ignore_stream :: "string \<Rightarrow> 'p sqlite_db \<Rightarrow> 'p sqlite_db" where
  "insert_or_ignore_stream sid db =
     (if map_of (tbl_streams db) sid \<noteq> None then db
      else db\<lparr>tbl_streams := tbl_streams db @ [(sid, 0)]\<rparr>)"

definition select_tail :: "string \<Rightarrow> 'p sqlite_db \<Rightarrow> int option" where
  "select_tail sid db = map_of (tbl_streams db) sid"

definition select_window :: "string \<Rightarrow> int \<Rightarrow> int \<Rightarrow> 'p sqlite_db \<Rightarrow> 'p event_row list" where
  "select_window sid lo hi db = sort_key row_sequence
     (filter (\<lambda>w. row_stream w = sid \<and> lo \<le> row_sequence w \<and> row_sequence w < hi) (tbl_events db))"

definition select_after :: "string \<Rightarrow> int \<Rightarrow> 'p sqlite_db \<Rightarrow> 'p event_row list" where
  "select_after sid after db = sort_key row_sequence
     (filter (\<lambda>w. row_stream w = sid \<and> after < row_sequence w) (tbl_events db))"

text \<open>\<open>INSERT\<close> fails on the CHECK and on the primary key \<open>(stream_id, sequence)\<close>.\<close>

definition insert_event :: "'p chronicle_event \<Rightarrow> 'p sqlite_db \<Rightarrow> chronicle_error + 'p sqlite_db" where
  "insert_event e db =
     (if \<not> 0 < ev_sequence e \<or>
         list_ex (\<lambda>w. row_stream w = ev_stream e \<and> row_sequence w = ev_sequence e) (tbl_events db)
      then Inl ConstraintViolation
      else Inr (db\<lparr>tbl_events := tbl_events db @
        [\<lparr>row_stream = ev_stream e, row_sequence = ev_sequence e, row_eventId = ev_id e,
          row_event = e\<rparr>]\<rparr>))"

fun insert_events :: "'p chronicle_event list \<Rightarrow> 'p sqlite_db \<Rightarrow> chronicle_error + 'p sqlite_db" where
  "insert_events [] db = Inr db"
| "insert_events (e # es) db =
     (case insert_event e db of Inl err \<Rightarrow> Inl err | Inr db' \<Rightarrow> insert_events es db')"

definition update_tail :: "int \<Rightarrow> string \<Rightarrow> 'p sqlite_db \<Rightarrow> 'p sqlite_db" where
  "update_tail n sid db =
     db\<lparr>tbl_streams := map (\<lambda>(s, k). if s = sid then (s, n) else (s, k)) (tbl_streams db)\<rparr>"

text \<open>\<open>ChronicleEventSchema.parse\<close> of every selected row, in order.\<close>

fun parse_rows :: "zod \<Rightarrow> 'p event_row list \<Rightarrow> 'p chronicle_event list \<times> chronicle_error option" where
  "parse_rows z [] = ([], None)"
| "parse_rows z (w # ws) =
     (if \<not> stored_event_ok z (row_event w) then ([], Some StoredEventInvalid)
      else let (es, err) = parse_rows z ws in (row_event w # es, err))"

section \<open>The store\<close>

definition appendLocked :: "zod \<Rightarrow> string \<Rightarrow> string \<Rightarrow> 'p new_event list \<Rightarrow> int \<Rightarrow> 'p sqlite_db \<Rightarrow>
    'p sqlite_db \<times> (chronicle_error + 'p chronicle_event list)" where
  "appendLocked z now sid evs expected db =
     (let db1 = insert_or_ignore_stream sid db;
          actualNext = coalesce (select_tail sid db1) 0 + 1
      in if expected < 1 \<or> actualNext < expected
         then (db1, Inl (ChronicleSequenceConflict sid expected actualNext))
         else if expected \<noteq> actualNext then
           let window = select_window sid expected (expected + int (length evs)) db1;
               idempotent = (length window = length evs \<and>
                 list_all2 (\<lambda>w ev. ev_id (row_event w) = ev_id ev) window evs)
           in if \<not> idempotent
              then (db1, Inl (ChronicleSequenceConflict sid expected actualNext))
              else case parse_rows z window of
                (es, None) \<Rightarrow> (db1, Inr es)
              | (es, Some err) \<Rightarrow> (db1, Inl err)
         else
           let stored = stamp sid now expected evs
           in case insert_events stored db1 of
                Inl err \<Rightarrow> (db1, Inl err)
              | Inr db2 \<Rightarrow>
                  (update_tail (if stored = [] then 0 else ev_sequence (last stored)) sid db2,
                   Inr stored))"

text \<open>\<open>database.transaction\<close>: a throw rolls the database back.\<close>

definition transaction :: "('d \<Rightarrow> 'd \<times> ('e + 'a)) \<Rightarrow> 'd \<Rightarrow> 'd \<times> ('e + 'a)" where
  "transaction f db = (case f db of (db', Inl err) \<Rightarrow> (db, Inl err) | (db', Inr x) \<Rightarrow> (db', Inr x))"

definition sqlite_append :: "zod \<Rightarrow> 'p registry \<Rightarrow> string \<Rightarrow> string \<Rightarrow> 'p new_event list \<Rightarrow> int \<Rightarrow>
    'p sqlite_db \<Rightarrow> 'p sqlite_db \<times> (chronicle_error + 'p chronicle_event list)" where
  "sqlite_append z r now sid evs expected db =
     (if evs = [] then (db, Inr [])
      else case validate_all z r evs of
        Inl err \<Rightarrow> (db, Inl err)
      | Inr _ \<Rightarrow> transaction (appendLocked z now sid evs expected) db)"

definition sqlite_readStream :: "zod \<Rightarrow> string \<Rightarrow> int \<Rightarrow> 'p sqlite_db \<Rightarrow>
    'p chronicle_event list \<times> chronicle_error option" where
  "sqlite_readStream z sid after db = parse_rows z (select_after sid after db)"

definition sqlite_getLatestSequence :: "string \<Rightarrow> 'p sqlite_db \<Rightarrow> int" where
  "sqlite_getLatestSequence sid db = coalesce (select_tail sid db) 0"

definition sqlite_listStreams :: "'p sqlite_db \<Rightarrow> string list" where
  "sqlite_listStreams db = map fst (tbl_streams db)"

definition sqlite_ops :: "zod \<Rightarrow> 'p registry \<Rightarrow> ('p sqlite_db, 'p) chronicle_ops" where
  "sqlite_ops z r = \<lparr>op_append = sqlite_append z r, op_read = sqlite_readStream z,
     op_latest = sqlite_getLatestSequence, op_streams = sqlite_listStreams\<rparr>"

lemma sqlite_ops_sel [simp]:
  "op_append (sqlite_ops z r) = sqlite_append z r"
  "op_read (sqlite_ops z r) = sqlite_readStream z"
  "op_latest (sqlite_ops z r) = sqlite_getLatestSequence"
  "op_streams (sqlite_ops z r) = sqlite_listStreams"
  by (simp_all add: sqlite_ops_def)

section \<open>The invariant of the tables\<close>

definition sqlite_rows :: "'p sqlite_db \<Rightarrow> string \<Rightarrow> 'p event_row list" where
  "sqlite_rows db sid = filter (\<lambda>w. row_stream w = sid) (tbl_events db)"

definition sqlite_view :: "'p sqlite_db \<Rightarrow> 'p streams" where
  "sqlite_view db sid = map row_event (sqlite_rows db sid)"

definition row_ok :: "zod \<Rightarrow> 'p event_row \<Rightarrow> bool" where
  "row_ok z w \<longleftrightarrow> row_stream w = ev_stream (row_event w) \<and> row_sequence w = ev_sequence (row_event w) \<and>
     row_eventId w = ev_id (row_event w) \<and> stored_event_ok z (row_event w)"

text \<open>
  The stream-tail counter and the rows cannot drift apart: a stream has a counter row
  exactly when it has events, and the counter is their number.
\<close>

definition sqlite_inv :: "zod \<Rightarrow> 'p registry \<Rightarrow> 'p sqlite_db \<Rightarrow> bool" where
  "sqlite_inv z r db \<longleftrightarrow> distinct (map fst (tbl_streams db)) \<and> list_all (row_ok z) (tbl_events db) \<and>
     (\<forall>sid. stream_ok z r sid (sqlite_view db sid)) \<and>
     (\<forall>sid. map_of (tbl_streams db) sid =
        (if sqlite_view db sid = [] then None else Some (int (length (sqlite_view db sid)))))"

lemma sqlite_new_inv [simp]: "sqlite_inv z r sqlite_new"
  by (simp add: sqlite_inv_def sqlite_new_def sqlite_view_def sqlite_rows_def)

lemma rows_sequence:
  "list_all (row_ok z) (tbl_events db) \<Longrightarrow>
   map row_sequence (sqlite_rows db sid) = map ev_sequence (sqlite_view db sid)"
  by (auto simp: sqlite_rows_def sqlite_view_def list_all_iff row_ok_def)

lemma rows_numbered:
  assumes "sqlite_inv z r db"
  shows "map row_sequence (sqlite_rows db sid) = [1..int (length (sqlite_rows db sid))]"
  using assms rows_sequence [of z db sid]
  by (simp add: sqlite_inv_def stream_ok_def sqlite_view_def)

lemma sorted_filter_rows:
  assumes "sqlite_inv z r db"
  shows "sort_key row_sequence (filter P (sqlite_rows db sid)) = filter P (sqlite_rows db sid)"
proof -
  have "sorted (map row_sequence (sqlite_rows db sid))"
    by (simp add: rows_numbered [OF assms])
  then have "sorted (map row_sequence (filter P (sqlite_rows db sid)))"
    by (rule sorted_filter)
  then show ?thesis by (rule sort_key_id_if_sorted)
qed

lemma select_window_eq:
  assumes "sqlite_inv z r db" and "1 \<le> ex"
  shows "map row_event (select_window sid ex (ex + int k) db) =
    take k (drop (nat (ex - 1)) (sqlite_view db sid))"
proof -
  let ?P = "\<lambda>w. ex \<le> row_sequence w \<and> row_sequence w < ex + int k"
  have "select_window sid ex (ex + int k) db = sort_key row_sequence (filter ?P (sqlite_rows db sid))"
    by (auto simp: select_window_def sqlite_rows_def intro!: arg_cong [where f = "sort_key row_sequence"]
        filter_cong)
  also have "\<dots> = filter ?P (sqlite_rows db sid)"
    by (rule sorted_filter_rows [OF assms(1)])
  finally show ?thesis
    using numbered_window [OF rows_numbered [OF assms(1), of sid] assms(2)]
    by (simp add: sqlite_view_def take_map drop_map)
qed

lemma select_after_eq:
  assumes "sqlite_inv z r db"
  shows "select_after sid after db = filter (\<lambda>w. after < row_sequence w) (sqlite_rows db sid)"
proof -
  have "select_after sid after db =
      sort_key row_sequence (filter (\<lambda>w. after < row_sequence w) (sqlite_rows db sid))"
    by (auto simp: select_after_def sqlite_rows_def intro!: arg_cong [where f = "sort_key row_sequence"]
        filter_cong)
  then show ?thesis by (simp add: sorted_filter_rows [OF assms])
qed

lemma parse_rows_ok:
  "list_all (\<lambda>w. stored_event_ok z (row_event w)) ws \<Longrightarrow> parse_rows z ws = (map row_event ws, None)"
  by (induction ws) auto

lemma rows_subset_ok:
  assumes "sqlite_inv z r db" and "set ws \<subseteq> set (tbl_events db)"
  shows "list_all (\<lambda>w. stored_event_ok z (row_event w)) ws"
  using assms by (auto simp: sqlite_inv_def list_all_iff row_ok_def)

section \<open>Inserting at the tail\<close>

definition row_of :: "'p chronicle_event \<Rightarrow> 'p event_row" where
  "row_of e = \<lparr>row_stream = ev_stream e, row_sequence = ev_sequence e, row_eventId = ev_id e,
     row_event = e\<rparr>"

lemma row_of_sel [simp]:
  "row_stream (row_of e) = ev_stream e" "row_sequence (row_of e) = ev_sequence e"
  "row_event (row_of e) = e" "row_eventId (row_of e) = ev_id e"
  by (simp_all add: row_of_def)

text \<open>No row is at or past the tail, so the primary key never objects.\<close>

lemma insert_stamped:
  assumes "0 < n" and "\<forall>w\<in>set (tbl_events db). row_stream w = sid \<longrightarrow> row_sequence w < n"
  shows "insert_events (stamp sid now n evs) db =
    Inr (db\<lparr>tbl_events := tbl_events db @ map row_of (stamp sid now n evs)\<rparr>)"
  using assms
proof (induction evs arbitrary: n db)
  case (Cons e evs)
  let ?s = "stored_event sid n now e"
  have ins: "insert_event ?s db = Inr (db\<lparr>tbl_events := tbl_events db @ [row_of ?s]\<rparr>)"
    using Cons.prems by (fastforce simp: insert_event_def row_of_def list_ex_iff)
  let ?db = "db\<lparr>tbl_events := tbl_events db @ [row_of ?s]\<rparr>"
  have "\<forall>w\<in>set (tbl_events ?db). row_stream w = sid \<longrightarrow> row_sequence w < n + 1"
    using Cons.prems(2) by auto
  then have "insert_events (stamp sid now (n + 1) evs) ?db =
      Inr (?db\<lparr>tbl_events := tbl_events ?db @ map row_of (stamp sid now (n + 1) evs)\<rparr>)"
    using Cons.prems(1) by (intro Cons.IH) auto
  with ins show ?case by simp
qed simp

lemma last_stamp:
  "evs \<noteq> [] \<Longrightarrow> ev_sequence (last (stamp sid now n evs)) = n + int (length evs) - 1"
proof (induction evs arbitrary: n)
  case (Cons e evs)
  then show ?case by (cases "evs = []") auto
qed simp

section \<open>The SQLite store implements the contract\<close>

lemma tail_eq:
  assumes "sqlite_inv z r db"
  shows "coalesce (map_of (tbl_streams db) sid) 0 = int (length (sqlite_view db sid))"
  using assms by (auto simp: sqlite_inv_def)

lemma ignore_stream_view [simp]: "sqlite_view (insert_or_ignore_stream sid db) = sqlite_view db"
  by (simp add: insert_or_ignore_stream_def sqlite_view_def sqlite_rows_def fun_eq_iff)

lemma ignore_stream_events [simp]: "tbl_events (insert_or_ignore_stream sid db) = tbl_events db"
  by (simp add: insert_or_ignore_stream_def)

lemma ignore_stream_tail:
  assumes "sqlite_inv z r db"
  shows "coalesce (select_tail sid (insert_or_ignore_stream sid db)) 0 =
    int (length (sqlite_view db sid))"
  using tail_eq [OF assms, of sid]
  by (auto simp: insert_or_ignore_stream_def select_tail_def map_add_def coalesce_def split: option.splits)

lemma ignore_stream_present:
  assumes "sqlite_inv z r db" and "sqlite_view db sid \<noteq> []"
  shows "insert_or_ignore_stream sid db = db"
  using assms by (auto simp: insert_or_ignore_stream_def sqlite_inv_def)

text \<open>The write branch: what the transaction leaves behind.\<close>

definition sqlite_written :: "string \<Rightarrow> 'p chronicle_event list \<Rightarrow> 'p sqlite_db \<Rightarrow> 'p sqlite_db" where
  "sqlite_written sid stored db =
     (let db1 = insert_or_ignore_stream sid db
      in update_tail (ev_sequence (last stored)) sid
           (db1\<lparr>tbl_events := tbl_events db1 @ map row_of stored\<rparr>))"

lemma written_view:
  "\<forall>e\<in>set stored. ev_stream e = sid \<Longrightarrow>
   sqlite_view (sqlite_written sid stored db) = (sqlite_view db)(sid := sqlite_view db sid @ stored)"
  by (auto simp: sqlite_written_def Let_def update_tail_def sqlite_view_def sqlite_rows_def
      fun_eq_iff filter_empty_conv comp_def)

lemma map_of_update_tail:
  "map_of (map (\<lambda>(s, k). if s = sid then (s, n) else (s, k)) m) x =
   (if x = sid \<and> map_of m sid \<noteq> None then Some n else map_of m x)"
  by (induction m) auto

lemma keys_update_tail:
  "map fst (map (\<lambda>(s, k). if s = sid then (s, n) else (s, k)) m) = map fst m"
  by (induction m) auto

lemma written_streams:
  "map_of (tbl_streams (sqlite_written sid stored db)) s =
   (if s = sid then Some (ev_sequence (last stored)) else map_of (tbl_streams db) s)"
  by (auto simp: sqlite_written_def Let_def update_tail_def map_of_update_tail
      insert_or_ignore_stream_def map_add_def simp del: map_append split: option.splits)

lemma written_keys:
  "distinct (map fst (tbl_streams db)) \<Longrightarrow>
   distinct (map fst (tbl_streams (sqlite_written sid stored db)))"
  by (auto simp: sqlite_written_def Let_def update_tail_def keys_update_tail
      insert_or_ignore_stream_def map_of_eq_None_iff simp del: map_map)

lemma written_events [simp]:
  "tbl_events (sqlite_written sid stored db) = tbl_events db @ map row_of stored"
  by (simp add: sqlite_written_def Let_def update_tail_def)

lemma written_inv:
  assumes inv: "sqlite_inv z r db" and "evs \<noteq> []" and "list_all (event_accepted z r) evs"
    and "z_datetime z now" and "sid \<noteq> []"
  shows "sqlite_inv z r (sqlite_written sid (stamp sid now (int (length (sqlite_view db sid)) + 1) evs) db)"
    (is "sqlite_inv z r (sqlite_written sid ?st db)")
proof -
  let ?n = "int (length (sqlite_view db sid))"
  have str: "\<forall>e\<in>set ?st. ev_stream e = sid" by (auto dest: stamp_all)
  note view = written_view [OF str, of db]
  have last: "ev_sequence (last ?st) = ?n + int (length evs)"
    using last_stamp [OF assms(2), of sid now "?n + 1"] by simp
  have sok: "stream_ok z r s (sqlite_view (sqlite_written sid ?st db) s)" for s
    using inv assms(3) by (auto simp: view sqlite_inv_def intro: stream_ok_append)
  have pos: "0 < ev_sequence e" if "e \<in> set ?st" for e
  proof -
    have "ev_sequence e \<in> set (map ev_sequence ?st)" using that by simp
    then show ?thesis by (simp add: stamp_sequences)
  qed
  have rows: "list_all (row_ok z) (map row_of ?st)"
    using assms(3-5) pos
    by (auto simp: list_all_iff row_ok_def stored_event_ok_def event_accepted_def dest!: stamp_all)
  have "map_of (tbl_streams (sqlite_written sid ?st db)) s =
      (if sqlite_view (sqlite_written sid ?st db) s = [] then None
       else Some (int (length (sqlite_view (sqlite_written sid ?st db) s))))" for s
    unfolding view written_streams last using inv assms(2) by (auto simp: sqlite_inv_def)
  moreover have "distinct (map fst (tbl_streams (sqlite_written sid ?st db)))"
    using inv by (auto simp: sqlite_inv_def intro: written_keys)
  ultimately show ?thesis
    using inv rows sok unfolding sqlite_inv_def by (simp add: list_all_append)
qed

text \<open>
  Every branch of the transaction is the branch of the contract: in particular no
  constraint of the schema is ever violated and no stored row fails to parse.
\<close>

lemma appendLocked_write:
  assumes inv: "sqlite_inv z r db" and "evs \<noteq> []"
  shows "appendLocked z now sid evs (int (length (sqlite_view db sid)) + 1) db =
    (sqlite_written sid (stamp sid now (int (length (sqlite_view db sid)) + 1) evs) db,
     Inr (stamp sid now (int (length (sqlite_view db sid)) + 1) evs))"
proof -
  let ?n = "int (length (sqlite_view db sid)) + 1" and ?db1 = "insert_or_ignore_stream sid db"
  have "\<forall>w\<in>set (tbl_events ?db1). row_stream w = sid \<longrightarrow> row_sequence w < ?n"
  proof (intro ballI impI)
    fix w
    assume "w \<in> set (tbl_events ?db1)" "row_stream w = sid"
    then have "row_sequence w \<in> set (map row_sequence (sqlite_rows db sid))"
      by (simp add: sqlite_rows_def)
    then show "row_sequence w < ?n"
      by (simp add: rows_numbered [OF inv] sqlite_view_def)
  qed
  then have "insert_events (stamp sid now ?n evs) ?db1 =
      Inr (?db1\<lparr>tbl_events := tbl_events ?db1 @ map row_of (stamp sid now ?n evs)\<rparr>)"
    by (intro insert_stamped) auto
  then show ?thesis
    using assms(2) by (simp add: appendLocked_def Let_def ignore_stream_tail [OF inv] sqlite_written_def)
qed

lemma window_ids:
  "length ws = length evs \<and> list_all2 (\<lambda>w e. ev_id (row_event w) = ev_id e) ws evs \<longleftrightarrow>
   map ev_id (map row_event ws) = map ev_id evs"
  for ws :: "'p event_row list" and evs :: "'p new_event list"
  by (induction ws evs rule: list_induct2') auto

lemma appendLocked_other:
  assumes inv: "sqlite_inv z r db" and "evs \<noteq> []" and "ex \<noteq> int (length (sqlite_view db sid)) + 1"
  shows "transaction (appendLocked z now sid evs ex) db =
    (let old = take (length evs) (drop (nat (ex - 1)) (sqlite_view db sid))
     in if 1 \<le> ex \<and> map ev_id old = map ev_id evs then (db, Inr old)
        else (db, Inl (ChronicleSequenceConflict sid ex (int (length (sqlite_view db sid)) + 1))))"
proof (cases "ex < 1 \<or> int (length (sqlite_view db sid)) + 1 < ex")
  case True
  then have "\<not> (1 \<le> ex \<and>
      map ev_id (take (length evs) (drop (nat (ex - 1)) (sqlite_view db sid))) = map ev_id evs)"
    using assms(2) by auto
  with True show ?thesis
    by (simp add: appendLocked_def transaction_def Let_def ignore_stream_tail [OF inv])
next
  case False
  with assms(3) have "sqlite_view db sid \<noteq> []" by auto
  then have db1: "insert_or_ignore_stream sid db = db" using inv by (intro ignore_stream_present)
  let ?w = "select_window sid ex (ex + int (length evs)) db"
  have "set ?w \<subseteq> set (tbl_events db)" by (auto simp: select_window_def)
  then have "parse_rows z ?w = (map row_event ?w, None)"
    by (intro parse_rows_ok rows_subset_ok [OF inv])
  then show ?thesis
    using False assms(3) select_window_eq [OF inv, of ex sid "length evs"] tail_eq [OF inv, of sid]
    unfolding appendLocked_def transaction_def Let_def db1 window_ids
    by (simp add: select_tail_def)
qed

lemma sqlite_append_spec:
  assumes inv: "sqlite_inv z r db" and "sqlite_append z r now sid evs ex db = (db', res)"
  shows "spec_append z r now sid evs ex (sqlite_view db) = (sqlite_view db', res)"
proof (cases "evs = [] \<or> (\<exists>err. validate_all z r evs = Inl err)")
  case True
  with assms(2) show ?thesis
    by (auto simp: sqlite_append_def spec_append_def Let_def split: if_splits)
next
  case False
  then have ne: "evs \<noteq> []" and val: "validate_all z r evs = Inr ()"
    by (auto split: sum.splits) (cases "validate_all z r evs"; simp)
  show ?thesis
  proof (cases "ex = int (length (sqlite_view db sid)) + 1")
    case True
    have str: "\<forall>e\<in>set (stamp sid now ex evs). ev_stream e = sid" by (auto dest: stamp_all)
    from True show ?thesis
      using assms(2) ne val appendLocked_write [OF inv ne, of now sid] written_view [OF str, of db]
      by (auto simp: sqlite_append_def spec_append_def Let_def transaction_def)
  next
    case other: False
    show ?thesis
      using assms(2) ne val other appendLocked_other [OF inv ne other, of now]
      by (auto simp: sqlite_append_def spec_append_def Let_def split: if_splits)
  qed
qed

lemma sqlite_append_inv:
  assumes inv: "sqlite_inv z r db" and "z_datetime z now" and "sid \<noteq> []"
    and app: "sqlite_append z r now sid evs ex db = (db', res)"
  shows "sqlite_inv z r db'"
proof (cases "evs = [] \<or> (\<exists>err. validate_all z r evs = Inl err)")
  case True
  with inv app show ?thesis by (auto simp: sqlite_append_def split: if_splits)
next
  case False
  then have ne: "evs \<noteq> []" and val: "validate_all z r evs = Inr ()"
    by (auto split: sum.splits) (cases "validate_all z r evs"; simp)
  then have acc: "list_all (event_accepted z r) evs" by (simp add: validate_all_Inr)
  show ?thesis
  proof (cases "ex = int (length (sqlite_view db sid)) + 1")
    case True
    with app ne val appendLocked_write [OF inv ne, of now sid]
      written_inv [OF inv ne acc assms(2,3)]
    show ?thesis by (auto simp: sqlite_append_def transaction_def)
  next
    case other: False
    from app inv ne val appendLocked_other [OF inv ne other, of now] show ?thesis
      by (auto simp: sqlite_append_def Let_def split: if_splits)
  qed
qed

interpretation sqlite: chronicle_store "sqlite_ops z reg" z reg "sqlite_inv z reg" sqlite_view
  for z :: zod and reg :: "'p registry"
proof
  fix s :: "'p sqlite_db" and now sid evs ex s' res
  assume "sqlite_inv z reg s" and "z_datetime z now" and "sid \<noteq> []"
    and "op_append (sqlite_ops z reg) now sid evs ex s = (s', res)"
  then show "sqlite_inv z reg s' \<and> spec_append z reg now sid evs ex (sqlite_view s) = (sqlite_view s', res)"
    by (auto intro: sqlite_append_spec sqlite_append_inv)
next
  fix s :: "'p sqlite_db" and sid after
  assume inv: "sqlite_inv z reg s"
  let ?rows = "filter (\<lambda>w. after < row_sequence w) (sqlite_rows s sid)"
  have "set ?rows \<subseteq> set (tbl_events s)" by (auto simp: sqlite_rows_def)
  then have "parse_rows z ?rows = (map row_event ?rows, None)"
    by (intro parse_rows_ok rows_subset_ok [OF inv])
  moreover have "map row_event ?rows = filter (\<lambda>e. after < ev_sequence e) (sqlite_view s sid)"
    using inv
    by (auto simp: sqlite_view_def sqlite_rows_def filter_map comp_def sqlite_inv_def list_all_iff
        row_ok_def intro!: arg_cong [where f = "map row_event"] filter_cong)
  ultimately show "op_read (sqlite_ops z reg) sid after s =
      (filter (\<lambda>e. after < ev_sequence e) (sqlite_view s sid), None)"
    by (simp add: sqlite_readStream_def select_after_eq [OF inv])
next
  fix s :: "'p sqlite_db" and sid
  assume inv: "sqlite_inv z reg s"
  then show "op_latest (sqlite_ops z reg) sid s = int (length (sqlite_view s sid))"
    by (simp add: sqlite_getLatestSequence_def select_tail_def tail_eq)
  show "stream_ok z reg sid (sqlite_view s sid)"
    using inv by (simp add: sqlite_inv_def)
  have "sid \<in> set (map fst (tbl_streams s)) \<longleftrightarrow> sqlite_view s sid \<noteq> []" for sid
    using inv by (metis (no_types, lifting) map_of_eq_None_iff option.distinct(1) set_map sqlite_inv_def)
  then show "set (op_streams (sqlite_ops z reg) s) = {sid. sqlite_view s sid \<noteq> []}"
    by (auto simp: sqlite_listStreams_def)
  show "distinct (op_streams (sqlite_ops z reg) s)"
    using inv by (simp add: sqlite_listStreams_def sqlite_inv_def)
qed

end
