(* ===== verification/KanbanStore.thy ===== *)
theory KanbanStore
  imports KanbanMachine HostEvents ChronicleMemory ChronicleSqlite
begin

text \<open>
  The Kanban store (\<open>packages/kanban/src/events.ts\<close> and \<open>store.ts\<close>): event builders, the
  query with its comparator, the fold of a task's stream, and \<open>ChronicleKanbanStore\<close>, which
  keeps a projection of the log. The operations take the Chronicle they write to as a
  record of operations, as the class takes a \<open>ChronicleStore\<close>.
\<close>

section \<open>Event builders\<close>

definition KANBAN_ACTOR :: chronicle_actor where
  "KANBAN_ACTOR = \<lparr>actor_type = AgentActor, actor_id = ''bee''\<rparr>"

definition kanban_event :: "kanban_event_kind \<Rightarrow> string \<Rightarrow> string \<Rightarrow> chronicle_actor option \<Rightarrow>
    string \<Rightarrow> kanban_payload \<Rightarrow> payload new_event" where
  "kanban_event k uuid now actor taskId p =
     newChronicleEvent uuid now (plain_input (kanban_event_name k) (coalesce actor KANBAN_ACTOR)
       (no_scope\<lparr>sc_task := Some taskId\<rparr>) (TaskP p))"

definition kanbanTaskCreatedEvent :: "string \<Rightarrow> string \<Rightarrow> chronicle_actor option \<Rightarrow> kanban_task \<Rightarrow>
    payload new_event" where
  "kanbanTaskCreatedEvent uuid now actor t = kanban_event TaskCreated uuid now actor (kt_id t) (KTaskP t)"

definition kanbanTaskStatusChangedEvent :: "string \<Rightarrow> string \<Rightarrow> chronicle_actor option \<Rightarrow>
    kanban_status \<Rightarrow> kanban_task \<Rightarrow> string option \<Rightarrow> payload new_event" where
  "kanbanTaskStatusChangedEvent uuid now actor from t reason =
     kanban_event TaskStatusChanged uuid now actor (kt_id t)
       (KStatusChangedP from (kt_status t) reason t)"

definition kanbanTaskLeaseRenewedEvent :: "string \<Rightarrow> string \<Rightarrow> chronicle_actor option \<Rightarrow> string \<Rightarrow>
    string \<Rightarrow> string \<Rightarrow> payload new_event" where
  "kanbanTaskLeaseRenewedEvent uuid now actor taskId leaseId expiresAt =
     kanban_event TaskLeaseRenewed uuid now actor taskId (KLeaseRenewedP leaseId expiresAt)"

definition kanbanTaskUpdatedEvent :: "string \<Rightarrow> string \<Rightarrow> chronicle_actor option \<Rightarrow> kanban_task \<Rightarrow>
    payload new_event" where
  "kanbanTaskUpdatedEvent uuid now actor t = kanban_event TaskUpdated uuid now actor (kt_id t) (KTaskP t)"

definition kanbanTaskCommentedEvent :: "string \<Rightarrow> string \<Rightarrow> chronicle_actor option \<Rightarrow> string \<Rightarrow>
    kanban_comment \<Rightarrow> payload new_event" where
  "kanbanTaskCommentedEvent uuid now actor taskId c =
     kanban_event TaskCommented uuid now actor taskId (KCommentedP c)"

definition appendKanbanTaskEvents :: "('s, payload) chronicle_ops \<Rightarrow> string \<Rightarrow> string \<Rightarrow>
    payload new_event list \<Rightarrow> 's \<Rightarrow> 's \<times> (chronicle_error + payload chronicle_event list)" where
  "appendKanbanTaskEvents ops now taskId evs s =
     (let expectedSequence = op_latest ops (kanbanStreamId taskId) s + 1
      in op_append ops now (kanbanStreamId taskId) evs expectedSequence s)"

section \<open>The query\<close>

record task_query =
  q_status :: "kanban_status list option"
  q_labels :: "string list option"
  q_priority :: "kanban_priority option"
  q_scheduledBefore :: "string option"
  q_sourceThreadId :: "string option"
  q_sourceItemId :: "string option"
  q_limit :: "int option"

definition any_task :: task_query where
  "any_task = \<lparr>q_status = None, q_labels = None, q_priority = None, q_scheduledBefore = None,
     q_sourceThreadId = None, q_sourceItemId = None, q_limit = None\<rparr>"

fun PRIORITY_ORDER :: "kanban_priority \<Rightarrow> int" where
  "PRIORITY_ORDER Urgent = 0"
| "PRIORITY_ORDER High = 1"
| "PRIORITY_ORDER Medium = 2"
| "PRIORITY_ORDER Low = 3"
| "PRIORITY_ORDER Lowest = 4"

fun compareOptionalDate :: "(string \<Rightarrow> string \<Rightarrow> int) \<Rightarrow> string option \<Rightarrow> string option \<Rightarrow> int" where
  "compareOptionalDate lc None None = 0"
| "compareOptionalDate lc None (Some b) = 1"
| "compareOptionalDate lc (Some a) None = -1"
| "compareOptionalDate lc (Some a) (Some b) = lc a b"

definition compareTasks :: "(string \<Rightarrow> string \<Rightarrow> int) \<Rightarrow> kanban_task \<Rightarrow> kanban_task \<Rightarrow> int" where
  "compareTasks lc a b =
     (let byPriority = PRIORITY_ORDER (kt_priority a) - PRIORITY_ORDER (kt_priority b)
      in if byPriority \<noteq> 0 then byPriority
         else let byDeadline = compareOptionalDate lc (kt_deadline a) (kt_deadline b)
           in if byDeadline \<noteq> 0 then byDeadline
              else let bySchedule = compareOptionalDate lc (kt_scheduledAt a) (kt_scheduledAt b)
                in if bySchedule \<noteq> 0 then bySchedule else lc (kt_createdAt a) (kt_createdAt b))"

definition task_matches :: "task_query \<Rightarrow> kanban_task \<Rightarrow> bool" where
  "task_matches q t \<longleftrightarrow>
     (case q_status q of None \<Rightarrow> True | Some ss \<Rightarrow> List.member ss (kt_status t)) \<and>
     (case q_labels q of None \<Rightarrow> True
      | Some ls \<Rightarrow> ls = [] \<or> list_ex (\<lambda>l. List.member (kt_labels t) l) ls) \<and>
     (case q_priority q of None \<Rightarrow> True | Some p \<Rightarrow> kt_priority t = p) \<and>
     (case q_scheduledBefore q of None \<Rightarrow> True
      | Some b \<Rightarrow> (case kt_scheduledAt t of None \<Rightarrow> True | Some s \<Rightarrow> s \<le> b)) \<and>
     (case q_sourceThreadId q of None \<Rightarrow> True
      | Some i \<Rightarrow> map_option src_threadId (kt_source t) = Some i) \<and>
     (case q_sourceItemId q of None \<Rightarrow> True
      | Some i \<Rightarrow> (case kt_source t of None \<Rightarrow> False | Some s \<Rightarrow> src_itemId s = Some i))"

definition list_tasks :: "(string \<Rightarrow> string \<Rightarrow> int) \<Rightarrow> task_query \<Rightarrow> kanban_task list \<Rightarrow>
    kanban_task list" where
  "list_tasks lc q ts =
     (let sorted = js_sort (compareTasks lc) (filter (task_matches q) ts)
      in case q_limit q of None \<Rightarrow> sorted | Some n \<Rightarrow> js_slice 0 n sorted)"

lemma js_comparator_optional_date:
  assumes "js_comparator lc"
  shows "js_comparator (compareOptionalDate lc)"
proof -
  note f = js_comparator.cmp_flip [OF assms] and t = js_comparator.cmp_trans [OF assms]
  show ?thesis
  proof
    show "compareOptionalDate lc x y < 0 \<longleftrightarrow> 0 < compareOptionalDate lc y x" for x y
      by (cases x; cases y) (auto simp: f)
    show "compareOptionalDate lc x y \<le> 0 \<Longrightarrow> compareOptionalDate lc y w \<le> 0 \<Longrightarrow>
        compareOptionalDate lc x w \<le> 0" for x y w
      by (cases x; cases y; cases w) (auto intro: t)
  qed
qed

lemma js_comparator_tasks:
  assumes "js_comparator lc"
  shows "js_comparator (compareTasks lc)"
proof -
  have "compareTasks lc = (\<lambda>a b. cmp_then (PRIORITY_ORDER (kt_priority a) - PRIORITY_ORDER (kt_priority b))
      (cmp_then (compareOptionalDate lc (kt_deadline a) (kt_deadline b))
        (cmp_then (compareOptionalDate lc (kt_scheduledAt a) (kt_scheduledAt b))
          (lc (kt_createdAt a) (kt_createdAt b)))))"
    by (auto simp: compareTasks_def cmp_then_def Let_def fun_eq_iff)
  moreover have "js_comparator \<dots>"
    by (intro js_comparator_then js_comparator_key [OF js_comparator_diff]
        js_comparator_key [OF js_comparator_optional_date [OF assms]] js_comparator_key [OF assms])
  ultimately show ?thesis by simp
qed

interpretation task_order: js_comparator "compareTasks code_unit_compare"
  by (rule js_comparator_tasks) (rule code_units.js_comparator_axioms)

section \<open>Folding a task's stream\<close>

definition foldTask :: "kanban_task option \<Rightarrow> payload chronicle_event \<Rightarrow> kanban_error + kanban_task" where
  "foldTask task e =
     (if ev_type e \<in> {kanban_event_name TaskCreated, kanban_event_name TaskStatusChanged,
          kanban_event_name TaskUpdated}
      then (case ev_payload e of
          TaskP p \<Rightarrow> (case payload_task p of Some t \<Rightarrow> Inr t | None \<Rightarrow> Inl (KMalformedPayload (ev_type e)))
        | _ \<Rightarrow> Inl (KMalformedPayload (ev_type e)))
      else if ev_type e = kanban_event_name TaskCommented then
        (case task of
           None \<Rightarrow> Inl (KFoldBeforeCreated (ev_type e))
         | Some t \<Rightarrow> (case ev_payload e of
             TaskP (KCommentedP c) \<Rightarrow>
               Inr (t\<lparr>kt_comments := kt_comments t @ [c], kt_version := kt_version t + 1\<rparr>)
           | _ \<Rightarrow> Inl (KMalformedPayload (ev_type e))))
      else if ev_type e = kanban_event_name TaskLeaseRenewed then
        (case task of
           None \<Rightarrow> Inl (KFoldBeforeCreated (ev_type e))
         | Some t \<Rightarrow> (case ev_payload e of
             TaskP (KLeaseRenewedP leaseId expiresAt) \<Rightarrow>
               (case kt_claim t of
                  None \<Rightarrow> Inr t
                | Some c \<Rightarrow>
                    if kt_status t \<noteq> KRunning \<or> cl_leaseId c \<noteq> leaseId then Inr t
                    else Inr (t\<lparr>kt_claim := Some (c\<lparr>cl_expiresAt := expiresAt\<rparr>),
                           kt_version := kt_version t + 1\<rparr>))
           | _ \<Rightarrow> Inl (KMalformedPayload (ev_type e))))
      else Inl (KUnknownEventType (ev_type e)))"

fun fold_stream :: "kanban_task option \<Rightarrow> payload chronicle_event list \<Rightarrow>
    kanban_error + kanban_task option" where
  "fold_stream task [] = Inr task"
| "fold_stream task (e # es) =
     (case foldTask task e of Inl err \<Rightarrow> Inl err | Inr t \<Rightarrow> fold_stream (Some t) es)"

lemma fold_stream_snoc:
  "fold_stream task (es @ [e]) =
   (case fold_stream task es of
      Inl err \<Rightarrow> Inl err
    | Inr t \<Rightarrow> (case foldTask t e of Inl err \<Rightarrow> Inl err | Inr t' \<Rightarrow> Inr (Some t')))"
  by (induction es arbitrary: task) (auto split: sum.splits)

text \<open>
  An event the registry accepted is never malformed: every error of the fold is one the
  source raises.
\<close>

lemma foldTask_accepted:
  assumes "event_accepted z (host_registry z) e"
  shows "foldTask task e \<noteq> Inl (KMalformedPayload et)"
proof (cases "\<exists>k. ev_type e = kanban_event_name k")
  case True
  then obtain k where k: "ev_type e = kanban_event_name k" by blast
  with assms have "task_schema z k (ev_payload e)"
    by (auto simp: event_accepted_def host_registry_task)
  then show ?thesis
    using k by (cases k)
      (auto simp: foldTask_def task_schema_def kanban_payload_ok_def
        simp del: kanban_event_name.simps split: payload.splits kanban_payload.splits option.splits)
next
  case False
  then show ?thesis by (auto simp: foldTask_def simp del: kanban_event_name.simps)
qed

section \<open>The store\<close>

record 's kanban_store =
  ks_chronicle :: 's
  ks_tasks :: "(string, kanban_task) jsmap"
  ks_idempotency :: "(string, string) jsmap"

definition kb_new :: "'s \<Rightarrow> 's kanban_store" where
  "kb_new s = \<lparr>ks_chronicle = s, ks_tasks = [], ks_idempotency = []\<rparr>"

definition kb_get :: "string \<Rightarrow> 's kanban_store \<Rightarrow> kanban_task option" where
  "kb_get taskId st = map_of (ks_tasks st) taskId"

definition kb_list :: "(string \<Rightarrow> string \<Rightarrow> int) \<Rightarrow> task_query \<Rightarrow> 's kanban_store \<Rightarrow> kanban_task list" where
  "kb_list lc q st = list_tasks lc q (jsmap_values (ks_tasks st))"

definition kb_index :: "kanban_task \<Rightarrow> 's kanban_store \<Rightarrow> 's kanban_store" where
  "kb_index t st =
     st\<lparr>ks_tasks := jsmap_set (kt_id t) t (ks_tasks st),
        ks_idempotency := (case kt_idempotencyKey t of
            None \<Rightarrow> ks_idempotency st
          | Some k \<Rightarrow> jsmap_set k (kt_id t) (ks_idempotency st))\<rparr>"

definition kb_commit :: "('s, payload) chronicle_ops \<Rightarrow> string \<Rightarrow> string \<Rightarrow> payload new_event list \<Rightarrow>
    int \<Rightarrow> kanban_task \<Rightarrow> 's kanban_store \<Rightarrow> 's kanban_store \<times> (kanban_error + kanban_task)" where
  "kb_commit ops now taskId evs expectedSequence t st =
     (case op_append ops now (kanbanStreamId taskId) evs expectedSequence (ks_chronicle st) of
        (s', Inl err) \<Rightarrow> (st\<lparr>ks_chronicle := s'\<rparr>, Inl (KStoreError err))
      | (s', Inr _) \<Rightarrow> (kb_index t (st\<lparr>ks_chronicle := s'\<rparr>), Inr t))"

definition kb_create :: "zod \<Rightarrow> ('s, payload) chronicle_ops \<Rightarrow> env \<Rightarrow> new_task_init \<Rightarrow>
    's kanban_store \<Rightarrow> 's kanban_store \<times> (kanban_error + kanban_task)" where
  "kb_create z ops env i st =
     (case Option.bind (Option.bind (nt_idempotencyKey i) (map_of (ks_idempotency st)))
             (map_of (ks_tasks st)) of
        Some existing \<Rightarrow> (st, Inr existing)
      | None \<Rightarrow>
          (case newKanbanTask z (env_uuid env 0) (env_now env 0) i of
             Inl err \<Rightarrow> (st, Inl err)
           | Inr t \<Rightarrow> kb_commit ops (env_now env 2) (kt_id t)
               [kanbanTaskCreatedEvent (env_uuid env 1) (env_now env 1) None t] 1 t st))"

definition kb_transition :: "('s, payload) chronicle_ops \<Rightarrow> env \<Rightarrow> string \<Rightarrow> transition_command \<Rightarrow>
    's kanban_store \<Rightarrow> 's kanban_store \<times> (kanban_error + kanban_task)" where
  "kb_transition ops env taskId cmd st =
     (case map_of (ks_tasks st) taskId of
        None \<Rightarrow> (st, Inl (KTaskNotFound taskId))
      | Some current \<Rightarrow>
          (case applyTransition (env_now env 0) current cmd of
             Inl err \<Rightarrow> (st, Inl err)
           | Inr t \<Rightarrow> kb_commit ops (env_now env 2) taskId
               [kanbanTaskStatusChangedEvent (env_uuid env 0) (env_now env 1) None (kt_status current)
                  t (tc_reason cmd)]
               (tc_expectedVersion cmd + 1) t st))"

definition kb_renewLease :: "('s, payload) chronicle_ops \<Rightarrow> env \<Rightarrow> string \<Rightarrow> string \<Rightarrow> string \<Rightarrow>
    's kanban_store \<Rightarrow> 's kanban_store \<times> (kanban_error + kanban_task)" where
  "kb_renewLease ops env taskId leaseId expiresAt st =
     (case map_of (ks_tasks st) taskId of
        None \<Rightarrow> (st, Inl (KTaskNotFound taskId))
      | Some current \<Rightarrow>
          (case kt_claim current of
             None \<Rightarrow> (st, Inl (KLeaseLost taskId leaseId))
           | Some c \<Rightarrow>
               if kt_status current \<noteq> KRunning \<or> cl_leaseId c \<noteq> leaseId
               then (st, Inl (KLeaseLost taskId leaseId))
               else kb_commit ops (env_now env 2) taskId
                 [kanbanTaskLeaseRenewedEvent (env_uuid env 0) (env_now env 1) None taskId leaseId
                    expiresAt]
                 (kt_version current + 1)
                 (current\<lparr>kt_claim := Some (c\<lparr>cl_expiresAt := expiresAt\<rparr>),
                    kt_version := kt_version current + 1\<rparr>) st))"

record task_update =
  up_expectedVersion :: int
  up_at :: "string option"
  up_title :: "string option"
  up_goal :: "string option"
  up_acceptanceCriteria :: "string list option"
  up_priority :: "kanban_priority option"
  up_labels :: "string list option"
  up_deadline :: "string option"
  up_scheduledAt :: "string option"

text \<open>The spread of the provided fields over the current task.\<close>

definition patched_task :: "string \<Rightarrow> task_update \<Rightarrow> kanban_task \<Rightarrow> kanban_task" where
  "patched_task at p t =
     t\<lparr>kt_title := coalesce (up_title p) (kt_title t),
       kt_goal := (case up_goal p of None \<Rightarrow> kt_goal t | Some g \<Rightarrow> Some g),
       kt_acceptanceCriteria := coalesce (up_acceptanceCriteria p) (kt_acceptanceCriteria t),
       kt_priority := coalesce (up_priority p) (kt_priority t),
       kt_labels := coalesce (up_labels p) (kt_labels t),
       kt_deadline := (case up_deadline p of None \<Rightarrow> kt_deadline t | Some d \<Rightarrow> Some d),
       kt_scheduledAt := (case up_scheduledAt p of None \<Rightarrow> kt_scheduledAt t | Some d \<Rightarrow> Some d),
       kt_version := kt_version t + 1, kt_updatedAt := at\<rparr>"

definition kb_update :: "zod \<Rightarrow> ('s, payload) chronicle_ops \<Rightarrow> env \<Rightarrow> string \<Rightarrow> task_update \<Rightarrow>
    's kanban_store \<Rightarrow> 's kanban_store \<times> (kanban_error + kanban_task)" where
  "kb_update z ops env taskId p st =
     (case map_of (ks_tasks st) taskId of
        None \<Rightarrow> (st, Inl (KTaskNotFound taskId))
      | Some current \<Rightarrow>
          if up_expectedVersion p \<noteq> kt_version current
          then (st, Inl (KVersionConflict taskId (up_expectedVersion p) (kt_version current)))
          else
            let t = patched_task (coalesce (up_at p) (env_now env 0)) p current
            in if \<not> task_ok z t then (st, Inl KZodError)
               else kb_commit ops (env_now env 2) taskId
                 [kanbanTaskUpdatedEvent (env_uuid env 0) (env_now env 1) None t]
                 (kt_version current + 1) t st)"

record comment_input =
  ci_author :: string
  ci_body :: string
  ci_at :: "string option"

definition kb_comment :: "('s, payload) chronicle_ops \<Rightarrow> env \<Rightarrow> string \<Rightarrow> comment_input \<Rightarrow>
    's kanban_store \<Rightarrow> 's kanban_store \<times> (kanban_error + kanban_task)" where
  "kb_comment ops env taskId inp st =
     (case map_of (ks_tasks st) taskId of
        None \<Rightarrow> (st, Inl (KTaskNotFound taskId))
      | Some current \<Rightarrow>
          let c = \<lparr>cm_id = env_uuid env 0, cm_author = ci_author inp, cm_body = ci_body inp,
                cm_at = coalesce (ci_at inp) (env_now env 0)\<rparr>
          in kb_commit ops (env_now env 2) taskId
               [kanbanTaskCommentedEvent (env_uuid env 1) (env_now env 1) None taskId c]
               (kt_version current + 1)
               (current\<lparr>kt_comments := kt_comments current @ [c],
                  kt_version := kt_version current + 1, kt_updatedAt := cm_at c\<rparr>) st)"

fun rebuild_streams :: "('s, payload) chronicle_ops \<Rightarrow> string list \<Rightarrow> 's kanban_store \<Rightarrow>
    's kanban_store \<times> kanban_error option" where
  "rebuild_streams ops [] st = (st, None)"
| "rebuild_streams ops (sid # sids) st =
     (if \<not> starts_with ''kanban:'' sid then rebuild_streams ops sids st
      else case op_read ops sid 0 (ks_chronicle st) of (evs, readError) \<Rightarrow>
        (case fold_stream None evs of
           Inl err \<Rightarrow> (st, Some err)
         | Inr t \<Rightarrow> (case readError of
             Some err \<Rightarrow> (st, Some (KStoreError err))
           | None \<Rightarrow> rebuild_streams ops sids (case t of None \<Rightarrow> st | Some t \<Rightarrow> kb_index t st))))"

definition kb_rebuild :: "('s, payload) chronicle_ops \<Rightarrow> 's kanban_store \<Rightarrow>
    's kanban_store \<times> kanban_error option" where
  "kb_rebuild ops st =
     rebuild_streams ops (op_streams ops (ks_chronicle st))
       (st\<lparr>ks_tasks := [], ks_idempotency := []\<rparr>)"

definition kb_close :: "'s kanban_store \<Rightarrow> 's kanban_store" where
  "kb_close st = st\<lparr>ks_tasks := [], ks_idempotency := []\<rparr>"

section \<open>Histories\<close>

datatype kanban_op =
    OpCreate new_task_init
  | OpTransition string transition_command
  | OpRenewLease string string string
  | OpUpdate string task_update
  | OpComment string comment_input

fun kb_exec :: "zod \<Rightarrow> ('s, payload) chronicle_ops \<Rightarrow> env \<Rightarrow> kanban_op \<Rightarrow> 's kanban_store \<Rightarrow>
    's kanban_store \<times> (kanban_error + kanban_task)" where
  "kb_exec z ops env (OpCreate i) st = kb_create z ops env i st"
| "kb_exec z ops env (OpTransition t cmd) st = kb_transition ops env t cmd st"
| "kb_exec z ops env (OpRenewLease t l e) st = kb_renewLease ops env t l e st"
| "kb_exec z ops env (OpUpdate t p) st = kb_update z ops env t p st"
| "kb_exec z ops env (OpComment t i) st = kb_comment ops env t i st"

fun kb_run :: "zod \<Rightarrow> ('s, payload) chronicle_ops \<Rightarrow> (env \<times> kanban_op) list \<Rightarrow> 's kanban_store \<Rightarrow>
    's kanban_store" where
  "kb_run z ops [] st = st"
| "kb_run z ops ((env, p) # rest) st = kb_run z ops rest (fst (kb_exec z ops env p st))"

end
