(* ===== verification/HostChronicle.thy ===== *)
theory HostChronicle
  imports HostEvents ChronicleMemory ChronicleSqlite
begin

text \<open>
  The one Chronicle of a Host: a store under the Host's registry. The components that write
  to it prove their lemmas in this locale; its two interpretations are the in-memory and the
  SQLite store.
\<close>

locale host_chronicle = chronicle_store ops z "host_registry z" inv view
  for ops :: "('s, payload) chronicle_ops"
    and z :: zod
    and inv :: "'s \<Rightarrow> bool"
    and view :: "'s \<Rightarrow> payload streams"

interpretation mem_host: host_chronicle "mem_ops z" z "mem_inv z (host_registry z)" mem_view
  for z :: zod
  by (intro host_chronicle.intro mem.chronicle_store_axioms)

interpretation sqlite_host: host_chronicle "sqlite_ops z (host_registry z)" z
    "sqlite_inv z (host_registry z)" sqlite_view
  for z :: zod
  by (intro host_chronicle.intro sqlite.chronicle_store_axioms)

abbreviation host_sqlite :: "zod \<Rightarrow> (payload sqlite_db, payload) chronicle_ops" where
  "host_sqlite z \<equiv> sqlite_ops z (host_registry z)"

text \<open>Every reading of the clock is a date-time.\<close>

definition clock_ok :: "zod \<Rightarrow> env \<Rightarrow> bool" where
  "clock_ok z env \<longleftrightarrow> (\<forall>n. z_datetime z (env_now env n))"

lemma clock_okD [simp]: "clock_ok z env \<Longrightarrow> z_datetime z (env_now env n)"
  by (simp add: clock_ok_def)

lemma sqlite_new_view: "sqlite_view sqlite_new sid = []"
  by (simp add: sqlite_new_def sqlite_view_def sqlite_rows_def)

end
