(* ===== verification/KanbanProjection.thy ===== *)
theory KanbanProjection
  imports KanbanStore HostChronicle
begin

text \<open>
  The projection follows the log: the invariant that ties the \<open>Map\<close>s of
  \<open>ChronicleKanbanStore\<close> to the task streams, kept by every operation over any store that
  satisfies the Chronicle contract, and what \<open>rebuild\<close> recovers from the log.
\<close>

section \<open>The invariant\<close>

text \<open>
  Equality up to \<open>updatedAt\<close>, the one field on which a replay may differ: \<open>comment\<close> stamps
  it on the live task, folding the comment event does not.
\<close>

definition same_task :: "kanban_task \<Rightarrow> kanban_task \<Rightarrow> bool" where
  "same_task a b \<longleftrightarrow> a\<lparr>kt_updatedAt := kt_updatedAt b\<rparr> = b"

lemma same_task_refl [simp]: "same_task t t"
  by (simp add: same_task_def)

lemma same_task_sel:
  assumes "same_task a b"
  shows "kt_id b = kt_id a" "kt_status b = kt_status a" "kt_version b = kt_version a"
    "kt_claim b = kt_claim a" "kt_comments b = kt_comments a"
    "kt_idempotencyKey b = kt_idempotencyKey a" "kt_endedAt b = kt_endedAt a"
proof -
  from assms have b: "b = a\<lparr>kt_updatedAt := kt_updatedAt b\<rparr>" by (simp add: same_task_def)
  show "kt_id b = kt_id a" "kt_status b = kt_status a" "kt_version b = kt_version a"
    "kt_claim b = kt_claim a" "kt_comments b = kt_comments a"
    "kt_idempotencyKey b = kt_idempotencyKey a" "kt_endedAt b = kt_endedAt a"
    by (subst b, simp)+
qed

definition stream_folds :: "payload chronicle_event list \<Rightarrow> kanban_task \<Rightarrow> bool" where
  "stream_folds es t \<longleftrightarrow> (\<exists>t'. fold_stream None es = Inr (Some t') \<and> same_task t t')"

text \<open>A projected task: under its own id, one version per event, the fold of its stream.\<close>

definition task_projected :: "payload streams \<Rightarrow> string \<Rightarrow> kanban_task \<Rightarrow> bool" where
  "task_projected v taskId t \<longleftrightarrow>
     kt_id t = taskId \<and> kt_version t = int (length (v (kanbanStreamId taskId))) \<and>
     stream_folds (v (kanbanStreamId taskId)) t \<and> lifecycle_inv t"

fun entry_follows :: "payload streams \<Rightarrow> string \<Rightarrow> kanban_task option \<Rightarrow> bool" where
  "entry_follows v taskId None \<longleftrightarrow> v (kanbanStreamId taskId) = []"
| "entry_follows v taskId (Some t) \<longleftrightarrow> task_projected v taskId t"

definition keys_unique :: "(string, kanban_task) jsmap \<Rightarrow> (string, string) jsmap \<Rightarrow> bool" where
  "keys_unique tasks idem \<longleftrightarrow>
     (\<forall>k taskId. map_of idem k = Some taskId \<longleftrightarrow>
        (\<exists>t. map_of tasks taskId = Some t \<and> kt_idempotencyKey t = Some k))"

definition kb_inv :: "('s \<Rightarrow> bool) \<Rightarrow> ('s \<Rightarrow> payload streams) \<Rightarrow> 's kanban_store \<Rightarrow> bool" where
  "kb_inv cinv view st \<longleftrightarrow>
     cinv (ks_chronicle st) \<and> jsmap_wf (ks_tasks st) \<and>
     (\<forall>taskId. entry_follows (view (ks_chronicle st)) taskId (map_of (ks_tasks st) taskId)) \<and>
     keys_unique (ks_tasks st) (ks_idempotency st)"

lemma kb_new_inv: "cinv s \<Longrightarrow> \<forall>taskId. view s (kanbanStreamId taskId) = [] \<Longrightarrow> kb_inv cinv view (kb_new s)"
  by (simp add: kb_inv_def kb_new_def keys_unique_def)

lemma kb_inv_task:
  "kb_inv cinv view st \<Longrightarrow> map_of (ks_tasks st) taskId = Some t \<Longrightarrow>
   task_projected (view (ks_chronicle st)) taskId t"
  by (metis kb_inv_def entry_follows.simps(2))

lemma kb_inv_no_task:
  "kb_inv cinv view st \<Longrightarrow> map_of (ks_tasks st) taskId = None \<Longrightarrow>
   view (ks_chronicle st) (kanbanStreamId taskId) = []"
  by (metis kb_inv_def entry_follows.simps(1))

text \<open>
  The environment of an operation: its uuids are uuids, none of them the id of a stored
  event, and its clock readings are ISO date-times.
\<close>

definition env_ok :: "zod \<Rightarrow> env \<Rightarrow> bool" where
  "env_ok z env \<longleftrightarrow> (\<forall>n. z_uuid z (env_uuid env n)) \<and> (\<forall>n. z_datetime z (env_now env n))"

definition env_fresh :: "payload streams \<Rightarrow> env \<Rightarrow> bool" where
  "env_fresh v env \<longleftrightarrow> (\<forall>n sid. \<forall>e\<in>set (v sid). ev_id e \<noteq> env_uuid env n)"

section \<open>Folding what an operation wrote\<close>

lemma fold_task_event:
  assumes "ev_type e = kanban_event_name k" and "k \<in> {TaskCreated, TaskStatusChanged, TaskUpdated}"
    and "ev_payload e = TaskP p" and "payload_task p = Some t"
  shows "foldTask task e = Inr t"
  using assms by (auto simp: foldTask_def simp del: kanban_event_name.simps)

lemma fold_comment_event:
  assumes "ev_type e = kanban_event_name TaskCommented" and "ev_payload e = TaskP (KCommentedP c)"
  shows "foldTask (Some t) e =
    Inr (t\<lparr>kt_comments := kt_comments t @ [c], kt_version := kt_version t + 1\<rparr>)"
  using assms by (auto simp: foldTask_def simp del: kanban_event_name.simps)

lemma fold_renewed_event:
  assumes "ev_type e = kanban_event_name TaskLeaseRenewed"
    and "ev_payload e = TaskP (KLeaseRenewedP leaseId expiresAt)"
    and "kt_status t = KRunning" and "kt_claim t = Some c" and "cl_leaseId c = leaseId"
  shows "foldTask (Some t) e =
    Inr (t\<lparr>kt_claim := Some (c\<lparr>cl_expiresAt := expiresAt\<rparr>), kt_version := kt_version t + 1\<rparr>)"
  using assms by (auto simp: foldTask_def simp del: kanban_event_name.simps)

lemma kanban_event_sel [simp]:
  "ev_type (kanban_event k u n a taskId p) = kanban_event_name k"
  "ev_payload (kanban_event k u n a taskId p) = TaskP p"
  "ev_id (kanban_event k u n a taskId p) = u"
  by (simp_all add: kanban_event_def)

lemmas kanban_builders = kanbanTaskCreatedEvent_def kanbanTaskStatusChangedEvent_def
  kanbanTaskLeaseRenewedEvent_def kanbanTaskUpdatedEvent_def kanbanTaskCommentedEvent_def

text \<open>
  What a committed event must be: folding it after any task that equals the current one up
  to \<open>updatedAt\<close> gives the new projection up to \<open>updatedAt\<close>.
\<close>

definition event_advances :: "kanban_task option \<Rightarrow> payload new_event \<Rightarrow> kanban_task \<Rightarrow> bool" where
  "event_advances cur e t \<longleftrightarrow>
     (\<forall>cur' sid n now. rel_option same_task cur cur' \<longrightarrow>
        (\<exists>t'. foldTask cur' (stored_event sid n now e) = Inr t' \<and> same_task t t'))"

lemma event_advances_task:
  assumes "k \<in> {TaskCreated, TaskStatusChanged, TaskUpdated}" and "payload_task p = Some t"
  shows "event_advances cur (kanban_event k u n a taskId p) t"
proof -
  have "foldTask cur' (stored_event sid m now (kanban_event k u n a taskId p)) = Inr t" for cur' sid m now
    using assms by (intro fold_task_event) auto
  then show ?thesis by (auto simp: event_advances_def)
qed

lemma event_advances_comment:
  "event_advances (Some t) (kanban_event TaskCommented u n a taskId (KCommentedP c))
     (t\<lparr>kt_comments := kt_comments t @ [c], kt_version := kt_version t + 1, kt_updatedAt := at\<rparr>)"
  unfolding event_advances_def
proof (intro allI impI)
  fix cur' sid m now
  assume "rel_option same_task (Some t) cur'"
  then obtain t' where cur': "cur' = Some t'" and same: "same_task t t'" by (auto simp: option_rel_Some1)
  let ?e = "stored_event sid m now (kanban_event TaskCommented u n a taskId (KCommentedP c))"
  have "foldTask cur' ?e =
      Inr (t'\<lparr>kt_comments := kt_comments t' @ [c], kt_version := kt_version t' + 1\<rparr>)"
    unfolding cur' by (rule fold_comment_event) simp_all
  moreover have "same_task (t\<lparr>kt_comments := kt_comments t @ [c], kt_version := kt_version t + 1,
      kt_updatedAt := at\<rparr>) (t'\<lparr>kt_comments := kt_comments t' @ [c], kt_version := kt_version t' + 1\<rparr>)"
    using same by (cases t; cases t') (auto simp: same_task_def)
  ultimately show "\<exists>t''. foldTask cur' ?e = Inr t'' \<and> same_task
      (t\<lparr>kt_comments := kt_comments t @ [c], kt_version := kt_version t + 1, kt_updatedAt := at\<rparr>) t''"
    by blast
qed

lemma event_advances_renewed:
  assumes "kt_status t = KRunning" and "kt_claim t = Some c"
  shows "event_advances (Some t)
     (kanban_event TaskLeaseRenewed u n a taskId (KLeaseRenewedP (cl_leaseId c) expiresAt))
     (t\<lparr>kt_claim := Some (c\<lparr>cl_expiresAt := expiresAt\<rparr>), kt_version := kt_version t + 1\<rparr>)"
  unfolding event_advances_def
proof (intro allI impI)
  fix cur' sid m now
  assume "rel_option same_task (Some t) cur'"
  then obtain t' where cur': "cur' = Some t'" and same: "same_task t t'" by (auto simp: option_rel_Some1)
  let ?e = "stored_event sid m now
    (kanban_event TaskLeaseRenewed u n a taskId (KLeaseRenewedP (cl_leaseId c) expiresAt))"
  have "foldTask cur' ?e =
      Inr (t'\<lparr>kt_claim := Some (c\<lparr>cl_expiresAt := expiresAt\<rparr>), kt_version := kt_version t' + 1\<rparr>)"
    unfolding cur' by (rule fold_renewed_event) (simp_all add: assms same_task_sel [OF same])
  moreover have "same_task (t\<lparr>kt_claim := Some (c\<lparr>cl_expiresAt := expiresAt\<rparr>),
      kt_version := kt_version t + 1\<rparr>) (t'\<lparr>kt_claim := Some (c\<lparr>cl_expiresAt := expiresAt\<rparr>),
      kt_version := kt_version t' + 1\<rparr>)"
    using same by (cases t; cases t') (auto simp: same_task_def)
  ultimately show "\<exists>t''. foldTask cur' ?e = Inr t'' \<and> same_task
      (t\<lparr>kt_claim := Some (c\<lparr>cl_expiresAt := expiresAt\<rparr>), kt_version := kt_version t + 1\<rparr>) t''"
    by blast
qed

text \<open>Indexing a task keeps the keys in step, when its key is its own or nobody's.\<close>

fun key_own :: "kanban_task option \<Rightarrow> string option \<Rightarrow> (string, string) jsmap \<Rightarrow> bool" where
  "key_own (Some old) key idem \<longleftrightarrow> kt_idempotencyKey old = key"
| "key_own None None idem \<longleftrightarrow> True"
| "key_own None (Some k) idem \<longleftrightarrow> map_of idem k = None"

lemma keys_uniqueD:
  "keys_unique tasks idem \<Longrightarrow> map_of tasks x = Some u \<Longrightarrow> kt_idempotencyKey u = Some k \<Longrightarrow>
   map_of idem k = Some x"
  by (auto simp: keys_unique_def)

lemma key_own_unique:
  assumes "keys_unique tasks idem" and "key_own (map_of tasks y) (Some k) idem"
    and "map_of tasks x = Some u" and "kt_idempotencyKey u = Some k"
  shows "x = y"
  using assms keys_uniqueD [OF assms(1,3,4)]
  by (cases "map_of tasks y") (auto dest: keys_uniqueD)

lemma keys_unique_set:
  assumes keys: "keys_unique tasks idem"
    and key: "key_own (map_of tasks (kt_id t)) (kt_idempotencyKey t) idem"
  shows "keys_unique (jsmap_set (kt_id t) t tasks) (case kt_idempotencyKey t of
      None \<Rightarrow> idem | Some k \<Rightarrow> jsmap_set k (kt_id t) idem)"
proof -
  have eq: "map_of idem k = Some x \<longleftrightarrow>
      (\<exists>u. map_of tasks x = Some u \<and> kt_idempotencyKey u = Some k)" for k x
    using keys by (simp add: keys_unique_def)
  show ?thesis
  proof (cases "kt_idempotencyKey t")
    case None
    with key have "kt_idempotencyKey u \<noteq> Some k" if "map_of tasks (kt_id t) = Some u" for u k
      using that by simp
    with None eq show ?thesis by (simp add: keys_unique_def)
  next
    case (Some k)
    note own = key_own_unique [OF keys key [unfolded Some]]
    have "map_of idem k' \<noteq> Some (kt_id t)" if "k' \<noteq> k" for k'
      using key eq that Some by (cases "map_of tasks (kt_id t)") auto
    with Some eq own show ?thesis by (simp add: keys_unique_def) metis
  qed
qed

lemma keys_unique_index:
  "keys_unique (ks_tasks st) (ks_idempotency st) \<Longrightarrow>
   key_own (map_of (ks_tasks st) (kt_id t)) (kt_idempotencyKey t) (ks_idempotency st) \<Longrightarrow>
   keys_unique (ks_tasks (kb_index t st)) (ks_idempotency (kb_index t st))"
  by (simp add: kb_index_def keys_unique_set)

section \<open>Histories of operations\<close>

text \<open>Each operation runs in a well-formed environment whose uuids are new to the log.\<close>

fun history_ok :: "zod \<Rightarrow> ('s, payload) chronicle_ops \<Rightarrow> ('s \<Rightarrow> payload streams) \<Rightarrow>
    (env \<times> kanban_op) list \<Rightarrow> 's kanban_store \<Rightarrow> bool" where
  "history_ok z ops view [] st \<longleftrightarrow> True"
| "history_ok z ops view ((env, p) # rest) st \<longleftrightarrow>
     env_ok z env \<and> env_fresh (view (ks_chronicle st)) env \<and>
     history_ok z ops view rest (fst (kb_exec z ops env p st))"

text \<open>What the log says of a task: the fold of its stream.\<close>

definition logged_task :: "payload streams \<Rightarrow> string \<Rightarrow> kanban_task option" where
  "logged_task v taskId = (case fold_stream None (v (kanbanStreamId taskId)) of
     Inl err \<Rightarrow> None | Inr t \<Rightarrow> t)"

lemma entry_logged:
  assumes "entry_follows v taskId entry"
  shows "rel_option same_task entry (logged_task v taskId)"
    and "fold_stream None (v (kanbanStreamId taskId)) = Inr (logged_task v taskId)"
  using assms
  by (cases entry; auto simp: logged_task_def task_projected_def stream_folds_def)+

lemma entry_follows_logged:
  assumes "entry_follows v x entry"
  shows "entry_follows v x (logged_task v x)"
proof (cases entry)
  case None
  with assms show ?thesis by (simp add: logged_task_def)
next
  case (Some t)
  with assms obtain t' where t': "logged_task v x = Some t'" "same_task t t'"
    using entry_logged(1) [OF assms] by (auto simp: option_rel_Some1)
  have "fold_stream None (v (kanbanStreamId x)) = Inr (Some t')"
    using entry_logged(2) [OF assms] t'(1) by simp
  then have "stream_folds (v (kanbanStreamId x)) t'" by (simp add: stream_folds_def)
  with assms Some t' show ?thesis
    by (simp add: task_projected_def same_task_sel [OF t'(2)] lifecycle_inv_def claim_inv_def)
qed

lemma keys_unique_same:
  assumes "keys_unique a i" and "keys_unique b j"
    and same: "\<And>x. rel_option same_task (map_of a x) (map_of b x)"
  shows "map_of i = map_of j"
proof -
  have "(\<exists>t. map_of a x = Some t \<and> kt_idempotencyKey t = Some k) \<longleftrightarrow>
      (\<exists>t. map_of b x = Some t \<and> kt_idempotencyKey t = Some k)" for k x
    using same [of x]
    by (cases "map_of a x"; cases "map_of b x") (simp_all add: same_task_sel(6))
  with assms(1,2) have "map_of i k = Some x \<longleftrightarrow> map_of j k = Some x" for k x
    by (simp add: keys_unique_def)
  then show ?thesis by (metis ext not_Some_eq)
qed

text \<open>The two maps of a store hold the logged tasks of the streams outside \<open>todo\<close>.\<close>

definition partly_rebuilt :: "payload streams \<Rightarrow> string list \<Rightarrow> 's kanban_store \<Rightarrow> bool" where
  "partly_rebuilt v todo st \<longleftrightarrow> jsmap_wf (ks_tasks st) \<and>
     keys_unique (ks_tasks st) (ks_idempotency st) \<and>
     (\<forall>x. map_of (ks_tasks st) x = (if List.member todo (kanbanStreamId x) then None else logged_task v x))"

text \<open>The tasks of a log, each under its own id and with a key no other has.\<close>

definition log_sound :: "payload streams \<Rightarrow> bool" where
  "log_sound v \<longleftrightarrow> (\<forall>x. fold_stream None (v (kanbanStreamId x)) = Inr (logged_task v x)) \<and>
     (\<forall>x t. logged_task v x = Some t \<longrightarrow> kt_id t = x) \<and>
     (\<forall>x y t u k. logged_task v x = Some t \<longrightarrow> logged_task v y = Some u \<longrightarrow>
        kt_idempotencyKey t = Some k \<longrightarrow> kt_idempotencyKey u = Some k \<longrightarrow> x = y)"

lemma kb_inv_log_sound:
  assumes "kb_inv cinv view st"
  shows "log_sound (view (ks_chronicle st))"
proof -
  let ?v = "view (ks_chronicle st)"
  have e: "entry_follows ?v x (map_of (ks_tasks st) x)" for x using assms by (simp add: kb_inv_def)
  note logged = entry_logged [OF e]
  have live: "\<exists>u. map_of (ks_tasks st) x = Some u \<and> same_task u t \<and> kt_id u = x"
    if "logged_task ?v x = Some t" for x t
  proof -
    from logged(1) [of x] that obtain u where u: "map_of (ks_tasks st) x = Some u" "same_task u t"
      by (auto simp: option_rel_Some2)
    with e [of x] show ?thesis by (auto simp: task_projected_def)
  qed
  have keys: "keys_unique (ks_tasks st) (ks_idempotency st)" using assms by (simp add: kb_inv_def)
  have "x = y" if t: "logged_task ?v x = Some t" "logged_task ?v y = Some u"
    "kt_idempotencyKey t = Some k" "kt_idempotencyKey u = Some k" for x y t u k
  proof -
    from live [OF t(1)] live [OF t(2)] obtain t' u' where
      "map_of (ks_tasks st) x = Some t'" "same_task t' t"
      "map_of (ks_tasks st) y = Some u'" "same_task u' u" by blast
    with t(3,4) have "map_of (ks_idempotency st) k = Some x" "map_of (ks_idempotency st) k = Some y"
      by (auto intro!: keys_uniqueD [OF keys] simp: same_task_sel)
    then show ?thesis by simp
  qed
  with logged(2) live show ?thesis by (auto simp: log_sound_def same_task_sel dest!: live)
qed

lemma rebuilt_index:
  assumes log: "log_sound v" and part: "partly_rebuilt v (kanbanStreamId x # sids) st"
    and new: "kanbanStreamId x \<notin> set sids" and t: "logged_task v x = Some t"
  shows "partly_rebuilt v sids (kb_index t st)"
proof -
  have x: "kt_id t = x" using log t by (simp add: log_sound_def)
  have none: "map_of (ks_tasks st) x = None" using part by (simp add: partly_rebuilt_def)
  have "key_own (map_of (ks_tasks st) (kt_id t)) (kt_idempotencyKey t) (ks_idempotency st)"
  proof (cases "kt_idempotencyKey t")
    case (Some k)
    have "map_of (ks_idempotency st) k \<noteq> Some y" for y
    proof
      assume "map_of (ks_idempotency st) k = Some y"
      with part obtain u where u: "map_of (ks_tasks st) y = Some u" "kt_idempotencyKey u = Some k"
        by (auto simp: partly_rebuilt_def keys_unique_def)
      with part have "logged_task v y = Some u" by (auto simp: partly_rebuilt_def split: if_splits)
      with log t u(2) Some have "x = y" unfolding log_sound_def by blast
      with none u(1) show False by simp
    qed
    with Some none x show ?thesis by (cases "map_of (ks_idempotency st) k") auto
  qed (use none x in simp)
  with part have "keys_unique (ks_tasks (kb_index t st)) (ks_idempotency (kb_index t st))"
    by (intro keys_unique_index) (simp_all add: partly_rebuilt_def)
  moreover have "map_of (ks_tasks (kb_index t st)) y =
      (if List.member sids (kanbanStreamId y) then None else logged_task v y)" for y
    using part new t x by (auto simp: partly_rebuilt_def kb_index_def)
  ultimately show ?thesis using part by (simp add: partly_rebuilt_def kb_index_def)
qed

text \<open>Tasks stay: no operation removes one, changes its key or turns its version back.\<close>

definition task_grew :: "kanban_task option \<Rightarrow> kanban_task option \<Rightarrow> bool" where
  "task_grew a b \<longleftrightarrow> (\<forall>t. a = Some t \<longrightarrow> (\<exists>t'. b = Some t' \<and>
     kt_idempotencyKey t' = kt_idempotencyKey t \<and> kt_version t \<le> kt_version t'))"

lemma task_grew_refl [simp]: "task_grew a a"
  by (simp add: task_grew_def)

lemma task_grew_trans: "task_grew a b \<Longrightarrow> task_grew b c \<Longrightarrow> task_grew a c"
  unfolding task_grew_def by fastforce

section \<open>Every operation keeps the invariant\<close>

context host_chronicle
begin

text \<open>
  One commit at the next version, of an event that advances the task: the only way the
  store writes. The key condition says that the task's idempotency key is not another's.
\<close>

lemma commit_inv:
  assumes st: "kb_inv inv view st" and now: "z_datetime z now"
    and adv: "event_advances (map_of (ks_tasks st) taskId) e t"
    and t: "kt_id t = taskId" "lifecycle_inv t"
      "kt_version t = int (length (view (ks_chronicle st) (kanbanStreamId taskId))) + 1"
    and key: "key_own (map_of (ks_tasks st) taskId) (kt_idempotencyKey t) (ks_idempotency st)"
    and com: "kb_commit ops now taskId [e] (kt_version t) t st = (st', res)"
  shows "kb_inv inv view st'"
proof -
  let ?s = "ks_chronicle st" and ?sid = "kanbanStreamId taskId"
  have inv: "inv ?s" and wf: "jsmap_wf (ks_tasks st)" and
    keys: "keys_unique (ks_tasks st) (ks_idempotency st)"
    using st by (auto simp: kb_inv_def)
  obtain s' r where app: "op_append ops now ?sid [e] (kt_version t) ?s = (s', r)"
    by fastforce
  have inv': "inv s'" using append_refines [OF inv now _ app] by simp
  show ?thesis
  proof (cases r)
    case (Inl err)
    with append_next [OF inv now _ _ app [unfolded t(3)]] have "view s' = view ?s" by simp
    moreover from Inl app com have "st' = st\<lparr>ks_chronicle := s'\<rparr>" by (simp add: kb_commit_def)
    ultimately show ?thesis using st inv' by (simp add: kb_inv_def)
  next
    case (Inr es)
    with append_next [OF inv now _ _ app [unfolded t(3)]]
    have view': "view s' = (view ?s)(?sid := view ?s ?sid @ [stored_event ?sid (kt_version t) now e])"
      by (simp add: t(3))
    have fold: "stream_folds (view s' ?sid) t"
    proof -
      obtain cur' where "fold_stream None (view ?s ?sid) = Inr cur'"
        and "rel_option same_task (map_of (ks_tasks st) taskId) cur'"
        using kb_inv_task [OF st, of taskId] kb_inv_no_task [OF st, of taskId]
        by (cases "map_of (ks_tasks st) taskId")
          (auto simp: task_projected_def stream_folds_def)
      moreover from adv this(2) obtain t' where
        "foldTask cur' (stored_event ?sid (kt_version t) now e) = Inr t'" "same_task t t'"
        unfolding event_advances_def by blast
      ultimately show ?thesis by (simp add: view' stream_folds_def fold_stream_snoc)
    qed
    have st': "st' = kb_index t (st\<lparr>ks_chronicle := s'\<rparr>)" using Inr app com by (simp add: kb_commit_def)
    have proj: "task_projected (view s') taskId t"
      using t fold by (simp add: task_projected_def view')
    have others: "entry_follows (view s') x (map_of (ks_tasks st) x)" if "x \<noteq> taskId" for x
      using kb_inv_task [OF st, of x] kb_inv_no_task [OF st, of x] that
      by (cases "map_of (ks_tasks st) x") (auto simp: view' task_projected_def)
    have "keys_unique (ks_tasks st') (ks_idempotency st')"
      unfolding st' by (rule keys_unique_index) (use keys key t(1) in simp_all)
    with inv' wf proj others t(1) show ?thesis
      by (auto simp: kb_inv_def st' kb_index_def split: option.splits)
  qed
qed

lemma create_taken:
  assumes st: "kb_inv inv view st" and env: "env_ok z env" "env_fresh (view (ks_chronicle st)) env"
    and com: "kb_commit ops (env_now env 2) (kt_id t)
      [kanbanTaskCreatedEvent (env_uuid env 1) (env_now env 1) None t] 1 t st = (st', res)"
    and taken: "map_of (ks_tasks st) (kt_id t) = Some old"
  shows "kb_inv inv view st' \<and> ks_tasks st' = ks_tasks st \<and> (\<exists>err. res = Inl err)"
proof -
  let ?e = "kanbanTaskCreatedEvent (env_uuid env 1) (env_now env 1) None t"
  let ?v = "view (ks_chronicle st)"
  have now: "z_datetime z (env_now env 2)" using env(1) by (simp add: env_ok_def)
  from kb_inv_task [OF st taken] have "?v (kanbanStreamId (kt_id t)) \<noteq> []"
    by (auto simp: task_projected_def stream_folds_def)
  then obtain e0 es0 where v: "?v (kanbanStreamId (kt_id t)) = e0 # es0"
    by (cases "?v (kanbanStreamId (kt_id t))") auto
  with env(2) have ids: "ev_id e0 \<noteq> env_uuid env 1"
    unfolding env_fresh_def by (metis list.set_intros(1))
  obtain s' r where app: "op_append ops (env_now env 2) (kanbanStreamId (kt_id t)) [?e] 1
      (ks_chronicle st) = (s', r)" by fastforce
  have inv: "inv (ks_chronicle st)" using st by (simp add: kb_inv_def)
  from append_refines [OF inv now _ app] have "inv s'"
    and sp: "spec_append z (host_registry z) (env_now env 2) (kanbanStreamId (kt_id t)) [?e] 1 ?v =
      (view s', r)" by simp_all
  moreover from sp v ids have "\<exists>err. r = Inl err \<and> view s' = ?v"
    by (auto simp: spec_append_def Let_def kanban_builders split: sum.splits if_splits)
  ultimately show ?thesis using app com st by (auto simp: kb_commit_def kb_inv_def)
qed

lemma create_inv:
  assumes st: "kb_inv inv view st" and env: "env_ok z env" "env_fresh (view (ks_chronicle st)) env"
    and run: "kb_create z ops env i st = (st', res)"
  shows "kb_inv inv view st'"
proof (cases "Option.bind (Option.bind (nt_idempotencyKey i) (map_of (ks_idempotency st)))
    (map_of (ks_tasks st))")
  case (Some existing)
  with run st show ?thesis by (simp add: kb_create_def)
next
  case none: None
  show ?thesis
  proof (cases "newKanbanTask z (env_uuid env 0) (env_now env 0) i")
    case (Inl err)
    with none run st show ?thesis by (simp add: kb_create_def)
  next
    case (Inr t)
    let ?e = "kanbanTaskCreatedEvent (env_uuid env 1) (env_now env 1) None t"
    from Inr have t: "t = initial_task (env_uuid env 0) (env_now env 0) i" by (simp add: newKanbanTask_Inr)
    from none Inr run have com: "kb_commit ops (env_now env 2) (kt_id t) [?e] 1 t st = (st', res)"
      by (simp add: kb_create_def)
    have now: "z_datetime z (env_now env 2)" using env(1) by (simp add: env_ok_def)
    show ?thesis
    proof (cases "map_of (ks_tasks st) (kt_id t)")
      case None
      have "key_own (map_of (ks_tasks st) (kt_id t)) (kt_idempotencyKey t) (ks_idempotency st)"
      proof (cases "nt_idempotencyKey i")
        case (Some k)
        have "map_of (ks_idempotency st) k = None"
        proof (rule ccontr)
          assume "map_of (ks_idempotency st) k \<noteq> None"
          then obtain x where "map_of (ks_idempotency st) k = Some x" by blast
          moreover from this st obtain u where "map_of (ks_tasks st) x = Some u"
            by (auto simp: kb_inv_def keys_unique_def)
          ultimately show False using none Some by simp
        qed
        then show ?thesis using None Some t by simp
      qed (use None t in simp)
      with com kb_inv_no_task [OF st None] t show ?thesis
        by (intro commit_inv [OF st now, of "kt_id t" ?e t])
          (auto simp: kanban_builders intro!: event_advances_task)
    next
      case (Some old)
      with create_taken [OF st env com] show ?thesis by blast
    qed
  qed
qed

text \<open>The four mutations of an existing task all commit at its next version.\<close>

lemma mutation_inv:
  assumes st: "kb_inv inv view st" and now: "z_datetime z now"
    and cur: "map_of (ks_tasks st) taskId = Some t"
    and adv: "event_advances (Some t) e t'"
    and t': "kt_id t' = kt_id t" "lifecycle_inv t'" "kt_version t' = kt_version t + 1"
      "kt_idempotencyKey t' = kt_idempotencyKey t"
    and com: "kb_commit ops now taskId [e] (kt_version t + 1) t' st = (st', res)"
  shows "kb_inv inv view st'"
  using kb_inv_task [OF st cur] adv cur t' com
  by (intro commit_inv [OF st now, of taskId e t']) (auto simp: task_projected_def)

lemma transition_inv:
  assumes st: "kb_inv inv view st" and env: "env_ok z env"
    and run: "kb_transition ops env taskId cmd st = (st', res)"
  shows "kb_inv inv view st'"
proof (cases "map_of (ks_tasks st) taskId")
  case None
  with run st show ?thesis by (simp add: kb_transition_def)
next
  case cur: (Some t)
  show ?thesis
  proof (cases "applyTransition (env_now env 0) t cmd")
    case (Inl err)
    with run st cur show ?thesis by (simp add: kb_transition_def)
  next
    case (Inr t')
    note step = applyTransition_Inr [OF Inr] applyTransition_lifecycle [OF Inr]
    from run cur Inr step(1) show ?thesis
      by (intro mutation_inv [OF st _ cur, of "env_now env 2"
            "kanbanTaskStatusChangedEvent (env_uuid env 0) (env_now env 1) None (kt_status t) t'
              (tc_reason cmd)" t' st' res])
        (use step env in \<open>auto simp: kb_transition_def kanban_builders env_ok_def
           intro!: event_advances_task\<close>)
  qed
qed

lemma renewLease_inv:
  assumes st: "kb_inv inv view st" and env: "env_ok z env"
    and run: "kb_renewLease ops env taskId leaseId expiresAt st = (st', res)"
  shows "kb_inv inv view st'"
proof (cases "\<exists>t c. map_of (ks_tasks st) taskId = Some t \<and> kt_status t = KRunning \<and>
    kt_claim t = Some c \<and> cl_leaseId c = leaseId")
  case False
  with run st show ?thesis by (auto simp: kb_renewLease_def split: option.splits if_splits)
next
  case True
  then obtain t c where cur: "map_of (ks_tasks st) taskId = Some t" and t: "kt_status t = KRunning"
    "kt_claim t = Some c" "cl_leaseId c = leaseId" by blast
  have "lifecycle_inv t" using kb_inv_task [OF st cur] by (simp add: task_projected_def)
  moreover have "event_advances (Some t) (kanbanTaskLeaseRenewedEvent (env_uuid env 0) (env_now env 1)
      None taskId leaseId expiresAt)
      (t\<lparr>kt_claim := Some (c\<lparr>cl_expiresAt := expiresAt\<rparr>), kt_version := kt_version t + 1\<rparr>)"
    using event_advances_renewed [OF t(1,2)] t(3) by (simp add: kanban_builders)
  ultimately show ?thesis
    using run cur t env
    by (intro mutation_inv [OF st _ cur, of "env_now env 2"])
      (auto simp: kb_renewLease_def lifecycle_inv_def claim_inv_def env_ok_def)
qed

lemma update_inv:
  assumes st: "kb_inv inv view st" and env: "env_ok z env"
    and run: "kb_update z ops env taskId p st = (st', res)"
  shows "kb_inv inv view st'"
proof (cases "map_of (ks_tasks st) taskId")
  case None
  with run st show ?thesis by (simp add: kb_update_def)
next
  case cur: (Some t)
  let ?t = "patched_task (coalesce (up_at p) (env_now env 0)) p t"
  have life: "lifecycle_inv ?t" using kb_inv_task [OF st cur]
    by (simp add: task_projected_def lifecycle_inv_def claim_inv_def patched_task_def)
  show ?thesis
  proof (cases "up_expectedVersion p = kt_version t \<and> task_ok z ?t")
    case False
    with run st cur show ?thesis by (auto simp: kb_update_def Let_def split: if_splits)
  next
    case True
    with run cur have com: "kb_commit ops (env_now env 2) taskId
        [kanbanTaskUpdatedEvent (env_uuid env 0) (env_now env 1) None ?t] (kt_version t + 1) ?t st = (st', res)"
      by (simp add: kb_update_def Let_def)
    show ?thesis
      by (rule mutation_inv [OF st _ cur _ _ life _ _ com])
        (use env in \<open>auto simp: env_ok_def patched_task_def kanban_builders intro!: event_advances_task\<close>)
  qed
qed

lemma comment_inv:
  assumes st: "kb_inv inv view st" and env: "env_ok z env"
    and run: "kb_comment ops env taskId inp st = (st', res)"
  shows "kb_inv inv view st'"
proof (cases "map_of (ks_tasks st) taskId")
  case None
  with run st show ?thesis by (simp add: kb_comment_def)
next
  case cur: (Some t)
  let ?c = "\<lparr>cm_id = env_uuid env 0, cm_author = ci_author inp, cm_body = ci_body inp,
      cm_at = coalesce (ci_at inp) (env_now env 0)\<rparr>"
  let ?t = "t\<lparr>kt_comments := kt_comments t @ [?c], kt_version := kt_version t + 1,
      kt_updatedAt := cm_at ?c\<rparr>"
  have life: "lifecycle_inv ?t" using kb_inv_task [OF st cur]
    by (simp add: task_projected_def lifecycle_inv_def claim_inv_def)
  from run cur have com: "kb_commit ops (env_now env 2) taskId
      [kanbanTaskCommentedEvent (env_uuid env 1) (env_now env 1) None taskId ?c]
      (kt_version t + 1) ?t st = (st', res)"
    by (simp add: kb_comment_def Let_def)
  show ?thesis
    by (rule mutation_inv [OF st _ cur _ _ life _ _ com])
      (use env in \<open>auto simp: env_ok_def kanban_builders intro!: event_advances_comment\<close>)
qed

lemma exec_inv:
  assumes "kb_inv inv view st" and "env_ok z env" and "env_fresh (view (ks_chronicle st)) env"
  shows "kb_inv inv view (fst (kb_exec z ops env op st))"
proof -
  obtain st' res where run: "kb_exec z ops env op st = (st', res)" by fastforce
  have "kb_inv inv view st'"
    using assms run by (cases op) (auto intro: create_inv transition_inv renewLease_inv update_inv comment_inv)
  then show ?thesis by (simp add: run)
qed

text \<open>What a commit and a create do to the two maps.\<close>

lemma commit_cases:
  assumes "kb_commit ops now x evs ex t st = (st', res)"
  obtains (refused) err where "res = Inl (KStoreError err)" "ks_tasks st' = ks_tasks st"
      "ks_idempotency st' = ks_idempotency st"
  | (indexed) "res = Inr t" "ks_tasks st' = jsmap_set (kt_id t) t (ks_tasks st)"
proof -
  obtain s' r where app: "op_append ops now (kanbanStreamId x) evs ex (ks_chronicle st) = (s', r)"
    by fastforce
  show thesis
  proof (cases r)
    case (Inl err)
    with app assms show thesis by (auto simp: kb_commit_def intro: refused)
  next
    case (Inr es)
    with app assms indexed show thesis by (auto simp: kb_commit_def kb_index_def)
  qed
qed

text \<open>A created task is new: an id that the board has is refused by the log.\<close>

lemma create_cases:
  assumes st: "kb_inv inv view st" and env: "env_ok z env" "env_fresh (view (ks_chronicle st)) env"
    and run: "kb_create z ops env i st = (st', res)"
  obtains (existing) t where "st' = st" "res = Inr t" "map_of (ks_tasks st) (kt_id t) = Some t"
      "kt_idempotencyKey t = nt_idempotencyKey i"
  | (refused) err where "res = Inl err" "ks_tasks st' = ks_tasks st"
  | (created) t where "res = Inr t" "t = initial_task (env_uuid env 0) (env_now env 0) i"
      "map_of (ks_tasks st) (kt_id t) = None" "ks_tasks st' = jsmap_set (kt_id t) t (ks_tasks st)"
proof (cases "Option.bind (Option.bind (nt_idempotencyKey i) (map_of (ks_idempotency st)))
    (map_of (ks_tasks st))")
  case (Some t)
  then obtain k x where k: "nt_idempotencyKey i = Some k" "map_of (ks_idempotency st) k = Some x"
    "map_of (ks_tasks st) x = Some t" by (auto simp: bind_eq_Some_conv)
  with st have "kt_idempotencyKey t = Some k" by (auto simp: kb_inv_def keys_unique_def)
  with existing [of t] k run Some kb_inv_task [OF st k(3)] show thesis
    by (simp add: kb_create_def task_projected_def)
next
  case none: None
  show thesis
  proof (cases "newKanbanTask z (env_uuid env 0) (env_now env 0) i")
    case (Inl err)
    with none run have "res = Inl err" "st' = st" by (simp_all add: kb_create_def)
    then show thesis by (intro refused) simp_all
  next
    case (Inr t)
    then have t: "t = initial_task (env_uuid env 0) (env_now env 0) i" by (simp add: newKanbanTask_Inr)
    let ?e = "kanbanTaskCreatedEvent (env_uuid env 1) (env_now env 1) None t"
    from none Inr run have com: "kb_commit ops (env_now env 2) (kt_id t) [?e] 1 t st = (st', res)"
      by (simp add: kb_create_def)
    show thesis
    proof (cases "map_of (ks_tasks st) (kt_id t)")
      case None
      with com t show thesis by (cases rule: commit_cases) (auto intro: refused created)
    next
      case (Some old)
      with refused create_taken [OF st env com] show thesis by auto
    qed
  qed
qed

lemma commit_grew:
  assumes "kb_commit ops now y evs ex t st = (st', res)" and "map_of (ks_tasks st) y = Some old"
    and "kt_id t = y" "kt_idempotencyKey t = kt_idempotencyKey old" "kt_version t = kt_version old + 1"
  shows "task_grew (map_of (ks_tasks st) x) (map_of (ks_tasks st') x)"
  using assms(1) by (cases rule: commit_cases) (use assms(2-5) in \<open>auto simp: task_grew_def\<close>)

lemma exec_grew:
  assumes st: "kb_inv inv view st" and env: "env_ok z env" "env_fresh (view (ks_chronicle st)) env"
  shows "task_grew (map_of (ks_tasks st) x) (map_of (ks_tasks (fst (kb_exec z ops env p st))) x)"
proof -
  obtain st' res where run: "kb_exec z ops env p st = (st', res)" by fastforce
  have own: "kt_id t = y" if "map_of (ks_tasks st) y = Some t" for y t
    using kb_inv_task [OF st that] by (simp add: task_projected_def)
  have "task_grew (map_of (ks_tasks st) x) (map_of (ks_tasks st') x)"
  proof (cases p)
    case (OpCreate i)
    with run have "kb_create z ops env i st = (st', res)" by simp
    then show ?thesis
      by (cases rule: create_cases [OF st env]) (auto simp: task_grew_def)
  next
    case (OpTransition y c)
    with run show ?thesis
      by (auto simp: kb_transition_def own applyTransition_Inr split: option.splits sum.splits
          intro!: commit_grew)
  next
    case (OpRenewLease y l e)
    with run show ?thesis
      by (auto simp: kb_renewLease_def own split: option.splits if_splits intro!: commit_grew)
  next
    case (OpUpdate y u)
    with run show ?thesis
      by (auto simp: kb_update_def Let_def own patched_task_def split: option.splits if_splits
          intro!: commit_grew)
  next
    case (OpComment y c)
    with run show ?thesis
      by (auto simp: kb_comment_def Let_def own split: option.splits intro!: commit_grew)
  qed
  then show ?thesis by (simp add: run)
qed

lemma run_grew:
  "kb_inv inv view st \<Longrightarrow> history_ok z ops view hist st \<Longrightarrow>
   task_grew (map_of (ks_tasks st) x) (map_of (ks_tasks (kb_run z ops hist st)) x)"
proof (induction hist arbitrary: st)
  case (Cons h hist)
  obtain env p where h: "h = (env, p)" by (cases h)
  with Cons.prems have ok: "env_ok z env" "env_fresh (view (ks_chronicle st)) env"
    "history_ok z ops view hist (fst (kb_exec z ops env p st))" by auto
  show ?case
    using task_grew_trans [OF exec_grew [OF Cons.prems(1) ok(1,2)]
        Cons.IH [OF exec_inv [OF Cons.prems(1) ok(1,2)] ok(3)]]
    by (simp add: h)
qed simp

lemma run_inv:
  "kb_inv inv view st \<Longrightarrow> history_ok z ops view hist st \<Longrightarrow> kb_inv inv view (kb_run z ops hist st)"
proof (induction hist arbitrary: st)
  case (Cons h hist)
  then show ?case by (cases h) (auto intro: exec_inv)
qed simp

text \<open>Rebuilding reads every Kanban stream once and indexes what it folds to.\<close>

lemma rebuild_streams_log:
  assumes "inv (ks_chronicle st)" and "log_sound (view (ks_chronicle st))" and "distinct sids"
    and "partly_rebuilt (view (ks_chronicle st)) sids st"
  shows "\<exists>st'. rebuild_streams ops sids st = (st', None) \<and> ks_chronicle st' = ks_chronicle st \<and>
    partly_rebuilt (view (ks_chronicle st)) [] st'"
  using assms
proof (induction sids arbitrary: st)
  case (Cons sid sids)
  let ?v = "view (ks_chronicle st)"
  show ?case
  proof (cases "starts_with ''kanban:'' sid")
    case False
    then have "kanbanStreamId x \<noteq> sid" for x by (auto simp: kanbanStreamId_def starts_with_def)
    with Cons.prems(4) have "partly_rebuilt ?v sids st" by (auto simp: partly_rebuilt_def)
    with Cons False show ?thesis by simp
  next
    case True
    then obtain x where sid: "sid = kanbanStreamId x" by (auto simp: starts_with_iff kanbanStreamId_def)
    have fold: "fold_stream None (?v sid) = Inr (logged_task ?v x)"
      using Cons.prems(2) by (simp add: log_sound_def sid)
    have step: "rebuild_streams ops (sid # sids) st = rebuild_streams ops sids
        (case logged_task ?v x of None \<Rightarrow> st | Some t \<Rightarrow> kb_index t st)"
      using True by (simp add: read_all [OF Cons.prems(1)] fold)
    show ?thesis
    proof (cases "logged_task ?v x")
      case None
      with Cons.prems(3,4) have "partly_rebuilt ?v sids st" by (auto simp: partly_rebuilt_def sid)
      with Cons step None show ?thesis by simp
    next
      case (Some t)
      have same: "ks_chronicle (kb_index t st) = ks_chronicle st" by (simp add: kb_index_def)
      have "partly_rebuilt ?v sids (kb_index t st)"
        using Cons.prems by (intro rebuilt_index [of _ x]) (auto simp: sid Some)
      with Cons.IH [of "kb_index t st"] Cons.prems step Some same show ?thesis by simp
    qed
  qed
qed simp

lemma rebuild_correct:
  assumes st: "kb_inv inv view st"
  obtains st' where "kb_rebuild ops st = (st', None)" and "ks_chronicle st' = ks_chronicle st"
    and "rel_option same_task (map_of (ks_tasks st) x) (map_of (ks_tasks st') x)"
    and "map_of (ks_idempotency st') = map_of (ks_idempotency st)"
    and "kb_inv inv view st'"
proof -
  let ?v = "view (ks_chronicle st)" and ?st = "st\<lparr>ks_tasks := [], ks_idempotency := []\<rparr>"
  have inv: "inv (ks_chronicle st)" and keys: "keys_unique (ks_tasks st) (ks_idempotency st)"
    and e: "entry_follows ?v x (map_of (ks_tasks st) x)" for x
    using st by (auto simp: kb_inv_def)
  have "List.member (op_streams ops (ks_chronicle st)) (kanbanStreamId x) \<longleftrightarrow> ?v (kanbanStreamId x) \<noteq> []"
    for x using streams_view [OF inv] by auto
  then have "partly_rebuilt ?v (op_streams ops (ks_chronicle st)) ?st"
    by (auto simp: partly_rebuilt_def keys_unique_def logged_task_def)
  from rebuild_streams_log [of ?st, OF _ _ streams_distinct [OF inv]] this inv kb_inv_log_sound [OF st]
  obtain st' where st': "kb_rebuild ops st = (st', None)" "ks_chronicle st' = ks_chronicle st"
    "partly_rebuilt ?v [] st'" by (auto simp: kb_rebuild_def)
  then have tasks: "map_of (ks_tasks st') x = logged_task ?v x" for x by (simp add: partly_rebuilt_def)
  have same: "rel_option same_task (map_of (ks_tasks st) x) (map_of (ks_tasks st') x)" for x
    using entry_logged(1) [OF e] by (simp add: tasks)
  have idem: "map_of (ks_idempotency st') = map_of (ks_idempotency st)"
    using keys_unique_same [OF keys _ same, of "ks_idempotency st'"] st'(3)
    by (simp add: partly_rebuilt_def)
  have "entry_follows ?v x (map_of (ks_tasks st') x)" for x
    using entry_follows_logged [OF e] by (simp add: tasks)
  with st' inv have "kb_inv inv view st'" by (simp add: kb_inv_def partly_rebuilt_def)
  with that st'(1,2) same idem show thesis by blast
qed

end

section \<open>A board over SQLite\<close>

text \<open>A board over a new database, and what any admissible history leads to.\<close>

definition new_board :: "payload sqlite_db kanban_store" where
  "new_board = kb_new sqlite_new"

lemma new_board_inv [simp]: "kb_inv (sqlite_inv z (host_registry z)) sqlite_view new_board"
  unfolding new_board_def
  by (rule kb_new_inv) (simp_all add: sqlite_new_view)

lemma board_inv:
  "history_ok z (host_sqlite z) sqlite_view hist new_board \<Longrightarrow>
   kb_inv (sqlite_inv z (host_registry z)) sqlite_view (kb_run z (host_sqlite z) hist new_board)"
  by (rule sqlite_host.run_inv [OF new_board_inv])

text \<open>
  C7: after any history of creates, transitions, renewals, updates and comments, every task
  on the board has the version that counts the events of its stream, holds a lease only
  while running, and is what folding its stream gives, up to \<open>updatedAt\<close>.
\<close>

theorem board_follows_log:
  assumes "history_ok z (host_sqlite z) sqlite_view hist new_board"
    and "st = kb_run z (host_sqlite z) hist new_board" and "kb_get taskId st = Some t"
  shows "kt_version t = int (length (sqlite_view (ks_chronicle st) (kanbanStreamId taskId))) \<and>
    (\<exists>t'. fold_stream None (sqlite_view (ks_chronicle st) (kanbanStreamId taskId)) = Inr (Some t') \<and>
       same_task t t') \<and> claim_inv t"
  using kb_inv_task [OF board_inv [OF assms(1)], of taskId t] assms(2,3)
  by (simp add: kb_get_def task_projected_def stream_folds_def lifecycle_inv_def)

text \<open>
  C2: \<open>rebuild\<close> recovers the board. After any history it reads the log without an error
  and leaves the log alone, every task it rebuilds is the live one up to \<open>updatedAt\<close>, no
  task appears or disappears, and the idempotency keys lead to the same tasks.
\<close>

theorem rebuild_recovers:
  assumes "history_ok z (host_sqlite z) sqlite_view hist new_board"
    and "st = kb_run z (host_sqlite z) hist new_board"
    and "kb_rebuild (host_sqlite z) st = (st', err)"
  shows "err = None \<and> ks_chronicle st' = ks_chronicle st \<and>
    rel_option same_task (kb_get taskId st) (kb_get taskId st') \<and>
    map_of (ks_idempotency st') key = map_of (ks_idempotency st) key"
proof -
  have "kb_inv (sqlite_inv z (host_registry z)) sqlite_view st" using board_inv [OF assms(1)] assms(2) by simp
  from sqlite_host.rebuild_correct [OF this, of taskId] assms(3) show ?thesis
    by (metis Pair_inject kb_get_def)
qed





text \<open>
  \<open>list\<close> answers the best matches. For a consistent \<open>localeCompare\<close> the answer is
  sorted by the task order, holds only matching tasks of the board, as many as the limit
  and the board allow, and every matching task left out does not precede a listed one.
\<close>

theorem list_selects_best:
  assumes "js_comparator lc" and "opt_ok (\<lambda>n. 0 \<le> n) (q_limit q)"
  shows "sorted_wrt (\<lambda>a b. compareTasks lc a b \<le> 0) (kb_list lc q st) \<and>
    (\<forall>t\<in>set (kb_list lc q st). t \<in> set (jsmap_values (ks_tasks st)) \<and> task_matches q t) \<and>
    length (kb_list lc q st) = (let m = length (filter (task_matches q) (jsmap_values (ks_tasks st)))
      in case q_limit q of None \<Rightarrow> m | Some n \<Rightarrow> min (nat n) m) \<and>
    (\<exists>rest. mset (kb_list lc q st) + mset rest =
        mset (filter (task_matches q) (jsmap_values (ks_tasks st))) \<and>
      (\<forall>a\<in>set (kb_list lc q st). \<forall>b\<in>set rest. compareTasks lc a b \<le> 0))"
proof -
  let ?m = "filter (task_matches q) (jsmap_values (ks_tasks st))"
  let ?s = "js_sort (compareTasks lc) ?m"
  let ?n = "case q_limit q of None \<Rightarrow> length ?s | Some n \<Rightarrow> nat n"
  have sorted: "sorted_wrt (\<lambda>a b. compareTasks lc a b \<le> 0) (take ?n ?s @ drop ?n ?s)"
    by (simp add: js_comparator.sorted_js_sort [OF js_comparator_tasks [OF assms(1)]])
  have list: "kb_list lc q st = take ?n ?s"
    using assms(2) by (auto simp: kb_list_def list_tasks_def Let_def js_slice_prefix split: option.splits)
  have "mset (take ?n ?s) + mset (drop ?n ?s) = mset ?m"
    by (metis append_take_drop_id mset_append mset_js_sort)
  moreover have "\<forall>a\<in>set (take ?n ?s). \<forall>b\<in>set (drop ?n ?s). compareTasks lc a b \<le> 0"
    using sorted unfolding sorted_wrt_append by blast
  moreover have "set (take ?n ?s) \<subseteq> set ?m" by (metis set_js_sort set_take_subset)
  ultimately show ?thesis
    using sorted unfolding list sorted_wrt_append
    by (auto simp: Let_def min_def split: option.splits)
qed

section \<open>A sample history\<close>

text \<open>
  Environments that number their uuids, and a history of three operations: a task is
  created, triaged and commented on.
\<close>

definition sample_env :: "string \<Rightarrow> env" where
  "sample_env tag = \<lparr>env_uuid = (\<lambda>n. tag @ replicate n CHR ''0''), env_now = (\<lambda>n. tag @ ''T'')\<rparr>"

definition sample_history :: "(env \<times> kanban_op) list" where
  "sample_history = [(sample_env ''a'', OpCreate (plain_task ''paint'')),
     (sample_env ''b'', OpTransition ''t1'' (move_to KTriaged 1)),
     (sample_env ''c'', OpComment ''t1'' \<lparr>ci_author = ''me'', ci_body = ''wet'', ci_at = None\<rparr>)]"

lemma sample_env_ok [simp]: "tag \<noteq> [] \<Longrightarrow> env_ok any_zod (sample_env tag)"
  by (simp add: env_ok_def any_zod_def sample_env_def)

lemma sample_env_fresh:
  assumes "list_all (\<lambda>w. take (length tag) (ev_id (row_event w)) \<noteq> tag) (tbl_events db)"
  shows "env_fresh (sqlite_view db) (sample_env tag)"
  using assms by (auto simp: env_fresh_def sample_env_def sqlite_view_def sqlite_rows_def list_all_iff)

abbreviation sample_run :: "payload sqlite_db kanban_store" where
  "sample_run \<equiv> kb_run any_zod (host_sqlite any_zod) sample_history new_board"

lemma sample_history_ok: "history_ok any_zod (host_sqlite any_zod) sqlite_view sample_history new_board"
proof -
  have "env_fresh (sqlite_view (ks_chronicle new_board)) (sample_env ''a'')"
    by (rule sample_env_fresh) code_simp
  moreover have "env_fresh (sqlite_view (ks_chronicle (kb_run any_zod (host_sqlite any_zod)
      (take 1 sample_history) new_board))) (sample_env ''b'')"
    by (rule sample_env_fresh) code_simp
  moreover have "env_fresh (sqlite_view (ks_chronicle (kb_run any_zod (host_sqlite any_zod)
      (take 2 sample_history) new_board))) (sample_env ''c'')"
    by (rule sample_env_fresh) code_simp
  ultimately show ?thesis by (simp add: sample_history_def del: kb_exec.simps)
qed

lemma board_follows_log_witness:
  "kt_version (the (kb_get ''t1'' sample_run)) =
     int (length (sqlite_view (ks_chronicle sample_run) (kanbanStreamId ''t1'')))"
proof -
  have "kb_get ''t1'' sample_run \<noteq> None" by code_simp
  then obtain t where t: "kb_get ''t1'' sample_run = Some t" by blast
  from board_follows_log [OF sample_history_ok refl t] t show ?thesis by simp
qed

lemma rebuild_recovers_witness:
  "snd (kb_rebuild (host_sqlite any_zod) sample_run) = None \<and>
   rel_option same_task (kb_get ''t1'' sample_run)
     (kb_get ''t1'' (fst (kb_rebuild (host_sqlite any_zod) sample_run)))"
  using rebuild_recovers [OF sample_history_ok refl surjective_pairing] by simp

text \<open>
  The one difference a restart can make: the comment moved the live task's \<open>updatedAt\<close>,
  the rebuilt task has the older one.
\<close>

lemma comment_time_lost:
  "map_option kt_updatedAt (kb_get ''t1'' sample_run) = Some ''cT''"
  "map_option kt_updatedAt (kb_get ''t1'' (fst (kb_rebuild (host_sqlite any_zod) sample_run))) =
     Some ''bT''"
  by code_simp+




lemma list_selects_best_witness:
  "sorted_wrt (\<lambda>a b. compareTasks code_unit_compare a b \<le> 0)
     (kb_list code_unit_compare (any_task\<lparr>q_limit := Some 2\<rparr>) sample_run)"
  using list_selects_best [OF code_units.js_comparator_axioms, of "any_task\<lparr>q_limit := Some 2\<rparr>" sample_run]
  by (simp add: any_task_def)

end
