(* ===== verification/ChronicleEquivalence.thy ===== *)
theory ChronicleEquivalence
  imports ChronicleMemory ChronicleSqlite
begin

text \<open>
  The in-memory and the SQLite Chronicle under the same calls: any sequence of appends and
  reads gets the same answers from both, those of the abstract contract, and leaves
  contiguous, validated streams.
\<close>

datatype 'p chronicle_call =
    CallAppend string string "'p new_event list" int
  | CallRead string int
  | CallLatest string

datatype 'p chronicle_answer =
    Appended "chronicle_error + 'p chronicle_event list"
  | ReadOut "'p chronicle_event list" "chronicle_error option"
  | Latest int

fun perform :: "('s, 'p) chronicle_ops \<Rightarrow> 'p chronicle_call \<Rightarrow> 's \<Rightarrow> 's \<times> 'p chronicle_answer" where
  "perform ops (CallAppend now sid evs ex) s = (case op_append ops now sid evs ex s of
     (s', res) \<Rightarrow> (s', Appended res))"
| "perform ops (CallRead sid after) s = (case op_read ops sid after s of (es, err) \<Rightarrow> (s, ReadOut es err))"
| "perform ops (CallLatest sid) s = (s, Latest (op_latest ops sid s))"

fun perform_all :: "('s, 'p) chronicle_ops \<Rightarrow> 'p chronicle_call list \<Rightarrow> 's \<Rightarrow>
    's \<times> 'p chronicle_answer list" where
  "perform_all ops [] s = (s, [])"
| "perform_all ops (c # cs) s = (case perform ops c s of (s', a) \<Rightarrow>
     (case perform_all ops cs s' of (s'', as) \<Rightarrow> (s'', a # as)))"

text \<open>The calls the program makes: a stream with a name, an ISO reading of the clock.\<close>

fun call_ok :: "zod \<Rightarrow> 'p chronicle_call \<Rightarrow> bool" where
  "call_ok z (CallAppend now sid evs ex) \<longleftrightarrow> z_datetime z now \<and> sid \<noteq> []"
| "call_ok z _ \<longleftrightarrow> True"

section \<open>The same over the abstract streams\<close>

definition spec_ops :: "zod \<Rightarrow> 'p registry \<Rightarrow> ('p streams, 'p) chronicle_ops" where
  "spec_ops z r = \<lparr>op_append = (\<lambda>now sid evs ex v. spec_append z r now sid evs ex v),
     op_read = (\<lambda>sid after v. (drop (nat after) (v sid), None)),
     op_latest = (\<lambda>sid v. int (length (v sid))), op_streams = (\<lambda>v. [])\<rparr>"

context chronicle_store
begin

lemma perform_spec:
  assumes "inv s" and "call_ok z c" and "perform ops c s = (s', a)"
  shows "inv s' \<and> perform (spec_ops z reg) c (view s) = (view s', a)"
proof (cases c)
  case (CallAppend now sid evs ex)
  obtain s2 res where app: "op_append ops now sid evs ex s = (s2, res)" by fastforce
  with append_refines [OF assms(1) _ _ app] CallAppend assms(2,3) show ?thesis
    by (auto simp: spec_ops_def)
next
  case (CallRead sid after)
  with assms show ?thesis by (auto simp: spec_ops_def read_after)
next
  case (CallLatest sid)
  with assms show ?thesis by (auto simp: spec_ops_def latest_view)
qed

lemma perform_all_spec:
  assumes "inv s" and "list_all (call_ok z) cs" and "perform_all ops cs s = (s', as)"
  shows "inv s' \<and> perform_all (spec_ops z reg) cs (view s) = (view s', as)"
  using assms
proof (induction cs arbitrary: s s' as)
  case (Cons c cs)
  obtain s1 a where c: "perform ops c s = (s1, a)" by fastforce
  obtain s2 as2 where cs: "perform_all ops cs s1 = (s2, as2)" by fastforce
  from Cons.prems c cs have "s' = s2" "as = a # as2" by auto
  with perform_spec [OF Cons.prems(1) _ c] Cons.IH [OF _ _ cs] Cons.prems(2) show ?case by auto
qed simp

end

section \<open>Equivalence\<close>


text \<open>
  appending is safe to retry. When an append has been accepted by the SQLite store and
  the caller sends it again with the same expected position, it gets the same stored events
  and the streams do not change.
\<close>

theorem append_retry_safe:
  assumes "list_all (call_ok z) calls" and "perform_all (sqlite_ops z reg) calls sqlite_new = (db, as)"
    and "z_datetime z now" and "z_datetime z now'" and "sid \<noteq> []"
    and "sqlite_append z reg now sid evs ex db = (db', Inr es)"
    and "sqlite_append z reg now' sid evs ex db' = (db'', res)"
  shows "res = Inr es \<and> sqlite_view db'' = sqlite_view db'"
proof -
  have "sqlite_inv z reg db" using sqlite.perform_all_spec [OF sqlite_new_inv assms(1,2)] by blast
  from sqlite.append_retry [OF this assms(3,4,5)] assms(6,7) show ?thesis by simp
qed

text \<open>
  two writers never both win a position. Once one writer's events stand at the position
  both expected, the other's valid events are refused with the next free position, and
  nothing is written.
\<close>

theorem append_race_refused:
  assumes "list_all (call_ok z) calls" and "perform_all (sqlite_ops z reg) calls sqlite_new = (db, as)"
    and "z_datetime z now" and "z_datetime z now'" and "sid \<noteq> []" and "evs \<noteq> []" and "evs' \<noteq> []"
    and "ev_id (hd evs) \<noteq> ev_id (hd evs')" and "list_all (event_accepted z reg) evs'"
    and "sqlite_append z reg now sid evs ex db = (db', Inr es)" and "sqlite_view db' \<noteq> sqlite_view db"
    and "sqlite_append z reg now' sid evs' ex db' = (db'', res)"
  shows "res = Inl (ChronicleSequenceConflict sid ex (sqlite_getLatestSequence sid db' + 1)) \<and>
    sqlite_view db'' = sqlite_view db'"
proof -
  have inv: "sqlite_inv z reg db" using sqlite.perform_all_spec [OF sqlite_new_inv assms(1,2)] by blast
  have "sqlite_inv z reg db'" using sqlite.append_refines [OF inv assms(3,5)] assms(10) by simp
  from sqlite.latest_view [OF this, of sid]
  have latest: "sqlite_getLatestSequence sid db' = int (length (sqlite_view db' sid))" by simp
  have "op_append (sqlite_ops z reg) now sid evs ex db = (db', Inr es)"
    "op_append (sqlite_ops z reg) now' sid evs' ex db' = (db'', res)" using assms(10,12) by simp_all
  from sqlite.append_race [OF inv assms(3-8) this(1) assms(11) this(2) assms(9)]
  show ?thesis unfolding latest .
qed

section \<open>Samples\<close>

definition sample_registry :: "nat registry" where
  "sample_registry = [(''tick'', \<lparr>reg_eventType = ''tick'', reg_payload = (\<lambda>n. n < 10), reg_ignorable = False\<rparr>)]"

definition tick :: "string \<Rightarrow> nat \<Rightarrow> nat new_event" where
  "tick u n = newChronicleEvent u ''now'' (plain_input ''tick'' \<lparr>actor_type = UserActor, actor_id = ''a''\<rparr>
     no_scope n)"




lemma append_retry_safe_witness:
  "\<exists>db es. sqlite_append any_zod sample_registry ''t'' ''s'' [tick ''a'' 1] 1 sqlite_new = (db, Inr es) \<and>
     snd (sqlite_append any_zod sample_registry ''u'' ''s'' [tick ''a'' 1] 1 db) = Inr es"
proof -
  obtain db es where a: "sqlite_append any_zod sample_registry ''t'' ''s'' [tick ''a'' 1] 1 sqlite_new =
      (db, Inr es)"
  proof -
    have "case snd (sqlite_append any_zod sample_registry ''t'' ''s'' [tick ''a'' 1] 1 sqlite_new) of
        Inl e \<Rightarrow> False | Inr es \<Rightarrow> True" by code_simp
    with that show thesis by (auto split: sum.splits) (metis prod.collapse)
  qed
  have calls: "list_all (call_ok any_zod) []"
    "perform_all (sqlite_ops any_zod sample_registry) [] sqlite_new = (sqlite_new, [])" by simp_all
  from append_retry_safe [OF calls _ _ _ a surjective_pairing, of "''u''"] a show ?thesis
    by (auto simp: any_zod_def)
qed

lemma append_race_refused_witness:
  "\<exists>db es. sqlite_append any_zod sample_registry ''t'' ''s'' [tick ''a'' 1] 1 sqlite_new = (db, Inr es) \<and>
     snd (sqlite_append any_zod sample_registry ''u'' ''s'' [tick ''b'' 2] 1 db) =
       Inl (ChronicleSequenceConflict ''s'' 1 2)"
proof -
  let ?a = "sqlite_append any_zod sample_registry ''t'' ''s'' [tick ''a'' 1] 1 sqlite_new"
  have "case snd ?a of Inl e \<Rightarrow> False | Inr es \<Rightarrow> True" by code_simp
  then obtain es where a: "?a = (fst ?a, Inr es)" by (auto split: sum.splits) (metis prod.collapse)
  have wrote: "sqlite_view (fst ?a) \<noteq> sqlite_view sqlite_new"
  proof -
    have "length (sqlite_view (fst ?a) ''s'') = 1" "length (sqlite_view (sqlite_new :: nat sqlite_db) ''s'') = 0"
      by code_simp+
    then show ?thesis by auto
  qed
  have ok: "list_all (event_accepted any_zod sample_registry) [tick ''b'' 2]"
    by (simp add: event_accepted_def sample_registry_def tick_def newChronicleEvent_plain_ok
        any_zod_def actor_ok_def scope_ok_def no_scope_def)
  have latest: "sqlite_getLatestSequence ''s'' (fst ?a) = 1" by code_simp
  have calls: "list_all (call_ok any_zod) []"
    "perform_all (sqlite_ops any_zod sample_registry) [] sqlite_new = (sqlite_new, [])" by simp_all
  have "ev_id (hd [tick ''a'' 1]) \<noteq> ev_id (hd [tick ''b'' 2])" by (simp add: tick_def)
  from append_race_refused [OF calls _ _ _ _ _ this ok a wrote surjective_pairing, of "''u''"] latest
  show ?thesis using a by (auto simp: any_zod_def)
qed

end
