(* ===== verification/ThreadLog.thy ===== *)
theory ThreadLog
  imports HostEvents
begin

text \<open>
  Threads over the Chronicle (\<open>packages/thread/src/index.ts\<close>): the model constructors, the
  event builders, \<open>toThreadEvent\<close> at the protocol boundary, paged reading with \<open>after\<close>, and
  the projection behind the conversation list.
\<close>

section \<open>Model constructors\<close>

datatype thread_error =
    UnknownThreadEventType string
  | ThreadZodError
  | ThreadStoreError chronicle_error

record new_thread_init =
  nth_title :: string
  nth_workspaceId :: "string option"
  nth_memoryView :: "protocol_ref option"
  nth_id :: "string option"
  nth_now :: "string option"

definition newThread :: "zod \<Rightarrow> string \<Rightarrow> string \<Rightarrow> new_thread_init \<Rightarrow> thread_error + thread" where
  "newThread z uuid clock i =
     (let now = coalesce (nth_now i) clock;
          t = \<lparr>th_id = coalesce (nth_id i) uuid, th_title = nth_title i,
               th_workspaceId = nth_workspaceId i, th_memoryView = nth_memoryView i,
               th_createdAt = now, th_updatedAt = now\<rparr>
      in if thread_ok z t then Inr t else Inl ThreadZodError)"

record new_turn_init =
  ntu_threadId :: string
  ntu_trigger :: turn_trigger
  ntu_input :: "string option"
  ntu_structureVersion :: "string option"
  ntu_id :: "string option"
  ntu_now :: "string option"

definition newTurn :: "zod \<Rightarrow> string \<Rightarrow> string \<Rightarrow> new_turn_init \<Rightarrow> thread_error + turn" where
  "newTurn z uuid clock i =
     (let t = \<lparr>tu_id = coalesce (ntu_id i) uuid, tu_threadId = ntu_threadId i, tu_status = TActive,
               tu_trigger = ntu_trigger i, tu_input = ntu_input i,
               tu_structureVersion = ntu_structureVersion i,
               tu_startedAt = coalesce (ntu_now i) clock, tu_endedAt = None\<rparr>
      in if turn_ok z t then Inr t else Inl ThreadZodError)"

record new_item_init =
  nit_threadId :: string
  nit_turnId :: string
  nit_payload :: item_payload
  nit_id :: "string option"
  nit_now :: "string option"

definition newItem :: "zod \<Rightarrow> string \<Rightarrow> string \<Rightarrow> new_item_init \<Rightarrow> thread_error + item" where
  "newItem z uuid clock i =
     (let t = \<lparr>it_id = coalesce (nit_id i) uuid, it_threadId = nit_threadId i,
               it_turnId = nit_turnId i, it_status = IActive,
               it_createdAt = coalesce (nit_now i) clock, it_updatedAt = None, it_endedAt = None,
               it_error = None, it_payload = nit_payload i\<rparr>
      in if item_ok z t then Inr t else Inl ThreadZodError)"

section \<open>Event builders\<close>

definition THREAD_ACTOR :: chronicle_actor where
  "THREAD_ACTOR = \<lparr>actor_type = AgentActor, actor_id = ''bee''\<rparr>"

definition baseEvent :: "string \<Rightarrow> string \<Rightarrow> chronicle_actor option \<Rightarrow> thread_event_kind \<Rightarrow> string \<Rightarrow>
    string option \<Rightarrow> thread_payload \<Rightarrow> payload new_event" where
  "baseEvent uuid now actor k threadId turnId p =
     newChronicleEvent uuid now (plain_input (thread_event_name k) (coalesce actor THREAD_ACTOR)
       (no_scope\<lparr>sc_thread := Some threadId, sc_turn := turnId\<rparr>) (ThreadP p))"

definition threadCreatedEvent :: "string \<Rightarrow> string \<Rightarrow> chronicle_actor option \<Rightarrow> thread \<Rightarrow>
    payload new_event" where
  "threadCreatedEvent uuid now actor t = baseEvent uuid now actor ThreadCreated (th_id t) None (PThread t)"

definition threadRenamedEvent :: "string \<Rightarrow> string \<Rightarrow> chronicle_actor option \<Rightarrow> string \<Rightarrow> string \<Rightarrow>
    payload new_event" where
  "threadRenamedEvent uuid now actor threadId title =
     baseEvent uuid now actor ThreadRenamed threadId None (PTitle title)"

text \<open>The spread \<open>{...event, structureVersion}\<close> pins the structure on the envelope.\<close>

definition turnStartedEvent :: "string \<Rightarrow> string \<Rightarrow> chronicle_actor option \<Rightarrow> turn \<Rightarrow>
    payload new_event" where
  "turnStartedEvent uuid now actor t =
     (let e = baseEvent uuid now actor TurnStarted (tu_threadId t) (Some (tu_id t)) (PTurn t)
      in case tu_structureVersion t of None \<Rightarrow> e | Some v \<Rightarrow> e\<lparr>ev_structureVersion := Some v\<rparr>)"

definition turnCompletedEvent :: "string \<Rightarrow> string \<Rightarrow> chronicle_actor option \<Rightarrow> turn \<Rightarrow>
    payload new_event" where
  "turnCompletedEvent uuid now actor t =
     baseEvent uuid now actor TurnCompleted (tu_threadId t) (Some (tu_id t)) (PTurn t)"

definition turnFailedEvent :: "string \<Rightarrow> string \<Rightarrow> chronicle_actor option \<Rightarrow> turn \<Rightarrow> string \<Rightarrow>
    payload new_event" where
  "turnFailedEvent uuid now actor t err =
     baseEvent uuid now actor TurnFailed (tu_threadId t) (Some (tu_id t)) (PTurnFailed err t)"

definition turnCancelledEvent :: "string \<Rightarrow> string \<Rightarrow> chronicle_actor option \<Rightarrow> turn \<Rightarrow>
    payload new_event" where
  "turnCancelledEvent uuid now actor t =
     baseEvent uuid now actor TurnCancelled (tu_threadId t) (Some (tu_id t)) (PTurn t)"

definition itemStartedEvent :: "string \<Rightarrow> string \<Rightarrow> chronicle_actor option \<Rightarrow> item \<Rightarrow>
    payload new_event" where
  "itemStartedEvent uuid now actor i =
     baseEvent uuid now actor ItemStarted (it_threadId i) (Some (it_turnId i)) (PItem i)"

definition itemDeltaEvent :: "string \<Rightarrow> string \<Rightarrow> chronicle_actor option \<Rightarrow> string \<Rightarrow> string \<Rightarrow> string \<Rightarrow>
    string \<Rightarrow> payload new_event" where
  "itemDeltaEvent uuid now actor threadId turnId itemId delta =
     baseEvent uuid now actor ItemDelta threadId (Some turnId) (PItemDelta itemId delta)"

definition itemCompletedEvent :: "string \<Rightarrow> string \<Rightarrow> chronicle_actor option \<Rightarrow> item \<Rightarrow>
    payload new_event" where
  "itemCompletedEvent uuid now actor i =
     baseEvent uuid now actor ItemCompleted (it_threadId i) (Some (it_turnId i)) (PItem i)"

definition itemFailedEvent :: "string \<Rightarrow> string \<Rightarrow> chronicle_actor option \<Rightarrow> string \<Rightarrow> string \<Rightarrow> string \<Rightarrow>
    string \<Rightarrow> payload new_event" where
  "itemFailedEvent uuid now actor threadId turnId itemId err =
     baseEvent uuid now actor ItemFailed threadId (Some turnId) (PItemFailed itemId err)"

definition agentCheckpointEvent :: "string \<Rightarrow> string \<Rightarrow> chronicle_actor option \<Rightarrow> string \<Rightarrow> string \<Rightarrow>
    int \<Rightarrow> string \<Rightarrow> payload new_event" where
  "agentCheckpointEvent uuid now actor threadId turnId stepIndex stateDigest =
     baseEvent uuid now actor AgentCheckpoint threadId (Some turnId) (PCheckpoint stepIndex stateDigest)"

definition agentRecoveryFailedEvent :: "string \<Rightarrow> string \<Rightarrow> chronicle_actor option \<Rightarrow> string \<Rightarrow>
    string \<Rightarrow> int \<Rightarrow> string \<Rightarrow> string \<Rightarrow> payload new_event" where
  "agentRecoveryFailedEvent uuid now actor threadId turnId checkpointSequence expected actual =
     baseEvent uuid now actor AgentRecoveryFailed threadId (Some turnId)
       (PRecoveryFailed checkpointSequence expected actual)"

definition contextCompactedEvent :: "string \<Rightarrow> string \<Rightarrow> chronicle_actor option \<Rightarrow> string \<Rightarrow>
    string \<Rightarrow> string \<Rightarrow> int \<Rightarrow> string \<Rightarrow> int \<Rightarrow> payload new_event" where
  "contextCompactedEvent uuid now actor threadId turnId summary covered digest tokens =
     baseEvent uuid now actor ContextCompacted threadId (Some turnId)
       (PCompacted summary covered digest tokens)"

definition appendThreadEvents :: "('s, payload) chronicle_ops \<Rightarrow> string \<Rightarrow> string \<Rightarrow>
    payload new_event list \<Rightarrow> 's \<Rightarrow> 's \<times> (chronicle_error + payload chronicle_event list)" where
  "appendThreadEvents ops now threadId evs s =
     (let expectedSequence = op_latest ops (threadStreamId threadId) s + 1
      in op_append ops now (threadStreamId threadId) evs expectedSequence s)"

section \<open>The protocol boundary\<close>

definition kind_of_name :: "string \<Rightarrow> thread_event_kind option" where
  "kind_of_name et = find (\<lambda>k. thread_event_name k = et) THREAD_EVENT_KINDS"

text \<open>What \<open>parse\<close> keeps of a payload: a schema strips the keys it does not name.\<close>

definition wire_payload :: "thread_event_kind \<Rightarrow> thread_payload \<Rightarrow> thread_payload" where
  "wire_payload k p =
     (if k = TurnStarted \<or> k = TurnCompleted \<or> k = TurnCancelled
      then (case payload_turn p of Some t \<Rightarrow> PTurn t | None \<Rightarrow> p) else p)"

definition toThreadEvent :: "zod \<Rightarrow> payload chronicle_event \<Rightarrow> thread_error + thread_event" where
  "toThreadEvent z e =
     (case kind_of_name (ev_type e) of
        None \<Rightarrow> Inl (UnknownThreadEventType (ev_type e))
      | Some k \<Rightarrow>
          (case (sc_thread (ev_scope e), ev_payload e) of
             (Some threadId, ThreadP p) \<Rightarrow>
               let candidate = \<lparr>te_sequence = ev_sequence e, te_threadId = threadId,
                     te_turnId = (if k = ThreadCreated \<or> k = ThreadRenamed then None
                       else sc_turn (ev_scope e)),
                     te_kind = k, te_payload = wire_payload k p\<rparr>
               in if thread_event_ok z candidate then Inr candidate else Inl ThreadZodError
           | _ \<Rightarrow> Inl ThreadZodError))"

definition threadEventFromChronicle :: "zod \<Rightarrow> payload chronicle_event \<Rightarrow> thread_error + thread_event" where
  "threadEventFromChronicle z e = toThreadEvent z e"

lemma thread_event_name_inject [simp]: "thread_event_name a = thread_event_name b \<longleftrightarrow> a = b"
  by (cases a; cases b) simp_all

lemma kind_of_name_eq [simp]: "kind_of_name (thread_event_name k) = Some k"
  by (cases k) (simp_all add: kind_of_name_def THREAD_EVENT_KINDS_def)

lemma kind_of_name_None: "kind_of_name et = None \<longleftrightarrow> \<not> List.member THREAD_EVENT_TYPES et"
  by (auto simp: kind_of_name_def THREAD_EVENT_TYPES_def find_None_iff all_event_kinds)

lemma wire_payload_ok: "thread_payload_ok z k p \<Longrightarrow> thread_payload_ok z k (wire_payload k p)"
  by (cases k) (auto simp: thread_payload_ok_def wire_payload_def split: option.splits)

section \<open>Reading a page\<close>

fun page_loop :: "zod \<Rightarrow> int option \<Rightarrow> payload chronicle_event list \<Rightarrow> chronicle_error option \<Rightarrow>
    thread_event list \<Rightarrow> thread_error + thread_event_page" where
  "page_loop z limit [] err acc =
     (case err of None \<Rightarrow> Inr \<lparr>pg_events = acc, pg_hasMore = False\<rparr> | Some e \<Rightarrow> Inl (ThreadStoreError e))"
| "page_loop z limit (e # es) err acc =
     (if limit = Some (int (length acc)) then Inr \<lparr>pg_events = acc, pg_hasMore = True\<rparr>
      else case toThreadEvent z e of
        Inl x \<Rightarrow> Inl x
      | Inr t \<Rightarrow> page_loop z limit es err (acc @ [t]))"

definition readThreadEvents :: "zod \<Rightarrow> ('s, payload) chronicle_ops \<Rightarrow> string \<Rightarrow> int option \<Rightarrow>
    int option \<Rightarrow> 's \<Rightarrow> thread_error + thread_event_page" where
  "readThreadEvents z ops threadId after limit s =
     (case op_read ops (threadStreamId threadId) (coalesce after 0) s of
        (es, err) \<Rightarrow> page_loop z limit es err [])"

section \<open>The conversation list\<close>

record thread_summary =
  sm_id :: string
  sm_title :: string
  sm_createdAt :: string
  sm_updatedAt :: string
  sm_turns :: nat
  sm_lastInput :: "string option"
  sm_lastOutput :: "string option"

text \<open>\<open>replace(/\s+/g, ' ')\<close>: every run of white space becomes one blank.\<close>

fun collapse_spaces :: "bool \<Rightarrow> string \<Rightarrow> string" where
  "collapse_spaces inRun [] = []"
| "collapse_spaces inRun (c # cs) =
     (if js_space c then (if inRun then collapse_spaces True cs else CHR '' '' # collapse_spaces True cs)
      else c # collapse_spaces False cs)"

definition clipPreview :: "string \<Rightarrow> nat \<Rightarrow> string" where
  "clipPreview text maximum =
     (let flat = js_trim (collapse_spaces False text)
      in if length flat \<le> maximum then flat else take maximum flat @ ELLIPSIS)"

definition empty_summary :: "string \<Rightarrow> thread_summary" where
  "empty_summary threadId = \<lparr>sm_id = threadId, sm_title = ''New thread'', sm_createdAt = [],
     sm_updatedAt = [], sm_turns = 0, sm_lastInput = None, sm_lastOutput = None\<rparr>"

definition summary_step :: "payload chronicle_event \<Rightarrow> thread_summary \<Rightarrow> thread_summary" where
  "summary_step e s0 =
     (let s = s0\<lparr>sm_updatedAt := ev_time e\<rparr>
      in if ev_type e = thread_event_name ThreadCreated then
           (case ev_payload e of
              ThreadP (PThread t) \<Rightarrow> s\<lparr>sm_title := th_title t, sm_createdAt := th_createdAt t\<rparr>
            | _ \<Rightarrow> s)
         else if ev_type e = thread_event_name ThreadRenamed then
           (case ev_payload e of
              ThreadP (PTitle title) \<Rightarrow> if title \<noteq> [] then s\<lparr>sm_title := title\<rparr> else s
            | _ \<Rightarrow> s)
         else if ev_type e = thread_event_name TurnStarted then
           (let s' = s\<lparr>sm_turns := sm_turns s + 1\<rparr>
            in case ev_payload e of
                 ThreadP p \<Rightarrow>
                   (case Option.bind (payload_turn p) tu_input of
                      Some inp \<Rightarrow> if js_trim inp \<noteq> [] then s'\<lparr>sm_lastInput := Some (clipPreview inp 160)\<rparr>
                        else s'
                    | None \<Rightarrow> s')
               | _ \<Rightarrow> s')
         else if ev_type e = thread_event_name ItemCompleted then
           (case ev_payload e of
              ThreadP (PItem i) \<Rightarrow>
                (case it_payload i of
                   MessageItem RAssistant content calls \<Rightarrow>
                     if js_trim content \<noteq> [] then s\<lparr>sm_lastOutput := Some (clipPreview content 160)\<rparr>
                     else s
                 | _ \<Rightarrow> s)
            | _ \<Rightarrow> s)
         else s)"

definition display_title :: "thread_summary \<Rightarrow> thread_summary" where
  "display_title s =
     (case sm_lastInput s of
        Some inp \<Rightarrow>
          if sm_title s = ''New thread'' \<or> sm_title s = ''Web conversation''
          then s\<lparr>sm_title := clipPreview inp 24\<rparr> else s
      | None \<Rightarrow> s)"

definition threadIdOf :: "string \<Rightarrow> string" where
  "threadIdOf sid = drop (length ''thread:'') sid"

definition summarize :: "string \<Rightarrow> payload chronicle_event list \<Rightarrow> thread_summary" where
  "summarize threadId es = display_title (fold summary_step es (empty_summary threadId))"

fun collect_summaries :: "('s, payload) chronicle_ops \<Rightarrow> string list \<Rightarrow> 's \<Rightarrow>
    chronicle_error + thread_summary list" where
  "collect_summaries ops [] s = Inr []"
| "collect_summaries ops (sid # sids) s =
     (if \<not> starts_with ''thread:'' sid then collect_summaries ops sids s
      else case op_read ops sid 0 s of
        (es, Some err) \<Rightarrow> Inl err
      | (es, None) \<Rightarrow> (case collect_summaries ops sids s of
          Inl err \<Rightarrow> Inl err
        | Inr ss \<Rightarrow> Inr (summarize (threadIdOf sid) es # ss)))"

text \<open>
  The comparator never answers 0, so on equal times its two orders contradict each other and
  ECMAScript leaves their order open; the model's sort takes one of them.
\<close>

definition newer_first :: "thread_summary \<Rightarrow> thread_summary \<Rightarrow> int" where
  "newer_first a b = (if sm_updatedAt a < sm_updatedAt b then 1 else -1)"

definition listThreadSummaries :: "('s, payload) chronicle_ops \<Rightarrow> 's \<Rightarrow>
    chronicle_error + thread_summary list" where
  "listThreadSummaries ops s =
     (case collect_summaries ops (op_streams ops s) s of
        Inl err \<Rightarrow> Inl err
      | Inr ss \<Rightarrow> Inr (js_sort newer_first ss))"

end
