(* ===== verification/ThreadHistory.thy ===== *)
theory ThreadHistory
  imports ThreadLog HostChronicle
begin

text \<open>
  What a client of a thread can rely on: the facts appended through the builders come back
  as wire events numbered from 1, page by page and without a gap for any page length, and
  the conversation list is the fold of each thread's own facts.
\<close>

section \<open>Facts and their wire events\<close>

record thread_fact =
  tf_uuid :: string
  tf_time :: string
  tf_kind :: thread_event_kind
  tf_turnId :: "string option"
  tf_payload :: thread_payload

definition fact_event :: "string \<Rightarrow> thread_fact \<Rightarrow> payload new_event" where
  "fact_event threadId f = baseEvent (tf_uuid f) (tf_time f) None (tf_kind f) threadId (tf_turnId f)
     (tf_payload f)"

definition wire_event :: "string \<Rightarrow> int \<Rightarrow> thread_fact \<Rightarrow> thread_event" where
  "wire_event threadId n f = \<lparr>te_sequence = n, te_threadId = threadId, te_turnId = tf_turnId f,
     te_kind = tf_kind f, te_payload = tf_payload f\<rparr>"

definition fact_ok :: "zod \<Rightarrow> thread_fact \<Rightarrow> bool" where
  "fact_ok z f \<longleftrightarrow> z_uuid z (tf_uuid f) \<and> z_datetime z (tf_time f) \<and>
     thread_payload_ok z (tf_kind f) (tf_payload f) \<and> wire_payload (tf_kind f) (tf_payload f) = tf_payload f \<and>
     (if tf_kind f = ThreadCreated \<or> tf_kind f = ThreadRenamed then tf_turnId f = None
      else (case tf_turnId f of None \<Rightarrow> False | Some t \<Rightarrow> z_uuid z t \<and> min1 t))"

fun number_events :: "string \<Rightarrow> int \<Rightarrow> thread_fact list \<Rightarrow> thread_event list" where
  "number_events threadId n [] = []"
| "number_events threadId n (f # fs) = wire_event threadId n f # number_events threadId (n + 1) fs"

lemma length_number_events [simp]: "length (number_events t n fs) = length fs"
  by (induction fs arbitrary: n) auto

lemma number_events_append:
  "number_events t n (fs @ gs) = number_events t n fs @ number_events t (n + int (length fs)) gs"
  by (induction fs arbitrary: n) (auto simp: algebra_simps)

lemma drop_number_events:
  "drop k (number_events t n fs) = number_events t (n + int k) (drop k fs)"
  by (induction fs arbitrary: n k) (auto simp: drop_Cons' algebra_simps)

lemma number_events_sequence:
  "k < length fs \<Longrightarrow> te_sequence (number_events t n fs ! k) = n + int k"
  by (induction fs arbitrary: n k) (auto simp: nth_Cons' wire_event_def)

lemma fact_event_ok:
  assumes "fact_ok z f" and "min1 threadId"
  shows "event_accepted z (host_registry z) (fact_event threadId f)"
proof -
  have "min1 (thread_event_name (tf_kind f))" by (cases "tf_kind f") simp_all
  moreover have "opt_ok min1 (tf_turnId f)"
    using assms(1) by (auto simp: fact_ok_def split: if_splits option.splits)
  ultimately show ?thesis
    using assms by (auto simp: event_accepted_def fact_event_def baseEvent_def host_registry_thread
        thread_schema_def fact_ok_def actor_ok_def THREAD_ACTOR_def scope_ok_def no_scope_def
        intro!: newChronicleEvent_plain_ok)
qed

lemma toThreadEvent_fact:
  assumes "fact_ok z f" and "z_uuid z threadId" and "0 < n"
  shows "toThreadEvent z (stored_event sid n now (fact_event threadId f)) = Inr (wire_event threadId n f)"
  using assms
  by (auto simp: toThreadEvent_def fact_event_def baseEvent_def wire_event_def fact_ok_def
      thread_event_ok_def Let_def no_scope_def split: if_splits option.splits)

text \<open>
  C40: what goes in through a builder comes out of \<open>toThreadEvent\<close>: the stored event of any
  well-formed fact, of any of the thirteen kinds, converts to the wire event with its thread,
  its turn, its payload and the sequence the store gave it.
\<close>

theorem wire_roundtrip:
  assumes "fact_ok z f" and "z_uuid z threadId" and "0 < n"
  shows "threadEventFromChronicle z (stored_event sid n now (fact_event threadId f)) =
    Inr (wire_event threadId n f)"
  unfolding threadEventFromChronicle_def by (rule toThreadEvent_fact [OF assms])

section \<open>Histories of appends\<close>

type_synonym thread_calls = "(string \<times> string \<times> thread_fact list) list"

fun thread_run :: "('s, payload) chronicle_ops \<Rightarrow> thread_calls \<Rightarrow> 's \<Rightarrow> 's" where
  "thread_run ops [] s = s"
| "thread_run ops ((now, threadId, fs) # rest) s =
     thread_run ops rest (fst (appendThreadEvents ops now threadId (map (fact_event threadId) fs) s))"

definition thread_calls_ok :: "zod \<Rightarrow> thread_calls \<Rightarrow> bool" where
  "thread_calls_ok z calls \<longleftrightarrow> list_all (\<lambda>(now, threadId, fs). z_datetime z now \<and> z_uuid z threadId \<and>
     min1 threadId \<and> list_all (fact_ok z) fs) calls"

definition facts_of :: "string \<Rightarrow> thread_calls \<Rightarrow> thread_fact list" where
  "facts_of threadId calls = concat (map (\<lambda>(now, t, fs). if t = threadId then fs else []) calls)"

text \<open>
  The client of the protocol: it asks for the page after the last sequence it has seen for
  as long as a page says there is more. \<open>None\<close> is running out of fuel.
\<close>

fun page_through :: "nat \<Rightarrow> zod \<Rightarrow> ('s, payload) chronicle_ops \<Rightarrow> string \<Rightarrow> int \<Rightarrow> int \<Rightarrow> 's \<Rightarrow>
    (thread_error + thread_event list) option" where
  "page_through 0 z ops threadId limit after s = None"
| "page_through (Suc fuel) z ops threadId limit after s =
     (case readThreadEvents z ops threadId (Some after) (Some limit) s of
        Inl err \<Rightarrow> Some (Inl err)
      | Inr page \<Rightarrow>
          if \<not> pg_hasMore page then Some (Inr (pg_events page))
          else (case page_through fuel z ops threadId limit (te_sequence (last (pg_events page))) s of
              Some (Inr rest) \<Rightarrow> Some (Inr (pg_events page @ rest))
            | other \<Rightarrow> other))"

definition fact_stored :: "string \<Rightarrow> payload chronicle_event \<Rightarrow> thread_fact \<Rightarrow> bool" where
  "fact_stored threadId e f \<longleftrightarrow> (\<exists>sid n now. e = stored_event sid n now (fact_event threadId f))"

lemma fact_stored_sel:
  assumes "fact_stored threadId e f"
  shows "ev_type e = thread_event_name (tf_kind f)" "ev_payload e = ThreadP (tf_payload f)"
    "ev_time e = tf_time f"
  using assms by (auto simp: fact_stored_def fact_event_def baseEvent_def)

text \<open>Stored events that are the numbered facts of a thread.\<close>

definition stores_facts :: "zod \<Rightarrow> string \<Rightarrow> thread_fact list \<Rightarrow> payload chronicle_event list \<Rightarrow> bool" where
  "stores_facts z threadId fs es \<longleftrightarrow>
     map (toThreadEvent z) es = map Inr (number_events threadId 1 fs) \<and>
     list_all2 (fact_stored threadId) es fs \<and> list_all (fact_ok z) fs"

lemma stamp_fact_stored:
  "list_all2 (fact_stored threadId) (stamp sid now n (map (fact_event threadId) fs)) fs"
  by (induction fs arbitrary: n) (auto simp: fact_stored_def)

lemma page_loop_collect:
  "map (toThreadEvent z) es = map Inr ws \<Longrightarrow> (case limit of None \<Rightarrow> True | Some l \<Rightarrow> int (length acc) \<le> l) \<Longrightarrow>
   page_loop z limit es None acc = Inr \<lparr>pg_events = acc @ (case limit of None \<Rightarrow> ws
       | Some l \<Rightarrow> take (nat l - length acc) ws),
     pg_hasMore = (case limit of None \<Rightarrow> False | Some l \<Rightarrow> nat l < length acc + length ws)\<rparr>"
proof (induction es arbitrary: acc ws)
  case Nil
  then show ?case by (auto split: option.splits)
next
  case (Cons e es)
  then obtain w ws' where ws: "ws = w # ws'" "toThreadEvent z e = Inr w"
    "map (toThreadEvent z) es = map Inr ws'" by (cases ws) auto
  show ?case
  proof (cases "limit = Some (int (length acc))")
    case True
    then show ?thesis using ws by simp
  next
    case False
    with Cons.prems(2) have more: "case limit of None \<Rightarrow> True | Some l \<Rightarrow> int (length (acc @ [w])) \<le> l"
      by (auto split: option.splits)
    have "nat l - length acc = Suc (nat l - Suc (length acc))" if "limit = Some l" for l
      using more that by auto
    with False ws Cons.IH [OF ws(3) more] show ?thesis by (auto split: option.splits)
  qed
qed

lemma stamp_facts:
  "list_all (fact_ok z) fs \<Longrightarrow> z_uuid z threadId \<Longrightarrow> 0 < n \<Longrightarrow>
   map (toThreadEvent z) (stamp sid now n (map (fact_event threadId) fs)) =
     map Inr (number_events threadId n fs)"
proof (induction fs arbitrary: n)
  case (Cons f fs)
  with toThreadEvent_fact [of z f threadId n sid now] show ?case by simp
qed simp

lemma stores_facts_length: "stores_facts z threadId fs v \<Longrightarrow> length v = length fs"
  by (auto simp: stores_facts_def dest: list_all2_lengthD)

lemma stores_facts_append:
  assumes "stores_facts z threadId fs v" and "list_all (fact_ok z) gs" and "z_uuid z threadId"
  shows "stores_facts z threadId (fs @ gs)
    (v @ stamp sid now (int (length v) + 1) (map (fact_event threadId) gs))"
  using assms stamp_facts [OF assms(2,3), of "int (length fs) + 1" sid now] stores_facts_length [OF assms(1)]
  by (simp add: stores_facts_def number_events_append add.commute list_all2_appendI stamp_fact_stored)

context host_chronicle
begin

lemma read_page:
  assumes "inv s" and "stores_facts z threadId fs (view s (threadStreamId threadId))"
    and "0 \<le> after" and "opt_ok (\<lambda>l. 0 \<le> l) limit"
  shows "readThreadEvents z ops threadId (Some after) limit s = Inr
    \<lparr>pg_events = (let rest = drop (nat after) (number_events threadId 1 fs)
        in case limit of None \<Rightarrow> rest | Some l \<Rightarrow> take (nat l) rest),
     pg_hasMore = (case limit of None \<Rightarrow> False | Some l \<Rightarrow> nat l < length fs - nat after)\<rparr>"
proof -
  have "map (toThreadEvent z) (drop (nat after) (view s (threadStreamId threadId))) =
      map Inr (drop (nat after) (number_events threadId 1 fs))"
    using assms(2) by (simp add: stores_facts_def flip: drop_map)
  from page_loop_collect [OF this, where limit = limit and acc = "[]"] assms(4)
  show ?thesis by (auto simp: readThreadEvents_def read_after [OF assms(1)] Let_def split: option.splits)
qed

lemma page_through_all:
  assumes "inv s" and "stores_facts z threadId fs (view s (threadStreamId threadId))"
    and "0 < limit" and "0 \<le> after" and "length fs - nat after < fuel"
  shows "page_through fuel z ops threadId limit after s =
    Some (Inr (drop (nat after) (number_events threadId 1 fs)))"
  using assms(4,5)
proof (induction fuel arbitrary: after)
  case (Suc fuel)
  let ?ws = "number_events threadId 1 fs"
  let ?page = "take (nat limit) (drop (nat after) ?ws)"
  have page: "readThreadEvents z ops threadId (Some after) (Some limit) s =
      Inr \<lparr>pg_events = ?page, pg_hasMore = (nat limit < length fs - nat after)\<rparr>"
    using read_page [OF assms(1,2) Suc.prems(1), of "Some limit"] assms(3) by (simp add: Let_def)
  show ?case
  proof (cases "nat limit < length fs - nat after")
    case False
    with page show ?thesis by simp
  next
    case True
    then have len: "length ?page = nat limit" "nat after + nat limit < length fs" by auto
    have nonempty: "?page \<noteq> []" using len(1) assms(3) by auto
    have "last ?page = ?ws ! (nat after + (nat limit - 1))"
      using len nonempty assms(3) by (simp add: last_conv_nth)
    also have "te_sequence \<dots> = after + limit"
      using len assms(3) Suc.prems(1) by (subst number_events_sequence) auto
    finally have last: "te_sequence (last ?page) = after + limit" .
    have nat: "nat (after + limit) = nat limit + nat after" using Suc.prems(1) assms(3) by simp
    have "page_through fuel z ops threadId limit (after + limit) s =
        Some (Inr (drop (nat (after + limit)) ?ws))"
      using Suc.prems assms(3) len by (intro Suc.IH) auto
    with page True last show ?thesis by (simp add: nat flip: drop_drop)
  qed
qed simp

lemma append_facts:
  assumes "inv s" and "z_datetime z now" and "z_uuid z t" and "min1 t" and "list_all (fact_ok z) gs"
    and "s' = fst (appendThreadEvents ops now t (map (fact_event t) gs) s)"
    and "v = view s (threadStreamId t)"
  shows "inv s'" and "view s' = (view s)(threadStreamId t :=
      v @ stamp (threadStreamId t) now (int (length v) + 1) (map (fact_event t) gs))"
proof -
  let ?sid = "threadStreamId t" and ?evs = "map (fact_event t) gs"
  obtain res where app: "op_append ops now ?sid ?evs (int (length (view s ?sid)) + 1) s = (s', res)"
    using assms(6) by (auto simp: appendThreadEvents_def latest_view [OF assms(1)] intro: prod.collapse [symmetric])
  show "inv s'" using append_refines [OF assms(1,2) _ app] by simp
  have acc: "list_all (event_accepted z (host_registry z)) ?evs"
    using assms(4,5) by (auto simp: list_all_iff intro: fact_event_ok)
  show "view s' = (view s)(?sid := v @ stamp ?sid now (int (length v) + 1) ?evs)"
  proof (cases "gs = []")
    case True
    with append_spec [OF assms(1,2) _ app] show ?thesis by (simp add: spec_append_def assms(7))
  next
    case False
    with append_next [OF assms(1,2) _ _ app] acc show ?thesis by (auto simp: assms(7) split: sum.splits)
  qed
qed

lemma run_facts:
  assumes "inv s" and "thread_calls_ok z calls"
    and "stores_facts z threadId fs (view s (threadStreamId threadId))"
  shows "inv (thread_run ops calls s) \<and> stores_facts z threadId (fs @ facts_of threadId calls)
    (view (thread_run ops calls s) (threadStreamId threadId))"
  using assms
proof (induction calls arbitrary: s fs)
  case Nil
  then show ?case by (simp add: facts_of_def)
next
  case (Cons c calls)
  obtain now t gs where c: "c = (now, t, gs)" by (cases c)
  from Cons.prems(2) c have ok: "z_datetime z now" "z_uuid z t" "min1 t" "list_all (fact_ok z) gs"
    and rest: "thread_calls_ok z calls" by (auto simp: thread_calls_ok_def)
  let ?s' = "fst (appendThreadEvents ops now t (map (fact_event t) gs) s)"
  note step = append_facts [OF Cons.prems(1) ok refl refl]
  have "stores_facts z threadId (fs @ (if t = threadId then gs else [])) (view ?s' (threadStreamId threadId))"
  proof (cases "t = threadId")
    case True
    with stores_facts_append [OF Cons.prems(3) ok(4)] ok(2) show ?thesis unfolding step(2) by simp
  next
    case False
    with Cons.prems(3) show ?thesis unfolding step(2) by simp
  qed
  from Cons.IH [OF step(1) rest this] show ?case by (simp add: c facts_of_def)
qed

lemma run_thread_streams:
  assumes "inv s" and "thread_calls_ok z calls"
    and "\<forall>sid. view s sid \<noteq> [] \<longrightarrow> starts_with ''thread:'' sid"
  shows "\<forall>sid. view (thread_run ops calls s) sid \<noteq> [] \<longrightarrow> starts_with ''thread:'' sid"
  using assms
proof (induction calls arbitrary: s)
  case (Cons c calls)
  obtain now t gs where c: "c = (now, t, gs)" by (cases c)
  from Cons.prems(2) c have ok: "z_datetime z now" "z_uuid z t" "min1 t" "list_all (fact_ok z) gs"
    and rest: "thread_calls_ok z calls" by (auto simp: thread_calls_ok_def)
  note step = append_facts [OF Cons.prems(1) ok refl refl]
  have "starts_with ''thread:'' (threadStreamId t)" by (simp add: threadStreamId_def starts_with_def)
  with Cons.prems(3) have "\<forall>sid. view (fst (appendThreadEvents ops now t (map (fact_event t) gs) s)) sid \<noteq> []
      \<longrightarrow> starts_with ''thread:'' sid"
    unfolding step(2) by auto
  from Cons.IH [OF step(1) rest this] show ?case by (simp add: c)
qed simp

lemma collect_summaries_view:
  assumes "inv s"
  shows "collect_summaries ops sids s = Inr (map (\<lambda>sid. summarize (threadIdOf sid) (view s sid))
    (filter (starts_with ''thread:'') sids))"
  by (induction sids) (simp_all add: read_all [OF assms])

end

text \<open>
  C35: paging misses nothing and repeats nothing. After any history of appends of well-formed
  facts to any threads of the SQLite Chronicle, a client that starts after any sequence it
  has seen and pages with any positive limit ends with exactly the facts appended to its
  thread since then, in the order of the appends, numbered contiguously from 1.
\<close>

theorem paging_complete:
  assumes "thread_calls_ok z calls" and "0 < limit" and "0 \<le> after"
    and "length (facts_of threadId calls) < fuel"
  shows "page_through fuel z (sqlite_ops z (host_registry z)) threadId limit after
      (thread_run (sqlite_ops z (host_registry z)) calls sqlite_new) =
    Some (Inr (drop (nat after) (number_events threadId 1 (facts_of threadId calls))))"
proof -
  have new: "stores_facts z threadId [] (sqlite_view sqlite_new (threadStreamId threadId))"
    by (simp add: stores_facts_def sqlite_new_def sqlite_view_def sqlite_rows_def)
  from sqlite_host.run_facts [OF sqlite_new_inv assms(1) new] show ?thesis
    using sqlite_host.page_through_all [OF _ _ assms(2,3)] assms(4) by auto
qed

section \<open>The conversation list\<close>

text \<open>
  What the list shows of a thread, said without the loop: the last fact's time, the number
  of started turns, the title that the last naming fact gave.
\<close>

definition given_title :: "thread_fact \<Rightarrow> string option" where
  "given_title f = (case (tf_kind f, tf_payload f) of
     (ThreadCreated, PThread t) \<Rightarrow> Some (th_title t)
   | (ThreadRenamed, PTitle title) \<Rightarrow> Some title
   | _ \<Rightarrow> None)"

definition naming :: "thread_fact list \<Rightarrow> string" where
  "naming fs = (let titles = List.map_filter given_title fs
     in if titles = [] then ''New thread'' else last titles)"

definition started_turns :: "thread_fact list \<Rightarrow> nat" where
  "started_turns fs = length (filter (\<lambda>f. tf_kind f = TurnStarted) fs)"

lemma naming_snoc: "naming (fs @ [f]) = coalesce (given_title f) (naming fs)"
  by (cases "given_title f") (simp_all add: naming_def List.map_filter_def)

lemma started_turns_snoc:
  "started_turns (fs @ [f]) = started_turns fs + (if tf_kind f = TurnStarted then 1 else 0)"
  by (simp add: started_turns_def)

lemma summary_step_fact:
  assumes "fact_stored threadId e f" and "fact_ok z f"
  shows "sm_id (summary_step e s) = sm_id s" "sm_updatedAt (summary_step e s) = tf_time f"
    "sm_turns (summary_step e s) = sm_turns s + (if tf_kind f = TurnStarted then 1 else 0)"
    "sm_title (summary_step e s) = coalesce (given_title f) (sm_title s)"
  using assms(2)
  by (cases "tf_kind f"; simp add: summary_step_def fact_stored_sel [OF assms(1)] Let_def fact_ok_def
      thread_payload_ok_def given_title_def del: thread_event_name.simps split: thread_payload.splits option.splits
      item_payload.splits message_role.splits)+

lemma summary_fold:
  assumes "list_all2 (fact_stored threadId) es fs" and "list_all (fact_ok z) fs"
  shows "let s = fold summary_step es (empty_summary threadId) in
    sm_id s = threadId \<and> sm_turns s = started_turns fs \<and> sm_title s = naming fs \<and>
    (fs \<noteq> [] \<longrightarrow> sm_updatedAt s = tf_time (last fs))"
  using assms
proof (induction fs arbitrary: es rule: rev_induct)
  case Nil
  then show ?case by (simp add: empty_summary_def started_turns_def naming_def)
next
  case (snoc f fs)
  then obtain es' e where es: "es = es' @ [e]" "list_all2 (fact_stored threadId) es' fs" "fact_stored threadId e f"
    by (auto simp: list_all2_append2 list_all2_Cons2)
  with snoc.IH [OF es(2)] snoc.prems(2) show ?case
    by (simp add: Let_def summary_step_fact [OF es(3), of z] naming_snoc started_turns_snoc)
qed

text \<open>The comparator of the list orders by time, newest first.\<close>

lemma js_sort_cong: "(\<And>x y. cmp x y \<le> 0 \<longleftrightarrow> cmp' x y \<le> 0) \<Longrightarrow> js_sort cmp xs = js_sort cmp' xs"
proof (induction xs)
  case (Cons x xs)
  have "insert_by cmp x ys = insert_by cmp' x ys" for ys
    by (induction ys) (simp_all add: Cons.prems)
  with Cons show ?case by simp
qed simp

lemma code_unit_le: "code_unit_compare a b \<le> 0 \<longleftrightarrow> a \<le> b"
  by (auto simp: code_unit_compare_def)

lemma distinct_map_js_sort: "distinct (map f (js_sort cmp xs)) \<longleftrightarrow> distinct (map f xs)"
  by (metis mset_js_sort mset_map mset_eq_imp_distinct_iff)

lemma sorted_newest_first: "sorted_wrt (\<lambda>a b. sm_updatedAt b \<le> sm_updatedAt a) (js_sort newer_first ss)"
proof -
  let ?c = "\<lambda>a b. code_unit_compare (sm_updatedAt b) (sm_updatedAt a)"
  have "js_comparator (\<lambda>x y. code_unit_compare y x)"
    by unfold_locales (auto simp: code_unit_compare_def split: if_splits)
  then have "js_comparator ?c" by (rule js_comparator_key)
  then have "sorted_wrt (\<lambda>a b. ?c a b \<le> 0) (js_sort ?c ss)" by (rule js_comparator.sorted_js_sort)
  moreover have "js_sort newer_first ss = js_sort ?c ss"
    by (rule js_sort_cong) (auto simp: newer_first_def code_unit_compare_def)
  ultimately show ?thesis by (simp add: code_unit_le)
qed

text \<open>What the list must show of a thread with the given facts.\<close>

definition summary_matches :: "thread_fact list \<Rightarrow> thread_summary \<Rightarrow> bool" where
  "summary_matches fs s \<longleftrightarrow> fs \<noteq> [] \<and> sm_turns s = started_turns fs \<and> sm_updatedAt s = tf_time (last fs) \<and>
     (naming fs \<noteq> ''New thread'' \<and> naming fs \<noteq> ''Web conversation'' \<longrightarrow> sm_title s = naming fs)"

lemma summarize_matches:
  assumes "list_all2 (fact_stored threadId) es fs" and "list_all (fact_ok z) fs" and "fs \<noteq> []"
  shows "sm_id (summarize threadId es) = threadId \<and> summary_matches fs (summarize threadId es)"
  using summary_fold [OF assms(1,2)] assms(3)
  by (auto simp: summarize_def summary_matches_def display_title_def Let_def split: option.splits)

lemma threadIdOf_stream [simp]: "threadIdOf (threadStreamId t) = t"
  by (simp add: threadIdOf_def threadStreamId_def)

lemma thread_stream_of: "starts_with ''thread:'' sid \<Longrightarrow> threadStreamId (threadIdOf sid) = sid"
  by (auto simp: starts_with_iff threadIdOf_def threadStreamId_def)

text \<open>
  the conversation list is the threads. After any history of appends the list names
  every thread that has a fact exactly once, newest last fact first, with the number of
  turns started, the time of the last fact and, unless that is one of the two placeholder
  titles, the title that the last naming fact gave.
\<close>

theorem list_shows_threads:
  assumes "thread_calls_ok z calls"
    and "s = thread_run (sqlite_ops z (host_registry z)) calls sqlite_new"
  shows "\<exists>ss. listThreadSummaries (sqlite_ops z (host_registry z)) s = Inr ss \<and>
    distinct (map sm_id ss) \<and> set (map sm_id ss) = {t. facts_of t calls \<noteq> []} \<and>
    (\<forall>m\<in>set ss. summary_matches (facts_of (sm_id m) calls) m) \<and>
    sorted_wrt (\<lambda>a b. sm_updatedAt b \<le> sm_updatedAt a) ss"
proof -
  let ?ops = "sqlite_ops z (host_registry z)"
  let ?sum = "\<lambda>sid. summarize (threadIdOf sid) (sqlite_view s sid)"
  have empty: "sqlite_view sqlite_new sid = []" for sid
    by (simp add: sqlite_new_def sqlite_view_def sqlite_rows_def)
  have inv: "sqlite_inv z (host_registry z) s"
    and facts: "stores_facts z t (facts_of t calls) (sqlite_view s (threadStreamId t))" for t
    using sqlite_host.run_facts [OF sqlite_new_inv assms(1), of t "[]"] assms(2)
    by (auto simp: stores_facts_def empty)
  have only: "starts_with ''thread:'' sid" if "sqlite_view s sid \<noteq> []" for sid
    using sqlite_host.run_thread_streams [OF sqlite_new_inv assms(1)] that assms(2) by (auto simp: empty)
  let ?sids = "filter (starts_with ''thread:'') (op_streams ?ops s)"
  have sids: "distinct ?sids" "set ?sids = {sid. sqlite_view s sid \<noteq> []}"
    using sqlite.streams_distinct [OF inv] sqlite.streams_view [OF inv] only by auto
  have len: "sqlite_view s (threadStreamId t) \<noteq> [] \<longleftrightarrow> facts_of t calls \<noteq> []" for t
    using facts [of t] by (auto simp: stores_facts_def dest: list_all2_lengthD)
  have each: "sm_id (?sum sid) = threadIdOf sid \<and> summary_matches (facts_of (threadIdOf sid) calls) (?sum sid)"
    if "sid \<in> set ?sids" for sid
  proof (rule summarize_matches)
    have sid: "threadStreamId (threadIdOf sid) = sid" using that by (auto intro: thread_stream_of)
    then show "list_all2 (fact_stored (threadIdOf sid)) (sqlite_view s sid) (facts_of (threadIdOf sid) calls)"
      and "list_all (fact_ok z) (facts_of (threadIdOf sid) calls)"
      using facts [of "threadIdOf sid"] by (simp_all add: stores_facts_def)
    show "facts_of (threadIdOf sid) calls \<noteq> []" using that sids(2) len [of "threadIdOf sid"] unfolding sid by blast
  qed
  let ?ss = "js_sort newer_first (map ?sum ?sids)"
  have ids: "map sm_id (map ?sum ?sids) = map threadIdOf ?sids" using each by simp
  have inj: "inj_on threadIdOf (set ?sids)" by (rule inj_on_inverseI [where g = threadStreamId]) (auto intro: thread_stream_of)
  have "listThreadSummaries ?ops s = Inr ?ss"
    by (simp add: listThreadSummaries_def sqlite_host.collect_summaries_view [OF inv])
  moreover have "distinct (map sm_id ?ss)"
    unfolding distinct_map_js_sort ids using sids(1) inj by (simp add: distinct_map)
  moreover have "set (map sm_id ?ss) = {t. facts_of t calls \<noteq> []}"
  proof -
    have "set (map sm_id ?ss) = threadIdOf ` set ?sids" using each by (auto simp: image_image intro!: image_eqI)
    also have "\<dots> = {t. facts_of t calls \<noteq> []}"
    proof (intro set_eqI iffI)
      fix t assume "t \<in> threadIdOf ` set ?sids"
      then show "t \<in> {t. facts_of t calls \<noteq> []}" using each by (auto simp: summary_matches_def)
    next
      fix t assume "t \<in> {t. facts_of t calls \<noteq> []}"
      then have "threadStreamId t \<in> set ?sids" using len sids(2) by auto
      then show "t \<in> threadIdOf ` set ?sids" by (rule rev_image_eqI) simp
    qed
    finally show ?thesis .
  qed
  moreover have "\<forall>m\<in>set ?ss. summary_matches (facts_of (sm_id m) calls) m" using each by auto
  ultimately show ?thesis using sorted_newest_first by blast
qed

section \<open>A sample thread\<close>

definition naming_fact :: "string \<Rightarrow> string \<Rightarrow> thread_fact" where
  "naming_fact u title = \<lparr>tf_uuid = u, tf_time = u, tf_kind = ThreadRenamed, tf_turnId = None,
     tf_payload = PTitle title\<rparr>"

definition delta_fact :: "string \<Rightarrow> string \<Rightarrow> thread_fact" where
  "delta_fact u text = \<lparr>tf_uuid = u, tf_time = u, tf_kind = ItemDelta, tf_turnId = Some ''turn'',
     tf_payload = PItemDelta ''item'' text\<rparr>"

definition sample_thread_calls :: thread_calls where
  "sample_thread_calls = [(''n'', ''t'', [naming_fact ''a'' ''trip'', delta_fact ''b'' ''hello'']),
     (''n'', ''u'', [delta_fact ''c'' ''x'']), (''n'', ''t'', [delta_fact ''d'' ''world''])]"

lemma sample_facts_ok: "fact_ok any_zod (delta_fact ''b'' ''hello'')" "thread_calls_ok any_zod sample_thread_calls"
  by (simp_all add: thread_calls_ok_def sample_thread_calls_def fact_ok_def naming_fact_def delta_fact_def
      any_zod_def thread_payload_ok_def wire_payload_def)

lemma wire_roundtrip_witness:
  "threadEventFromChronicle any_zod
     (stored_event ''thread:t'' 2 ''n'' (fact_event ''t'' (delta_fact ''b'' ''hello''))) =
   Inr (wire_event ''t'' 2 (delta_fact ''b'' ''hello''))"
  by (rule wire_roundtrip [OF sample_facts_ok(1)]) (simp_all add: any_zod_def)

lemma paging_complete_witness:
  "map_option (\<lambda>r. case r of Inl e \<Rightarrow> [] | Inr es \<Rightarrow> map te_sequence es)
     (page_through 4 any_zod (sqlite_ops any_zod (host_registry any_zod)) ''t'' 1 1
       (thread_run (sqlite_ops any_zod (host_registry any_zod)) sample_thread_calls sqlite_new)) =
   Some [2, 3]"
proof -
  have facts: "facts_of ''t'' sample_thread_calls =
      [naming_fact ''a'' ''trip'', delta_fact ''b'' ''hello'', delta_fact ''d'' ''world'']"
    by (simp add: facts_of_def sample_thread_calls_def)
  show ?thesis
    by (subst paging_complete [OF sample_facts_ok(2)]) (simp_all add: facts wire_event_def)
qed

lemma list_shows_threads_witness:
  "\<exists>ss. listThreadSummaries (sqlite_ops any_zod (host_registry any_zod))
      (thread_run (sqlite_ops any_zod (host_registry any_zod)) sample_thread_calls sqlite_new) = Inr ss \<and>
    set (map sm_id ss) = {t. facts_of t sample_thread_calls \<noteq> []}"
  using list_shows_threads [OF sample_facts_ok(2) refl] by blast

end
