(* ===== verification/IsoTime.thy ===== *)
theory IsoTime
  imports Prelude
begin

text \<open>
  The parts of ECMAScript's \<open>Date\<close> the program uses: \<open>toISOString\<close> of a time value in
  milliseconds and \<open>Date.parse\<close> of the ISO date-times the zod schemas accept, and what the
  code relies on when it compares ISO strings with \<open><\<close>: on the output of \<open>toISOString\<close> the
  order of the strings is the order of the times.
\<close>

section \<open>Days and years\<close>

definition day_from_year :: "int \<Rightarrow> int" where
  "day_from_year y = 365 * (y - 1970) + (y - 1969) div 4 - (y - 1901) div 100 + (y - 1601) div 400"

definition leap_year :: "int \<Rightarrow> bool" where
  "leap_year y \<longleftrightarrow> y mod 4 = 0 \<and> (y mod 100 \<noteq> 0 \<or> y mod 400 = 0)"

text \<open>The year a day lies in: a linear estimate is off by at most one.\<close>

definition year_of_day :: "int \<Rightarrow> int" where
  "year_of_day d =
     (let y = (400 * d) div 146097 + 1970
      in if d < day_from_year y then y - 1 else if day_from_year (y + 1) \<le> d then y + 1 else y)"

lemma div_bounds: "0 < n \<Longrightarrow> n * (a div n) \<le> a \<and> a < n * (a div n) + n" for a n :: int
  using pos_mod_bound [of n a] pos_mod_sign [of n a] mult_div_mod_eq [of n a] by linarith

lemma day_from_year_bounds:
  "400 * day_from_year y \<le> 146097 * (y - 1970) + 589"
  "146097 * (y - 1970) - 506 \<le> 400 * day_from_year y"
proof -
  define a b c where abc: "a = (y - 1969) div 4" "b = (y - 1901) div 100" "c = (y - 1601) div 400"
  note div_bounds [OF zero_less_numeral]
  then have "4 * a \<le> y - 1969" "y - 1969 < 4 * a + 4" "100 * b \<le> y - 1901" "y - 1901 < 100 * b + 100"
    "400 * c \<le> y - 1601" "y - 1601 < 400 * c + 400" unfolding abc by blast+
  moreover have "day_from_year y = 365 * (y - 1970) + a - b + c" unfolding day_from_year_def abc ..
  ultimately show "400 * day_from_year y \<le> 146097 * (y - 1970) + 589"
    "146097 * (y - 1970) - 506 \<le> 400 * day_from_year y" by simp_all
qed

lemma succ_div: "0 < n \<Longrightarrow> (x + 1) div n = x div n + (if (x + 1) mod n = 0 then 1 else 0)" for x n :: int
proof -
  assume n: "0 < n"
  have x: "x + 1 = n * (x div n) + (x mod n + 1)" by (simp add: mult_div_mod_eq algebra_simps)
  show ?thesis
  proof (cases "x mod n + 1 = n")
    case True
    then have "x + 1 = n * (x div n + 1)" using x by (simp add: algebra_simps)
    with n show ?thesis by simp
  next
    case False
    have r: "0 \<le> x mod n + 1" "x mod n + 1 < n"
      using pos_mod_sign [OF n, of x] pos_mod_bound [OF n, of x] False by linarith+
    have "(x + 1) div n = x div n" "(x + 1) mod n = x mod n + 1"
      using int_div_pos_eq [OF x r] int_mod_pos_eq [OF x r] .
    with r pos_mod_sign [OF n, of x] show ?thesis by simp
  qed
qed

lemma mod_zero_shift: "k mod n = 0 \<Longrightarrow> (y - k) mod n = 0 \<longleftrightarrow> y mod n = 0" for y k n :: int
  by (metis dvd_eq_mod_eq_0 dvd_add diff_add_cancel dvd_diff)

lemma mod_zero_trans: "m mod n = 0 \<Longrightarrow> y mod m = 0 \<Longrightarrow> y mod n = 0" for y m n :: int
  by (meson dvd_eq_mod_eq_0 dvd_trans)

lemma succ_step:
  fixes x y k n :: int
  assumes "0 < n" and "k mod n = 0" and "x + 1 = y - k"
  shows "(y - k) div n = x div n + (if y mod n = 0 then 1 else 0)"
  using succ_div [OF assms(1), of x] unfolding assms(3) mod_zero_shift [OF assms(2)] .

lemma leap_sum:
  fixes x :: int
  assumes "c \<Longrightarrow> b" and "b \<Longrightarrow> a"
  shows "x + 365 + (if a then 1 else 0) - (if b then 1 else 0) + (if c then 1 else 0) =
    x + (if a \<and> (\<not> b \<or> c) then 366 else 365)"
proof (cases c)
  case True
  with assms have b a by blast+
  with True show ?thesis by simp
next
  case False
  with assms show ?thesis by (cases b; cases a) simp_all
qed

lemma day_from_year_Suc:
  "day_from_year (y + 1) = day_from_year y + (if leap_year y then 366 else 365)"
proof -
  have shift: "y + 1 - 1969 = y - 1968" "y + 1 - 1901 = y - 1900" "y + 1 - 1601 = y - 1600" by simp_all
  have imp: "y mod 100 = 0" if "y mod 400 = 0" using that mod_zero_trans [of 400 100 y] by simp
  have imp': "y mod 4 = 0" if "y mod 100 = 0" using that mod_zero_trans [of 100 4 y] by simp
  define a b c where abc: "a = (y - 1969) div 4" "b = (y - 1901) div 100" "c = (y - 1601) div 400"
  have succ: "(y - 1968) div 4 = a + (if y mod 4 = 0 then 1 else 0)"
    "(y - 1900) div 100 = b + (if y mod 100 = 0 then 1 else 0)"
    "(y - 1600) div 400 = c + (if y mod 400 = 0 then 1 else 0)"
    unfolding abc by (rule succ_step; simp)+
  have "day_from_year (y + 1) = 365 * (y + 1 - 1970) + (y - 1968) div 4 - (y - 1900) div 100 + (y - 1600) div 400"
    unfolding day_from_year_def shift ..
  also have "\<dots> = 365 * (y - 1970) + a - b + c + 365 + (if y mod 4 = 0 then 1 else 0) -
      (if y mod 100 = 0 then 1 else 0) + (if y mod 400 = 0 then 1 else 0)"
    unfolding succ by simp
  also have "365 * (y - 1970) + a - b + c = day_from_year y" unfolding day_from_year_def abc ..
  finally have "day_from_year (y + 1) = day_from_year y + 365 + (if y mod 4 = 0 then 1 else 0) -
      (if y mod 100 = 0 then 1 else 0) + (if y mod 400 = 0 then 1 else 0)" .
  then show ?thesis unfolding leap_year_def by (rule trans [OF _ leap_sum [OF imp imp']])
qed

lemma day_from_year_pred: "day_from_year (y - 1) \<le> day_from_year y - 365"
  using day_from_year_Suc [of "y - 1"] by (simp split: if_splits)

lemma year_of_day:
  "day_from_year (year_of_day d) \<le> d" "d < day_from_year (year_of_day d + 1)"
proof -
  let ?y = "(400 * d) div 146097 + 1970"
  note est = div_bounds [of 146097 "400 * d"]
  have lo: "day_from_year ?y \<le> d + 1" using day_from_year_bounds(1) [of ?y] est by simp
  have hi: "d < day_from_year (?y + 2)" using day_from_year_bounds(2) [of "?y + 2"] est by simp
  show "day_from_year (year_of_day d) \<le> d" "d < day_from_year (year_of_day d + 1)"
    using lo hi day_from_year_pred [of ?y] by (auto simp: year_of_day_def Let_def algebra_simps)
qed

lemma day_from_year_less: "y < y' \<Longrightarrow> day_from_year (y + 1) \<le> day_from_year y'"
proof (induction "nat (y' - y - 1)" arbitrary: y')
  case 0
  then have "y' = y + 1" by simp
  then show ?case by simp
next
  case (Suc n)
  then have "day_from_year (y + 1) \<le> day_from_year (y' - 1)" by (intro Suc.hyps(1)) linarith+
  also have "\<dots> \<le> day_from_year y'" using day_from_year_Suc [of "y' - 1"] by (simp split: if_splits)
  finally show ?case .
qed

lemma year_of_day_unique: "day_from_year y \<le> d \<Longrightarrow> d < day_from_year (y + 1) \<Longrightarrow> year_of_day d = y"
  using year_of_day [of d] day_from_year_less [of y "year_of_day d"] day_from_year_less [of "year_of_day d" y]
  by (cases y "year_of_day d" rule: linorder_cases) auto

lemma year_of_day_mono: "d \<le> d' \<Longrightarrow> year_of_day d \<le> year_of_day d'"
  using year_of_day [of d] year_of_day [of d'] day_from_year_less [of "year_of_day d'" "year_of_day d"]
  by (cases "year_of_day d \<le> year_of_day d'") auto

lemma day_in_year: "0 \<le> d - day_from_year (year_of_day d)"
  "d - day_from_year (year_of_day d) < (if leap_year (year_of_day d) then 366 else 365)"
  using year_of_day [of d] day_from_year_Suc [of "year_of_day d"] by (auto split: if_splits)

section \<open>Months\<close>

definition month_lengths :: "bool \<Rightarrow> nat list" where
  "month_lengths leap = [31, if leap then 29 else 28, 31, 30, 31, 30, 31, 31, 30, 31, 30, 31]"

fun split_month :: "nat \<Rightarrow> nat list \<Rightarrow> nat \<Rightarrow> nat \<times> nat" where
  "split_month m [] d = (m, d + 1)"
| "split_month m (l # ls) d = (if d < l then (m, d + 1) else split_month (m + 1) ls (d - l))"

definition month_day :: "bool \<Rightarrow> nat \<Rightarrow> nat \<times> nat" where
  "month_day leap yd = split_month 1 (month_lengths leap) yd"

definition year_day :: "bool \<Rightarrow> nat \<Rightarrow> nat \<Rightarrow> nat" where
  "year_day leap m d = sum_list (take (m - 1) (month_lengths leap)) + (d - 1)"

lemma split_month_fst: "m \<le> fst (split_month m ls d)"
proof (induction m ls d rule: split_month.induct)
  case (2 m l ls d)
  then show ?case by (cases "d < l") auto
qed simp

lemma split_month_inverse:
  "split_month m ls d = (a, b) \<Longrightarrow> sum_list (take (a - m) ls) + b = d + 1 \<and> 1 \<le> b"
proof (induction ls arbitrary: m d)
  case (Cons l ls)
  show ?case
  proof (cases "d < l")
    case False
    with Cons.prems have s: "split_month (m + 1) ls (d - l) = (a, b)" by simp
    have "m + 1 \<le> a" using split_month_fst [of "m + 1" ls "d - l"] s by simp
    then have "a - m = Suc (a - (m + 1))" by simp
    with Cons.IH [OF s] False show ?thesis by (simp add: not_less) linarith
  qed (use Cons.prems in auto)
qed auto

lemma split_month_bounds:
  "split_month m ls d = (a, b) \<Longrightarrow> d < sum_list ls \<Longrightarrow> a < m + length ls \<and> b \<le> ls ! (a - m)"
proof (induction ls arbitrary: m d)
  case (Cons l ls)
  show ?case
  proof (cases "d < l")
    case False
    with Cons.prems have s: "split_month (m + 1) ls (d - l) = (a, b)" "d - l < sum_list ls" by auto
    have "m + 1 \<le> a" using split_month_fst [of "m + 1" ls "d - l"] s by simp
    with Cons.IH [OF s] show ?thesis by (auto simp: nth_Cons' )
  qed (use Cons.prems in auto)
qed simp

lemma split_month_less:
  "d < d' \<Longrightarrow> split_month m ls d = (a, b) \<Longrightarrow> split_month m ls d' = (a', b') \<Longrightarrow>
   a < a' \<or> (a = a' \<and> b < b')"
proof (induction ls arbitrary: m d d')
  case (Cons l ls)
  consider "d' < l" | "d < l" "\<not> d' < l" | "\<not> d < l" "\<not> d' < l" using Cons.prems(1) by linarith
  then show ?case
  proof cases
    case 2
    with Cons.prems split_month_fst [of "m + 1" ls "d' - l"] show ?thesis by auto
  next
    case 3
    with Cons.prems show ?thesis by (intro Cons.IH [of "d - l" "d' - l" "m + 1"]) auto
  qed (use Cons.prems in auto)
qed auto

lemma month_day:
  assumes "yd < (if leap then 366 else 365)" and "month_day leap yd = (m, d)"
  shows "1 \<le> m" "m \<le> 12" "1 \<le> d" "d \<le> 31" "year_day leap m d = yd"
proof -
  have s: "split_month 1 (month_lengths leap) yd = (m, d)" using assms(2) by (simp add: month_day_def)
  have "yd < sum_list (month_lengths leap)" using assms(1) by (simp add: month_lengths_def split: if_splits)
  from split_month_bounds [OF s this] have b: "m < 13" "d \<le> month_lengths leap ! (m - 1)"
    by (simp_all add: month_lengths_def)
  show "1 \<le> m" using split_month_fst [of 1 "month_lengths leap" yd] s by simp
  show "m \<le> 12" using b by simp
  show "1 \<le> d" "year_day leap m d = yd" using split_month_inverse [OF s] by (auto simp: year_day_def)
  have "month_lengths leap ! (m - 1) \<in> set (month_lengths leap)" using b by (intro nth_mem) (simp add: month_lengths_def)
  then have "month_lengths leap ! (m - 1) \<le> 31" by (auto simp: month_lengths_def split: if_splits)
  with b show "d \<le> 31" by simp
qed

section \<open>Decimal fields\<close>

definition digit_char :: "int \<Rightarrow> char" where
  "digit_char n = char_of (48 + n)"

definition char_digit :: "char \<Rightarrow> int option" where
  "char_digit c = (let k = of_char c in if 48 \<le> k \<and> k < 58 then Some (k - 48) else None)"

fun pad :: "nat \<Rightarrow> int \<Rightarrow> string" where
  "pad 0 n = []"
| "pad (Suc w) n = pad w (n div 10) @ [digit_char (n mod 10)]"

text \<open>Reads a field of digits; any other character is not a number.\<close>

definition field_val :: "string \<Rightarrow> int option" where
  "field_val s = fold (\<lambda>c acc. case (acc, char_digit c) of (Some a, Some k) \<Rightarrow> Some (10 * a + k) | _ \<Rightarrow> None)
     s (Some 0)"

lemma length_pad [simp]: "length (pad w n) = w"
  by (induction w arbitrary: n) auto

lemma digit_cases: "0 \<le> n \<Longrightarrow> n < 10 \<Longrightarrow> n \<in> set [0, 1, 2, 3, 4, 5, 6, 7, 8, 9]" for n :: int
  by (simp, presburger)

lemma char_digit_digit [simp]: "0 \<le> n \<Longrightarrow> n < 10 \<Longrightarrow> char_digit (digit_char n) = Some n"
proof -
  have "list_all (\<lambda>n. char_digit (digit_char n) = Some n) [0, 1, 2, 3, 4, 5, 6, 7, 8, 9]" by code_simp
  then show "0 \<le> n \<Longrightarrow> n < 10 \<Longrightarrow> char_digit (digit_char n) = Some n"
    using digit_cases [of n] unfolding list_all_iff by blast
qed

lemma digit_char_less: "0 \<le> a \<Longrightarrow> a < 10 \<Longrightarrow> 0 \<le> b \<Longrightarrow> b < 10 \<Longrightarrow> digit_char a < digit_char b \<longleftrightarrow> a < b"
proof -
  have "list_all (\<lambda>a. list_all (\<lambda>b. digit_char a < digit_char b \<longleftrightarrow> a < b) [0, 1, 2, 3, 4, 5, 6, 7, 8, 9])
      [0, 1, 2, 3, 4, 5, 6, 7, 8, 9]" by code_simp
  then show "0 \<le> a \<Longrightarrow> a < 10 \<Longrightarrow> 0 \<le> b \<Longrightarrow> b < 10 \<Longrightarrow> digit_char a < digit_char b \<longleftrightarrow> a < b"
    using digit_cases [of a] digit_cases [of b] unfolding list_all_iff by blast
qed

lemma div10_bounds: "0 \<le> n \<Longrightarrow> n < 10 ^ Suc w \<Longrightarrow> 0 \<le> n div 10 \<and> n div 10 < 10 ^ w" for n :: int
  using div_bounds [of 10 n] by (auto simp: pos_imp_zdiv_nonneg_iff)

lemma field_val_pad: "0 \<le> n \<Longrightarrow> n < 10 ^ w \<Longrightarrow> field_val (pad w n) = Some n"
proof (induction w arbitrary: n)
  case 0
  then show ?case by (simp add: field_val_def)
next
  case (Suc w)
  with div10_bounds [OF Suc.prems] have "field_val (pad w (n div 10)) = Some (n div 10)" by blast
  then show ?case by (simp add: field_val_def)
qed

text \<open>Strings compare field by field when the fields have fixed lengths.\<close>

lemma append_less_iff:
  "length a = length b \<Longrightarrow> a @ x < b @ y \<longleftrightarrow> a < b \<or> (a = b \<and> x < y)" for a b x y :: string
  by (induction a b rule: list_induct2) auto

lemma div_mod_less: "a < b \<longleftrightarrow> a div 10 < b div 10 \<or> (a div 10 = b div 10 \<and> a mod 10 < b mod 10)"
  for a b :: int
proof -
  have split: "10 * q + r < 10 * q' + r' \<longleftrightarrow> q < q' \<or> (q = q' \<and> r < r')"
    if "0 \<le> r" "r < 10" "0 \<le> r'" "r' < 10" for q q' r r' :: int
  proof (cases q q' rule: linorder_cases)
    case less
    with that show ?thesis by simp
  next
    case greater
    with that show ?thesis by simp
  qed simp
  from split [of "a mod 10" "b mod 10" "a div 10" "b div 10"] show ?thesis by simp
qed

lemma pad_inject:
  "0 \<le> a \<Longrightarrow> a < 10 ^ w \<Longrightarrow> 0 \<le> b \<Longrightarrow> b < 10 ^ w \<Longrightarrow> pad w a = pad w b \<longleftrightarrow> a = b"
  by (metis field_val_pad option.inject)

lemma pad_less:
  "0 \<le> a \<Longrightarrow> a < 10 ^ w \<Longrightarrow> 0 \<le> b \<Longrightarrow> b < 10 ^ w \<Longrightarrow> pad w a < pad w b \<longleftrightarrow> a < b"
proof (induction w arbitrary: a b)
  case (Suc w)
  note div = div10_bounds [OF Suc.prems(1,2)] div10_bounds [OF Suc.prems(3,4)]
  have "pad (Suc w) a < pad (Suc w) b \<longleftrightarrow>
      a div 10 < b div 10 \<or> (a div 10 = b div 10 \<and> a mod 10 < b mod 10)"
    using div by (simp add: append_less_iff Suc.IH pad_inject digit_char_less)
  also have "\<dots> \<longleftrightarrow> a < b" by (rule div_mod_less [symmetric])
  finally show ?case .
qed simp

section \<open>toISOString\<close>

abbreviation MS_PER_DAY :: int where
  "MS_PER_DAY \<equiv> 86400000"

definition iso_month_day :: "bool \<Rightarrow> nat \<Rightarrow> string" where
  "iso_month_day leap yd = (case month_day leap yd of (m, d) \<Rightarrow> pad 2 (int m) @ ''-'' @ pad 2 (int d))"

definition iso_clock :: "int \<Rightarrow> string" where
  "iso_clock ms = pad 2 (ms div 3600000) @ '':'' @ pad 2 (ms div 60000 mod 60) @ '':'' @
     pad 2 (ms div 1000 mod 60) @ ''.'' @ pad 3 (ms mod 1000)"

text \<open>The year: four digits from 0 to 9999, a sign and six digits outside.\<close>

definition iso_year :: "int \<Rightarrow> string" where
  "iso_year y =
     (if 0 \<le> y \<and> y \<le> 9999 then pad 4 y else (if y < 0 then ''-'' else ''+'') @ pad 6 \<bar>y\<bar>)"

text \<open>
  \<open>new Date(t).toISOString()\<close>: it throws a \<open>RangeError\<close> when the time is outside the range of
  \<open>Date\<close>, 100 million days around 1970.
\<close>

definition iso_date :: "int \<Rightarrow> string" where
  "iso_date d = (let y = year_of_day d
     in iso_year y @ ''-'' @ iso_month_day (leap_year y) (nat (d - day_from_year y)))"

definition toISOString :: "int \<Rightarrow> string option" where
  "toISOString t =
     (if \<bar>t\<bar> > 8640000000000000 then None
      else Some (iso_date (t div MS_PER_DAY) @ ''T'' @ iso_clock (t mod MS_PER_DAY) @ ''Z''))"

section \<open>Date.parse\<close>

text \<open>The seconds after \<open>hh:mm\<close> and the final Z, in milliseconds: absent, \<open>:ss\<close> or \<open>:ss.f...\<close>.\<close>

definition parse_seconds :: "string \<Rightarrow> int option" where
  "parse_seconds s =
     (if s = ''Z'' then Some 0
      else if length s < 4 \<or> hd s \<noteq> CHR '':'' \<or> last s \<noteq> CHR ''Z'' then None
      else case field_val (take 2 (drop 1 s)) of
        None \<Rightarrow> None
      | Some sec \<Rightarrow>
          (let f = butlast (drop 3 s)
           in if f = [] then (if sec < 60 then Some (1000 * sec) else None)
              else if hd f \<noteq> CHR ''.'' \<or> tl f = [] then None
              else case (field_val (tl f), field_val (take 3 (tl f @ ''00''))) of
                (Some _, Some ms) \<Rightarrow> if sec < 60 then Some (1000 * sec + ms) else None
              | _ \<Rightarrow> None))"

text \<open>
  \<open>Date.parse\<close> on the format the schemas accept, \<open>YYYY-MM-DDThh:mm[:ss[.f...]]Z\<close>; \<open>None\<close> is
  NaN. The schemas let only days through that the month has.
\<close>

definition date_parse :: "string \<Rightarrow> int option" where
  "date_parse s =
     (if length s < 17 \<or> s ! 4 \<noteq> CHR ''-'' \<or> s ! 7 \<noteq> CHR ''-'' \<or> s ! 10 \<noteq> CHR ''T'' \<or> s ! 13 \<noteq> CHR '':''
      then None
      else case (field_val (take 4 s), field_val (take 2 (drop 5 s)), field_val (take 2 (drop 8 s)),
          field_val (take 2 (drop 11 s)), field_val (take 2 (drop 14 s)), parse_seconds (drop 16 s)) of
        (Some y, Some m, Some d, Some h, Some mi, Some ms) \<Rightarrow>
          if 1 \<le> m \<and> m \<le> 12 \<and> 1 \<le> d \<and> d \<le> 31 \<and> h < 24 \<and> mi < 60
          then Some (MS_PER_DAY * (day_from_year y + int (year_day (leap_year y) (nat m) (nat d))) +
            (3600000 * h + 60000 * mi + ms))
          else None
      | _ \<Rightarrow> None)"

lemma date_examples:
  "toISOString 0 = Some ''1970-01-01T00:00:00.000Z''"
  "toISOString 1772323199999 = Some ''2026-02-28T23:59:59.999Z''"
  "date_parse ''2024-02-29T12:00Z'' = Some 1709208000000"
  "date_parse ''2024-02-29T12:00:00.5Z'' = Some 1709208000500"
  by code_simp+

section \<open>Parsing what was printed\<close>

text \<open>The times whose year has four digits: from \<open>0000-01-01\<close> to the end of 9999.\<close>

definition four_digit_year :: "int \<Rightarrow> bool" where
  "four_digit_year t \<longleftrightarrow> -62167219200000 \<le> t \<and> t < 253402300800000"

lemma four_digit_range: "four_digit_year t \<Longrightarrow> \<not> \<bar>t\<bar> > 8640000000000000"
  unfolding four_digit_year_def not_less abs_le_iff by simp

lemma four_digit_day:
  assumes "four_digit_year t" and "d = t div MS_PER_DAY"
  shows "0 \<le> year_of_day d" "year_of_day d \<le> 9999"
proof -
  note div_bounds [OF zero_less_numeral]
  then have "MS_PER_DAY * d \<le> t" "t < MS_PER_DAY * d + MS_PER_DAY" unfolding assms(2) by blast+
  with assms(1) have "-719528 \<le> d" "d \<le> 2932896" unfolding four_digit_year_def by linarith+
  moreover have "year_of_day (-719528) = 0" "year_of_day 2932896 = 9999" by code_simp+
  ultimately show "0 \<le> year_of_day d" "year_of_day d \<le> 9999"
    using year_of_day_mono [of "-719528" d] year_of_day_mono [of d 2932896] by metis+
qed

text \<open>A time of day as hours, minutes, seconds and milliseconds.\<close>

lemma clock_fields:
  fixes ms :: int
  assumes "0 \<le> ms" and "ms < 86400000"
  obtains h mi sec f where "ms div 3600000 = h" "ms div 60000 mod 60 = mi" "ms div 1000 mod 60 = sec"
    "ms mod 1000 = f" "ms = 3600000 * h + 60000 * mi + 1000 * sec + f"
    "0 \<le> h" "h < 24" "0 \<le> mi" "mi < 60" "0 \<le> sec" "sec < 60" "0 \<le> f" "f < 1000"
proof -
  define f q where fq: "f = ms mod 1000" "q = ms div 1000"
  define sec r where sr: "sec = q mod 60" "r = q div 60"
  define mi h where mh: "mi = r mod 60" "h = r div 60"
  have div: "ms div 60000 = r" "ms div 3600000 = h"
    unfolding fq sr mh by (simp_all add: zdiv_zmult2_eq [symmetric])
  have eqs: "ms = 1000 * q + f" "q = 60 * r + sec" "r = 60 * h + mi"
    unfolding fq sr mh by (rule mult_div_mod_eq [symmetric])+
  have bounds: "0 \<le> mi" "mi < 60" "0 \<le> sec" "sec < 60" "0 \<le> f" "f < 1000"
    unfolding fq sr mh by simp_all
  have "0 \<le> h" "h < 24" using eqs bounds assms by linarith+
  moreover have "ms = 3600000 * h + 60000 * mi + 1000 * sec + f" using eqs by linarith
  moreover have "ms div 60000 mod 60 = mi" "ms div 1000 mod 60 = sec" "ms mod 1000 = f"
    unfolding div(1) mh(1) sr(1) fq by (rule refl)+
  ultimately show thesis using that div(2) bounds by blast
qed

lemma list_of_length:
  "length xs = 2 \<Longrightarrow> \<exists>a b. xs = [a, b]" "length xs = 3 \<Longrightarrow> \<exists>a b c. xs = [a, b, c]"
  "length xs = 4 \<Longrightarrow> \<exists>a b c d. xs = [a, b, c, d]"
  by (auto simp: length_Suc_conv numeral_eq_Suc)

lemma parse_clock:
  assumes "0 \<le> sec" "sec < 60" and "0 \<le> ms" "ms < 1000"
  shows "parse_seconds ('':'' @ pad 2 sec @ ''.'' @ pad 3 ms @ ''Z'') = Some (1000 * sec + ms)"
proof -
  obtain a b where sec: "pad 2 sec = [a, b]" using list_of_length(1) [OF length_pad] by blast
  obtain c d e where ms: "pad 3 ms = [c, d, e]" using list_of_length(2) [OF length_pad] by blast
  have "field_val [a, b] = Some sec" "field_val [c, d, e] = Some ms"
    using field_val_pad [of sec 2] field_val_pad [of ms 3] assms sec ms by simp_all
  then show ?thesis unfolding sec ms using assms(2) by (simp add: parse_seconds_def)
qed

text \<open>The fields of a date and of a clock, read from fixed places of the string.\<close>

lemma date_parse_fields:
  assumes "0 \<le> y" "y \<le> 9999" and "1 \<le> m" "m \<le> 12" and "1 \<le> d" "d \<le> 31" and "0 \<le> h" "h < 24"
    and "0 \<le> mi" "mi < 60" and "parse_seconds rest = Some ms" and "rest \<noteq> []"
  shows "date_parse (pad 4 y @ ''-'' @ pad 2 m @ ''-'' @ pad 2 d @ ''T'' @ pad 2 h @ '':'' @ pad 2 mi @ rest) =
    Some (MS_PER_DAY * (day_from_year y + int (year_day (leap_year y) (nat m) (nat d))) +
      (3600000 * h + 60000 * mi + ms))"
proof -
  obtain a1 a2 a3 a4 where A: "pad 4 y = [a1, a2, a3, a4]" using list_of_length(3) [OF length_pad] by blast
  obtain b1 b2 where B: "pad 2 m = [b1, b2]" using list_of_length(1) [OF length_pad] by blast
  obtain c1 c2 where C: "pad 2 d = [c1, c2]" using list_of_length(1) [OF length_pad] by blast
  obtain e1 e2 where E: "pad 2 h = [e1, e2]" using list_of_length(1) [OF length_pad] by blast
  obtain f1 f2 where F: "pad 2 mi = [f1, f2]" using list_of_length(1) [OF length_pad] by blast
  have "field_val [a1, a2, a3, a4] = Some y" "field_val [b1, b2] = Some m" "field_val [c1, c2] = Some d"
    "field_val [e1, e2] = Some h" "field_val [f1, f2] = Some mi"
    unfolding A [symmetric] B [symmetric] C [symmetric] E [symmetric] F [symmetric]
    using assms by (auto intro!: field_val_pad)
  with assms show ?thesis unfolding A B C E F by (cases rest) (simp_all add: date_parse_def)
qed

text \<open>
  \<open>Date.parse\<close> inverts \<open>toISOString\<close>: every time with a four-digit year prints, and what
  is printed parses back to the millisecond.
\<close>

theorem iso_roundtrip:
  assumes "four_digit_year t"
  shows "\<exists>s. toISOString t = Some s \<and> date_parse s = Some t"
proof -
  define d ms where dm: "d = t div MS_PER_DAY" "ms = t mod MS_PER_DAY"
  have t: "t = MS_PER_DAY * d + ms" unfolding dm by simp
  define y where "y = year_of_day d"
  note y = four_digit_day [OF assms dm(1), folded y_def]
  have yd: "nat (d - day_from_year y) < (if leap_year y then 366 else 365)"
    using day_in_year [of d] unfolding y_def [symmetric] by (auto split: if_splits)
  obtain m k where md: "month_day (leap_year y) (nat (d - day_from_year y)) = (m, k)" by fastforce
  note md' = month_day [OF yd md]
  have "0 \<le> ms" "ms < 86400000" unfolding dm by simp_all
  then obtain h mi sec f where clock: "ms div 3600000 = h" "ms div 60000 mod 60 = mi"
    "ms div 1000 mod 60 = sec" "ms mod 1000 = f" and ms: "ms = 3600000 * h + 60000 * mi + 1000 * sec + f"
    and r: "0 \<le> h" "h < 24" "0 \<le> mi" "mi < 60" "0 \<le> sec" "sec < 60" "0 \<le> f" "f < 1000"
    by (rule clock_fields)
  have sec: "parse_seconds ('':'' @ pad 2 sec @ ''.'' @ pad 3 f @ ''Z'') = Some (1000 * sec + f)"
    using r by (intro parse_clock)
  have print: "toISOString t = Some (iso_date d @ ''T'' @ iso_clock ms @ ''Z'')"
    using four_digit_range [OF assms] unfolding toISOString_def dm by simp
  have fields: "iso_date d @ ''T'' @ iso_clock ms @ ''Z'' =
      pad 4 y @ ''-'' @ pad 2 (int m) @ ''-'' @ pad 2 (int k) @ ''T'' @ pad 2 h @ '':'' @ pad 2 mi @
      ('':'' @ pad 2 sec @ ''.'' @ pad 3 f @ ''Z'')"
    unfolding iso_date_def iso_clock_def iso_month_day_def iso_year_def clock Let_def y_def [symmetric] md
    using y by simp
  have "date_parse (iso_date d @ ''T'' @ iso_clock ms @ ''Z'') =
      Some (MS_PER_DAY * (day_from_year y + int (year_day (leap_year y) m k)) +
        (3600000 * h + 60000 * mi + (1000 * sec + f)))"
    unfolding fields using date_parse_fields [OF y _ _ _ _ r(1-4) sec, of "int m" "int k"] md' by simp
  also have "int (year_day (leap_year y) m k) = d - day_from_year y"
    using day_in_year(1) [of d] md'(5) unfolding y_def by simp
  also have "MS_PER_DAY * (day_from_year y + (d - day_from_year y)) +
      (3600000 * h + 60000 * mi + (1000 * sec + f)) = t" unfolding t ms by simp
  finally show ?thesis using print by blast
qed

lemma iso_roundtrip_witness: "date_parse (the (toISOString 1772323199999)) = Some 1772323199999"
proof -
  have "four_digit_year 1772323199999" by (simp add: four_digit_year_def)
  from iso_roundtrip [OF this] show ?thesis by auto
qed

section \<open>The order of the strings\<close>

lemma iso_month_day_less:
  assumes "a < b" and "b < (if leap then 366 else 365)"
  shows "iso_month_day leap a < iso_month_day leap b"
proof -
  obtain m d where md: "month_day leap a = (m, d)" by fastforce
  obtain m' d' where md': "month_day leap b = (m', d')" by fastforce
  have "a < (if leap then 366 else 365)" using assms by simp
  note A = month_day [OF this md] and B = month_day [OF assms(2) md']
  have "m < m' \<or> (m = m' \<and> d < d')"
    using split_month_less [OF assms(1)] md md' unfolding month_day_def by blast
  with A B have "pad 2 (int m) < pad 2 (int m') \<or> (m = m' \<and> pad 2 (int d) < pad 2 (int d'))"
    by (simp add: pad_less)
  then show ?thesis unfolding iso_month_day_def md md' by (auto simp: append_less_iff)
qed

lemma length_iso_month_day: "length (iso_month_day leap a) = 5"
  by (simp add: iso_month_day_def split: prod.splits)

lemma iso_date_less:
  assumes "d < d'" and "0 \<le> year_of_day d" "year_of_day d \<le> 9999"
    and "0 \<le> year_of_day d'" "year_of_day d' \<le> 9999"
  shows "iso_date d < iso_date d'"
proof (cases "year_of_day d = year_of_day d'")
  case True
  have "nat (d - day_from_year (year_of_day d')) < nat (d' - day_from_year (year_of_day d'))"
    using assms(1) day_in_year(1) [of d] True by simp
  moreover have "nat (d' - day_from_year (year_of_day d')) <
      (if leap_year (year_of_day d') then 366 else 365)"
    using day_in_year [of d'] by (auto split: if_splits)
  ultimately have "iso_month_day (leap_year (year_of_day d')) (nat (d - day_from_year (year_of_day d'))) <
      iso_month_day (leap_year (year_of_day d')) (nat (d' - day_from_year (year_of_day d')))"
    by (rule iso_month_day_less)
  then show ?thesis by (simp add: iso_date_def Let_def True append_less_iff)
next
  case False
  with year_of_day_mono [of d d'] assms(1) have "year_of_day d < year_of_day d'" by simp
  with assms show ?thesis by (simp add: iso_date_def Let_def iso_year_def append_less_iff pad_less)
qed

lemma length_iso_date: "0 \<le> year_of_day d \<Longrightarrow> year_of_day d \<le> 9999 \<Longrightarrow> length (iso_date d) = 10"
  by (simp add: iso_date_def Let_def iso_year_def length_iso_month_day)

lemma iso_clock_less:
  assumes "0 \<le> a" and "a < b" and "b < 86400000"
  shows "iso_clock a < iso_clock b"
proof -
  have a0: "0 \<le> a" "a < 86400000" and b0: "0 \<le> b" "b < 86400000" using assms by simp_all
  obtain h mi sec f where A: "a div 3600000 = h" "a div 60000 mod 60 = mi"
    "a div 1000 mod 60 = sec" "a mod 1000 = f" and a: "a = 3600000 * h + 60000 * mi + 1000 * sec + f"
    and r: "0 \<le> h" "h < 24" "0 \<le> mi" "mi < 60" "0 \<le> sec" "sec < 60" "0 \<le> f" "f < 1000"
    by (rule clock_fields [OF a0])
  obtain h' mi' sec' f' where B: "b div 3600000 = h'" "b div 60000 mod 60 = mi'"
    "b div 1000 mod 60 = sec'" "b mod 1000 = f'" and b: "b = 3600000 * h' + 60000 * mi' + 1000 * sec' + f'"
    and r': "0 \<le> h'" "h' < 24" "0 \<le> mi'" "mi' < 60" "0 \<le> sec'" "sec' < 60" "0 \<le> f'" "f' < 1000"
    by (rule clock_fields [OF b0])
  have "h < h' \<or> (h = h' \<and> (mi < mi' \<or> (mi = mi' \<and> (sec < sec' \<or> (sec = sec' \<and> f < f')))))"
    using assms(2) r r' unfolding a b by linarith
  then show ?thesis
    unfolding iso_clock_def A B using r r' by (auto simp: append_less_iff pad_less pad_inject)
qed

text \<open>
  Comparing ISO strings is comparing times. For the strings \<open>toISOString\<close> gives to times
  with four-digit years, JavaScript's \<open><\<close> on the strings is the order of the times: what the
  due checks, the schedule filter and the lease expiry of the code compare.
\<close>

theorem iso_order:
  assumes "four_digit_year t" and "four_digit_year t'" and "toISOString t = Some s" and "toISOString t' = Some s'"
  shows "s < s' \<longleftrightarrow> t < t'"
proof -
  have mono: "s < s'" if T: "t < t'" "four_digit_year t" "four_digit_year t'" "toISOString t = Some s"
    "toISOString t' = Some s'" for t t' s s'
  proof -
    define d ms where dm: "d = t div MS_PER_DAY" "ms = t mod MS_PER_DAY"
    define d' ms' where dm': "d' = t' div MS_PER_DAY" "ms' = t' mod MS_PER_DAY"
    have eq: "t = MS_PER_DAY * d + ms" "t' = MS_PER_DAY * d' + ms'" unfolding dm dm' by simp_all
    have ms: "0 \<le> ms" "ms < 86400000" "0 \<le> ms'" "ms' < 86400000"
      unfolding dm dm' by (simp_all add: pos_mod_bound)
    note y = four_digit_day [OF T(2) dm(1)] four_digit_day [OF T(3) dm'(1)]
    have s: "s = iso_date d @ ''T'' @ iso_clock ms @ ''Z''" "s' = iso_date d' @ ''T'' @ iso_clock ms' @ ''Z''"
      using T(4,5) unfolding toISOString_def dm dm' by (auto split: if_splits)
    have "d < d' \<or> (d = d' \<and> ms < ms')" using T(1) ms unfolding eq by linarith
    then have "iso_date d < iso_date d' \<or> (iso_date d = iso_date d' \<and> iso_clock ms < iso_clock ms')"
      using iso_date_less [OF _ y] iso_clock_less [of ms ms'] ms by blast
    then show ?thesis
      unfolding s using length_iso_date y by (auto simp: append_less_iff iso_clock_def)
  qed
  show ?thesis
  proof (cases t t' rule: linorder_cases)
    case less
    with mono assms show ?thesis by blast
  next
    case equal
    with assms(3,4) show ?thesis by simp
  next
    case greater
    with mono assms have "s' < s" by blast
    with greater show ?thesis by simp
  qed
qed

lemma iso_order_witness: "the (toISOString 999) < the (toISOString 1000)"
proof -
  have "four_digit_year 999" "four_digit_year 1000" by (simp_all add: four_digit_year_def)
  moreover obtain s s' where "toISOString 999 = Some s" "toISOString 1000 = Some s'"
    by (simp add: toISOString_def)
  ultimately show ?thesis using iso_order [of 999 1000 s s'] by simp
qed

text \<open>
  The order does not extend to the shorter forms the schemas also accept: half a second
  later the string without a fraction still compares greater.
\<close>

lemma mixed_precision_order:
  "date_parse ''2026-01-01T00:00:00Z'' = Some 1767225600000"
  "date_parse ''2026-01-01T00:00:00.500Z'' = Some 1767225600500"
  "\<not> ''2026-01-01T00:00:00Z'' \<le> ''2026-01-01T00:00:00.500Z''"
  by code_simp+

end
