(* ===== verification/Scheduler.thy ===== *)
theory Scheduler
  imports HostEvents KanbanStore IsoTime
begin

text \<open>
  The durable scheduler (\<open>packages/runtime/src/scheduler.ts\<close>, builders of
  \<open>scheduler-events.ts\<close>): register, remove, tick, notify and rebuild of \<open>AgentScheduler\<close> over a
  Chronicle. The turns it drives are the port the class takes: a function from thread, input
  and store to the store after the turn and its result, \<open>None\<close> when the turn throws.
  Operations run one after the other, as \<open>#serialize\<close> arranges for tick, notify and rebuild.
\<close>

section \<open>Event builders\<close>

definition SCHEDULER_ACTOR :: chronicle_actor where
  "SCHEDULER_ACTOR = \<lparr>actor_type = SystemActor, actor_id = ''bee-scheduler''\<rparr>"

definition schedulerEvent :: "string \<Rightarrow> string \<Rightarrow> chronicle_actor option \<Rightarrow> string option \<Rightarrow>
    scheduler_payload \<Rightarrow> payload new_event" where
  "schedulerEvent uuid now actor threadId p =
     newChronicleEvent uuid now (plain_input (scheduler_event_type p) (coalesce actor SCHEDULER_ACTOR)
       (no_scope\<lparr>sc_thread := threadId\<rparr>) (SchedulerP p))"

definition schedulerTriggerRegisteredEvent :: "string \<Rightarrow> string \<Rightarrow> chronicle_actor option \<Rightarrow>
    scheduler_trigger \<Rightarrow> payload new_event" where
  "schedulerTriggerRegisteredEvent uuid now actor t =
     schedulerEvent uuid now actor (Some (tr_threadId t)) (SRegisteredP t)"

text \<open>This builder parses its payload: a malformed one throws.\<close>

definition schedulerTriggerTriggeredEvent :: "zod \<Rightarrow> string \<Rightarrow> string \<Rightarrow> chronicle_actor option \<Rightarrow>
    triggered_payload \<Rightarrow> payload new_event option" where
  "schedulerTriggerTriggeredEvent z uuid now actor p =
     (if triggered_payload_ok z p
      then Some (schedulerEvent uuid now actor (Some (tp_threadId p)) (STriggeredP p)) else None)"

definition schedulerTriggerRemovedEvent :: "string \<Rightarrow> string \<Rightarrow> chronicle_actor option \<Rightarrow> string \<Rightarrow>
    string option \<Rightarrow> string option \<Rightarrow> payload new_event" where
  "schedulerTriggerRemovedEvent uuid now actor triggerId reason threadId =
     schedulerEvent uuid now actor threadId (SRemovedP triggerId reason)"

section \<open>State, inputs and results\<close>

record 's scheduler =
  sch_store :: 's
  sch_triggers :: "(string, scheduler_trigger) jsmap"
  sch_tickIntervalMs :: "int option"
  sch_timer :: bool

definition sch_new :: "'s \<Rightarrow> int option \<Rightarrow> 's scheduler" where
  "sch_new s interval = \<lparr>sch_store = s, sch_triggers = [], sch_tickIntervalMs = interval, sch_timer = False\<rparr>"

datatype scheduler_error =
    InvalidInterval
  | WhenExclusive
  | TriggerNeedsCondition
  | TriggerNotFound string
  | UnknownSchedulerEventType string
  | SchedulerZodError
  | MalformedSchedulerPayload
  | SchedulerRangeError
  | SchedulerStoreError chronicle_error

record register_input =
  ri_input :: string
  ri_threadId :: string
  ri_at :: "string option"
  ri_intervalMs :: "int option"
  ri_when :: "scheduler_when option"

record fired_run =
  fr_triggerId :: string
  fr_threadId :: string
  fr_turnId :: "string option"
  fr_status :: run_status
  fr_missedIntervals :: int

type_synonym 's turn_port = "string \<Rightarrow> string \<Rightarrow> 's \<Rightarrow> 's \<times> (string \<times> run_status) option"

text \<open>
  The append loop: a sequence conflict is retried twice, with the position read again;
  anything else is thrown. \<open>retries\<close> counts the attempts left.
\<close>

fun append_tries :: "('s, payload) chronicle_ops \<Rightarrow> string \<Rightarrow> payload new_event list \<Rightarrow> nat \<Rightarrow> 's \<Rightarrow>
    's \<times> chronicle_error option" where
  "append_tries ops now evs retries s =
     (case op_append ops now SCHEDULER_STREAM_ID evs (op_latest ops SCHEDULER_STREAM_ID s + 1) s of
        (s', Inr _) \<Rightarrow> (s', None)
      | (s', Inl err) \<Rightarrow>
          (case (err, retries) of
             (ChronicleSequenceConflict _ _ _, Suc r) \<Rightarrow> append_tries ops now evs r s'
           | _ \<Rightarrow> (s', Some err)))"

definition sch_append :: "('s, payload) chronicle_ops \<Rightarrow> string \<Rightarrow> payload new_event list \<Rightarrow> 's \<Rightarrow>
    's \<times> chronicle_error option" where
  "sch_append ops now evs s = (if evs = [] then (s, None) else append_tries ops now evs 2 s)"

section \<open>Lifecycle\<close>

definition sch_start :: "'s scheduler \<Rightarrow> 's scheduler" where
  "sch_start st = (if sch_timer st \<or> sch_tickIntervalMs st = None then st else st\<lparr>sch_timer := True\<rparr>)"

definition sch_stop :: "'s scheduler \<Rightarrow> 's scheduler" where
  "sch_stop st = (if \<not> sch_timer st then st else st\<lparr>sch_timer := False\<rparr>)"

text \<open>One event of the scheduler stream folded into the projection.\<close>

definition fold_trigger :: "payload chronicle_event \<Rightarrow> (string, scheduler_trigger) jsmap \<Rightarrow>
    scheduler_error + (string, scheduler_trigger) jsmap" where
  "fold_trigger e m =
     (if ev_type e = ''scheduler.trigger.registered'' then
        (case ev_payload e of
           SchedulerP (SRegisteredP t) \<Rightarrow> Inr (jsmap_set (tr_id t) t m)
         | _ \<Rightarrow> Inl MalformedSchedulerPayload)
      else if ev_type e = ''scheduler.trigger.triggered'' then
        (case ev_payload e of
           SchedulerP (STriggeredP p) \<Rightarrow>
             (case map_of m (tp_triggerId p) of
                None \<Rightarrow> Inr m
              | Some t \<Rightarrow>
                  if tr_when t \<noteq> None then Inr (jsmap_delete (tr_id t) m)
                  else Inr (jsmap_set (tr_id t) (t\<lparr>tr_nextRunAt := tp_nextRunAt p\<rparr>) m))
         | _ \<Rightarrow> Inl MalformedSchedulerPayload)
      else if ev_type e = ''scheduler.trigger.removed'' then
        (case ev_payload e of
           SchedulerP (SRemovedP triggerId reason) \<Rightarrow> Inr (jsmap_delete triggerId m)
         | _ \<Rightarrow> Inl MalformedSchedulerPayload)
      else Inl (UnknownSchedulerEventType (ev_type e)))"

text \<open>A replay that throws leaves the projection at the event before.\<close>

fun fold_triggers :: "payload chronicle_event list \<Rightarrow> (string, scheduler_trigger) jsmap \<Rightarrow>
    (string, scheduler_trigger) jsmap \<times> scheduler_error option" where
  "fold_triggers [] m = (m, None)"
| "fold_triggers (e # es) m =
     (case fold_trigger e m of Inl err \<Rightarrow> (m, Some err) | Inr m' \<Rightarrow> fold_triggers es m')"

definition sch_rebuild :: "('s, payload) chronicle_ops \<Rightarrow> 's scheduler \<Rightarrow>
    's scheduler \<times> scheduler_error option" where
  "sch_rebuild ops st =
     (case op_read ops SCHEDULER_STREAM_ID 0 (sch_store st) of
        (es, readError) \<Rightarrow>
          (case fold_triggers es [] of
             (m, Some err) \<Rightarrow> (st\<lparr>sch_triggers := m\<rparr>, Some err)
           | (m, None) \<Rightarrow> (st\<lparr>sch_triggers := m\<rparr>, map_option SchedulerStoreError readError)))"

section \<open>Trigger management\<close>

definition sch_list :: "(string \<Rightarrow> string \<Rightarrow> int) \<Rightarrow> 's scheduler \<Rightarrow> scheduler_trigger list" where
  "sch_list lc st = js_sort (\<lambda>a b. cmp_then (lc (tr_createdAt a) (tr_createdAt b)) (lc (tr_id a) (tr_id b)))
     (jsmap_values (sch_triggers st))"

definition new_trigger :: "string \<Rightarrow> string \<Rightarrow> register_input \<Rightarrow> scheduler_trigger" where
  "new_trigger uuid now i = \<lparr>tr_id = uuid, tr_input = ri_input i, tr_threadId = ri_threadId i,
     tr_at = ri_at i, tr_intervalMs = ri_intervalMs i, tr_when = ri_when i, tr_enabled = True,
     tr_createdAt = now,
     tr_nextRunAt = (if ri_when i = None then Some (coalesce (ri_at i) now) else None)\<rparr>"

definition sch_register :: "zod \<Rightarrow> ('s, payload) chronicle_ops \<Rightarrow> env \<Rightarrow> register_input \<Rightarrow> 's scheduler \<Rightarrow>
    's scheduler \<times> (scheduler_error + scheduler_trigger)" where
  "sch_register z ops env i st =
     (let hasSchedule = (ri_at i \<noteq> None \<or> ri_intervalMs i \<noteq> None)
      in if (case ri_intervalMs i of None \<Rightarrow> False | Some n \<Rightarrow> n < 1) then (st, Inl InvalidInterval)
         else if ri_when i \<noteq> None \<and> hasSchedule then (st, Inl WhenExclusive)
         else if ri_when i = None \<and> \<not> hasSchedule then (st, Inl TriggerNeedsCondition)
         else
           let t = new_trigger (env_uuid env 0) (env_now env 0) i
           in if \<not> trigger_ok z t then (st, Inl SchedulerZodError)
              else case sch_append ops (env_now env 2)
                  [schedulerTriggerRegisteredEvent (env_uuid env 1) (env_now env 1) None t] (sch_store st) of
                (s', Some err) \<Rightarrow> (st\<lparr>sch_store := s'\<rparr>, Inl (SchedulerStoreError err))
              | (s', None) \<Rightarrow>
                  (st\<lparr>sch_store := s', sch_triggers := jsmap_set (tr_id t) t (sch_triggers st)\<rparr>, Inr t))"

definition sch_remove :: "('s, payload) chronicle_ops \<Rightarrow> env \<Rightarrow> string \<Rightarrow> string option \<Rightarrow> 's scheduler \<Rightarrow>
    's scheduler \<times> scheduler_error option" where
  "sch_remove ops env triggerId reason st =
     (case map_of (sch_triggers st) triggerId of
        None \<Rightarrow> (st, Some (TriggerNotFound triggerId))
      | Some t \<Rightarrow>
          (case sch_append ops (env_now env 1) [schedulerTriggerRemovedEvent (env_uuid env 0) (env_now env 0)
               None triggerId reason (Some (tr_threadId t))] (sch_store st) of
             (s', Some err) \<Rightarrow> (st\<lparr>sch_store := s'\<rparr>, Some (SchedulerStoreError err))
           | (s', None) \<Rightarrow>
               (st\<lparr>sch_store := s', sch_triggers := jsmap_delete triggerId (sch_triggers st)\<rparr>, None)))"

section \<open>Firing\<close>

text \<open>The missed intervals; \<open>None\<close> is NaN, from a time that does not parse.\<close>

definition missed_intervals :: "scheduler_trigger \<Rightarrow> string \<Rightarrow> int option" where
  "missed_intervals t now =
     (case (tr_intervalMs t, tr_nextRunAt t) of
        (Some interval, Some nxt) \<Rightarrow>
          (case (date_parse now, date_parse nxt) of
             (Some a, Some b) \<Rightarrow> Some (max 0 ((a - b) div interval))
           | _ \<Rightarrow> None)
      | _ \<Rightarrow> Some 0)"

text \<open>The next run: \<open>Inr None\<close> for a trigger that does not recur; printing it may throw.\<close>

definition following_run :: "scheduler_trigger \<Rightarrow> string \<Rightarrow> int option \<Rightarrow> scheduler_error + string option" where
  "following_run t now missed =
     (case (tr_intervalMs t, tr_nextRunAt t) of
        (Some interval, Some nxt) \<Rightarrow>
          (case (date_parse now, date_parse nxt, missed) of
             (Some a, Some b, Some k) \<Rightarrow>
               (case toISOString (max (b + (k + 1) * interval) (a + interval)) of
                  Some s \<Rightarrow> Inr (Some s)
                | None \<Rightarrow> Inl SchedulerRangeError)
           | _ \<Rightarrow> Inl SchedulerRangeError)
      | _ \<Rightarrow> Inr None)"

definition run_of :: "scheduler_trigger \<Rightarrow> int \<Rightarrow> (string \<times> run_status) option \<Rightarrow> fired_run" where
  "run_of t missed result = \<lparr>fr_triggerId = tr_id t, fr_threadId = tr_threadId t,
     fr_turnId = map_option fst result,
     fr_status = (case result of None \<Rightarrow> RunError | Some (_, status) \<Rightarrow> status),
     fr_missedIntervals = missed\<rparr>"

definition sch_fire :: "zod \<Rightarrow> ('s, payload) chronicle_ops \<Rightarrow> 's turn_port \<Rightarrow> env \<Rightarrow> string \<Rightarrow>
    scheduler_trigger \<Rightarrow> 's scheduler \<Rightarrow> 's scheduler \<times> (scheduler_error + fired_run)" where
  "sch_fire z ops turns env now t st =
     (let missed = missed_intervals t now
      in case turns (tr_threadId t) (tr_input t) (sch_store st) of
        (s1, result) \<Rightarrow>
          let st1 = st\<lparr>sch_store := s1\<rparr>
          in case following_run t now missed of
            Inl err \<Rightarrow> (st1, Inl err)
          | Inr following \<Rightarrow>
              (case missed of
                 None \<Rightarrow> (st1, Inl SchedulerZodError)
               | Some k \<Rightarrow>
                   let run = run_of t k result
                   in case schedulerTriggerTriggeredEvent z (env_uuid env 0) (env_now env 0) None
                       \<lparr>tp_triggerId = tr_id t, tp_threadId = tr_threadId t, tp_turnId = fr_turnId run,
                        tp_status = fr_status run, tp_firedAt = now, tp_missedIntervals = k,
                        tp_nextRunAt = following\<rparr> of
                     None \<Rightarrow> (st1, Inl SchedulerZodError)
                   | Some e \<Rightarrow>
                       (case sch_append ops (env_now env 1) [e] s1 of
                          (s2, Some err) \<Rightarrow> (st1\<lparr>sch_store := s2\<rparr>, Inl (SchedulerStoreError err))
                        | (s2, None) \<Rightarrow>
                            (st1\<lparr>sch_store := s2, sch_triggers :=
                               (if tr_when t \<noteq> None then jsmap_delete (tr_id t) (sch_triggers st)
                                else jsmap_set (tr_id t) (t\<lparr>tr_nextRunAt := following\<rparr>)
                                  (sch_triggers st))\<rparr>, Inr run))))"

definition is_due :: "string \<Rightarrow> scheduler_trigger \<Rightarrow> bool" where
  "is_due now t \<longleftrightarrow> tr_enabled t \<and> tr_when t = None \<and>
     (case tr_nextRunAt t of None \<Rightarrow> False | Some n \<Rightarrow> n \<le> now)"

definition due_triggers :: "(string \<Rightarrow> string \<Rightarrow> int) \<Rightarrow> string \<Rightarrow> 's scheduler \<Rightarrow> scheduler_trigger list" where
  "due_triggers lc now st =
     js_sort (\<lambda>a b. cmp_then (lc (coalesce (tr_nextRunAt a) []) (coalesce (tr_nextRunAt b) []))
         (lc (tr_id a) (tr_id b)))
       (filter (is_due now) (jsmap_values (sch_triggers st)))"

text \<open>The loops of a tick: each firing has its own environment; the first error ends the tick.\<close>

fun fire_all :: "zod \<Rightarrow> ('s, payload) chronicle_ops \<Rightarrow> 's turn_port \<Rightarrow> (nat \<Rightarrow> env) \<Rightarrow> nat \<Rightarrow> string \<Rightarrow>
    scheduler_trigger list \<Rightarrow> 's scheduler \<Rightarrow> 's scheduler \<times> (scheduler_error + fired_run list)" where
  "fire_all z ops turns envs n now [] st = (st, Inr [])"
| "fire_all z ops turns envs n now (t # ts) st =
     (case sch_fire z ops turns (envs n) now t st of
        (st', Inl err) \<Rightarrow> (st', Inl err)
      | (st', Inr run) \<Rightarrow>
          (case fire_all z ops turns envs (Suc n) now ts st' of
             (st'', Inl err) \<Rightarrow> (st'', Inl err)
           | (st'', Inr runs) \<Rightarrow> (st'', Inr (run # runs))))"

definition is_pending_task :: "scheduler_trigger \<Rightarrow> bool" where
  "is_pending_task t \<longleftrightarrow> tr_enabled t \<and> tr_nextRunAt t = None \<and>
     Option.bind (tr_when t) sw_taskStatus \<noteq> None"

definition reaches_status :: "when_task_status \<Rightarrow> string \<Rightarrow> payload chronicle_event \<Rightarrow> bool" where
  "reaches_status c since e \<longleftrightarrow>
     ev_type e = kanban_event_name TaskStatusChanged \<and> since < ev_ingestTime e \<and>
     (case ev_payload e of
        TaskP (KStatusChangedP from to reason task) \<Rightarrow>
          kt_id task = wt_taskId c \<and> kt_status task = wt_status c
      | _ \<Rightarrow> False)"

definition taskReachedStatus :: "('s, payload) chronicle_ops \<Rightarrow> when_task_status \<Rightarrow> string \<Rightarrow> 's \<Rightarrow>
    scheduler_error + bool" where
  "taskReachedStatus ops c since s =
     (case op_read ops (kanbanStreamId (wt_taskId c)) 0 s of
        (es, err) \<Rightarrow>
          if list_ex (reaches_status c since) es then Inr True
          else case err of None \<Rightarrow> Inr False | Some e \<Rightarrow> Inl (SchedulerStoreError e))"

fun fire_pending :: "zod \<Rightarrow> ('s, payload) chronicle_ops \<Rightarrow> 's turn_port \<Rightarrow> (nat \<Rightarrow> env) \<Rightarrow> nat \<Rightarrow> string \<Rightarrow>
    scheduler_trigger list \<Rightarrow> 's scheduler \<Rightarrow> 's scheduler \<times> (scheduler_error + fired_run list)" where
  "fire_pending z ops turns envs n now [] st = (st, Inr [])"
| "fire_pending z ops turns envs n now (t # ts) st =
     (case Option.bind (tr_when t) sw_taskStatus of
        None \<Rightarrow> fire_pending z ops turns envs n now ts st
      | Some c \<Rightarrow>
          (case taskReachedStatus ops c (tr_createdAt t) (sch_store st) of
             Inl err \<Rightarrow> (st, Inl err)
           | Inr False \<Rightarrow> fire_pending z ops turns envs n now ts st
           | Inr True \<Rightarrow>
               (case sch_fire z ops turns (envs n) now t st of
                  (st', Inl err) \<Rightarrow> (st', Inl err)
                | (st', Inr run) \<Rightarrow>
                    (case fire_pending z ops turns envs (Suc n) now ts st' of
                       (st'', Inl err) \<Rightarrow> (st'', Inl err)
                     | (st'', Inr runs) \<Rightarrow> (st'', Inr (run # runs))))))"

definition sch_tick :: "zod \<Rightarrow> ('s, payload) chronicle_ops \<Rightarrow> 's turn_port \<Rightarrow> (string \<Rightarrow> string \<Rightarrow> int) \<Rightarrow>
    (nat \<Rightarrow> env) \<Rightarrow> string \<Rightarrow> 's scheduler \<Rightarrow> 's scheduler \<times> (scheduler_error + fired_run list)" where
  "sch_tick z ops turns lc envs now st =
     (let due = due_triggers lc now st
      in case fire_all z ops turns envs 0 now due st of
        (st', Inl err) \<Rightarrow> (st', Inl err)
      | (st', Inr fired) \<Rightarrow>
          (case fire_pending z ops turns envs (length due) now
               (filter is_pending_task (jsmap_values (sch_triggers st'))) st' of
             (st'', Inl err) \<Rightarrow> (st'', Inl err)
           | (st'', Inr later) \<Rightarrow> (st'', Inr (fired @ later))))"

definition matches_event :: "string \<Rightarrow> string \<Rightarrow> scheduler_trigger \<Rightarrow> bool" where
  "matches_event sid et t \<longleftrightarrow> tr_enabled t \<and> tr_nextRunAt t = None \<and>
     (case Option.bind (tr_when t) sw_event of
        None \<Rightarrow> False
      | Some c \<Rightarrow> et = we_eventType c \<and>
          (case we_streamPrefix c of None \<Rightarrow> True | Some p \<Rightarrow> starts_with p sid))"

definition sch_notify :: "zod \<Rightarrow> ('s, payload) chronicle_ops \<Rightarrow> 's turn_port \<Rightarrow> env \<Rightarrow> string \<Rightarrow> string \<Rightarrow>
    string \<Rightarrow> 's scheduler \<Rightarrow> 's scheduler \<times> (scheduler_error + fired_run option)" where
  "sch_notify z ops turns env now sid et st =
     (case find (matches_event sid et) (jsmap_values (sch_triggers st)) of
        None \<Rightarrow> (st, Inr None)
      | Some t \<Rightarrow> (case sch_fire z ops turns env now t st of
          (st', Inl err) \<Rightarrow> (st', Inl err)
        | (st', Inr run) \<Rightarrow> (st', Inr (Some run))))"

end
