(* ===== verification/SchedulerLog.thy ===== *)
theory SchedulerLog
  imports Scheduler HostChronicle
begin

text \<open>
  The scheduler follows its log: after any history of operations the triggers in memory are
  exactly what \<open>rebuild\<close> folds from the \<open>scheduler\<close> stream, in the same order. What a
  tick leaves behind, and when the next run of a recurring trigger is.
\<close>

section \<open>What the turns may do\<close>

text \<open>Turns write to the same Chronicle, but never to the scheduler's stream.\<close>

definition turns_ok :: "('s \<Rightarrow> bool) \<Rightarrow> ('s \<Rightarrow> payload streams) \<Rightarrow> 's turn_port \<Rightarrow> bool" where
  "turns_ok cinv view turns \<longleftrightarrow> (\<forall>th i s. cinv s \<longrightarrow> cinv (fst (turns th i s)) \<and>
     view (fst (turns th i s)) SCHEDULER_STREAM_ID = view s SCHEDULER_STREAM_ID)"

lemma turns_okD:
  "turns_ok cinv view turns \<Longrightarrow> cinv s \<Longrightarrow> cinv (fst (turns th i s)) \<and>
   view (fst (turns th i s)) SCHEDULER_STREAM_ID = view s SCHEDULER_STREAM_ID"
  unfolding turns_ok_def by blast

section \<open>The invariant\<close>

text \<open>Every trigger is under its own id and recurs, if at all, after a positive interval.\<close>

abbreviation interval_ok :: "scheduler_trigger \<Rightarrow> bool" where
  "interval_ok t \<equiv> opt_ok (\<lambda>n. 0 < n) (tr_intervalMs t)"

definition triggers_keyed :: "(string, scheduler_trigger) jsmap \<Rightarrow> bool" where
  "triggers_keyed m \<longleftrightarrow> jsmap_wf m \<and>
     (\<forall>k t. map_of m k = Some t \<longrightarrow> tr_id t = k \<and> interval_ok t)"

lemma triggers_keyed_Nil [simp]: "triggers_keyed []"
  by (simp add: triggers_keyed_def)

lemma triggers_keyedD: "triggers_keyed m \<Longrightarrow> map_of m k = Some t \<Longrightarrow> tr_id t = k"
  and triggers_keyed_interval: "triggers_keyed m \<Longrightarrow> map_of m k = Some t \<Longrightarrow> interval_ok t"
  unfolding triggers_keyed_def by blast+

lemma triggers_keyed_set [simp]:
  assumes "triggers_keyed m" and "tr_id t = k" and "interval_ok t"
  shows "triggers_keyed (jsmap_set k t m)"
proof -
  have "tr_id u = j \<and> interval_ok u" if "map_of (jsmap_set k t m) j = Some u" for j u
    using that assms(2,3) triggers_keyedD [OF assms(1), of j u]
      triggers_keyed_interval [OF assms(1), of j u] by (cases "j = k") simp_all
  with assms(1) show ?thesis unfolding triggers_keyed_def by blast
qed

lemma triggers_keyed_delete [simp]:
  assumes "triggers_keyed m"
  shows "triggers_keyed (jsmap_delete k m)"
proof -
  have "tr_id u = j \<and> interval_ok u" if "map_of (jsmap_delete k m) j = Some u" for j u
    using that triggers_keyedD [OF assms, of j u] triggers_keyed_interval [OF assms, of j u]
    by (cases "j = k") simp_all
  with assms show ?thesis unfolding triggers_keyed_def by blast
qed

lemma triggers_keyed_value:
  "triggers_keyed m \<Longrightarrow> t \<in> set (jsmap_values m) \<longleftrightarrow> map_of m (tr_id t) = Some t"
  by (metis jsmap_values_iff triggers_keyedD triggers_keyed_def)

definition sch_inv :: "('s \<Rightarrow> bool) \<Rightarrow> ('s \<Rightarrow> payload streams) \<Rightarrow> 's scheduler \<Rightarrow> bool" where
  "sch_inv cinv view st \<longleftrightarrow> cinv (sch_store st) \<and> triggers_keyed (sch_triggers st) \<and>
     fold_triggers (view (sch_store st) SCHEDULER_STREAM_ID) [] = (sch_triggers st, None)"

lemma fold_triggers_append:
  "fold_triggers es m = (m', None) \<Longrightarrow> fold_triggers (es @ es') m = fold_triggers es' m'"
  by (induction es arbitrary: m) (auto split: sum.splits)

lemma scheduler_event_sel [simp]:
  "ev_type (schedulerEvent u n a th p) = scheduler_event_type p"
  "ev_payload (schedulerEvent u n a th p) = SchedulerP p"
  by (simp_all add: schedulerEvent_def)

text \<open>What each logged fact does to the projection.\<close>

fun apply_fact :: "scheduler_payload \<Rightarrow> (string, scheduler_trigger) jsmap \<Rightarrow>
    (string, scheduler_trigger) jsmap" where
  "apply_fact (SRegisteredP t) m = jsmap_set (tr_id t) t m"
| "apply_fact (STriggeredP p) m =
     (case map_of m (tp_triggerId p) of
        None \<Rightarrow> m
      | Some t \<Rightarrow> if tr_when t \<noteq> None then jsmap_delete (tr_id t) m
                  else jsmap_set (tr_id t) (t\<lparr>tr_nextRunAt := tp_nextRunAt p\<rparr>) m)"
| "apply_fact (SRemovedP triggerId reason) m = jsmap_delete triggerId m"

lemma fold_trigger_fact:
  "ev_type e = scheduler_event_type p \<Longrightarrow> ev_payload e = SchedulerP p \<Longrightarrow>
   fold_trigger e m = Inr (apply_fact p m)"
  by (cases p) (auto simp: fold_trigger_def split: option.splits)

definition fired_triggers :: "zod \<Rightarrow> string \<Rightarrow> scheduler_trigger \<Rightarrow> (string, scheduler_trigger) jsmap \<Rightarrow>
    (string, scheduler_trigger) jsmap \<Rightarrow> scheduler_error + fired_run \<Rightarrow> bool" where
  "fired_triggers z now t m m' r \<longleftrightarrow> (case r of
     Inl err \<Rightarrow> m' = m
   | Inr run \<Rightarrow> fr_triggerId run = tr_id t \<and> (\<exists>following. following_run t now (missed_intervals t now) = Inr following \<and>
       opt_ok (z_datetime z) following \<and>
       m' = (if tr_when t \<noteq> None then jsmap_delete (tr_id t) m
             else jsmap_set (tr_id t) (t\<lparr>tr_nextRunAt := following\<rparr>) m)))"

lemma fired_elsewhere: "fired_triggers z now t m m' r \<Longrightarrow> k \<noteq> tr_id t \<Longrightarrow> map_of m' k = map_of m k"
  by (auto simp: fired_triggers_def split: sum.splits)

lemma fired_schedule:
  assumes "fired_triggers z now t m m' (Inr run)" and "tr_when t = None"
  shows "\<exists>f. following_run t now (missed_intervals t now) = Inr f \<and> opt_ok (z_datetime z) f \<and>
    map_of m' (tr_id t) = Some (t\<lparr>tr_nextRunAt := f\<rparr>)"
  using assms by (auto simp: fired_triggers_def)

lemma fired_condition:
  assumes "fired_triggers z now t m m' r" and "tr_when t \<noteq> None"
  shows "map_of m' k = Some u \<Longrightarrow> map_of m k = Some u"
  using assms by (cases "k = tr_id t") (auto simp: fired_triggers_def split: sum.splits)

section \<open>Appending one fact\<close>

context host_chronicle
begin

lemma append_tries_one:
  assumes "inv s" and "z_datetime z now" and "append_tries ops now [e] n s = (s', r)"
  shows "inv s' \<and> (case r of
      None \<Rightarrow> \<exists>k. view s' = (view s)(SCHEDULER_STREAM_ID := view s SCHEDULER_STREAM_ID @
        [stored_event SCHEDULER_STREAM_ID k now e])
    | Some err \<Rightarrow> view s' = view s)"
  using assms(1,3)
proof (induction n arbitrary: s)
  case (0 s)
  obtain s1 res where app: "op_append ops now SCHEDULER_STREAM_ID [e]
      (int (length (view s SCHEDULER_STREAM_ID)) + 1) s = (s1, res)" by fastforce
  have sid: "SCHEDULER_STREAM_ID \<noteq> []" by (simp add: SCHEDULER_STREAM_ID_def)
  have inv1: "inv s1" using append_refines [OF 0(1) assms(2) sid app] by simp
  from append_next [OF 0(1) assms(2) sid _ app] 0(2) inv1 app latest_view [OF 0(1)]
  show ?case by (auto split: sum.splits chronicle_error.splits)
next
  case (Suc n s)
  obtain s1 res where app: "op_append ops now SCHEDULER_STREAM_ID [e]
      (int (length (view s SCHEDULER_STREAM_ID)) + 1) s = (s1, res)" by fastforce
  have sid: "SCHEDULER_STREAM_ID \<noteq> []" by (simp add: SCHEDULER_STREAM_ID_def)
  have inv1: "inv s1" using append_refines [OF Suc.prems(1) assms(2) sid app] by simp
  note next1 = append_next [OF Suc.prems(1) assms(2) sid _ app]
  show ?case
  proof (cases res)
    case (Inr es)
    with next1 inv1 Suc.prems app latest_view [OF Suc.prems(1)] show ?thesis by auto
  next
    case (Inl err)
    with next1 have same: "view s1 = view s" by simp
    show ?thesis
    proof (cases "\<exists>a b c. err = ChronicleSequenceConflict a b c")
      case True
      with Inl Suc.prems(2) app latest_view [OF Suc.prems(1)]
      have "append_tries ops now [e] n s1 = (s', r)" by auto
      from Suc.IH [OF inv1 this] show ?thesis unfolding same .
    next
      case False
      with Inl Suc.prems(2) app latest_view [OF Suc.prems(1)]
      have "s' = s1 \<and> r = Some err" by (cases err) auto
      with inv1 same show ?thesis by simp
    qed
  qed
qed

text \<open>An accepted fact reaches the log and the projection alike.\<close>

lemma append_fact:
  assumes st: "sch_inv inv view st" and now: "z_datetime z now"
    and e: "ev_type e = scheduler_event_type p" "ev_payload e = SchedulerP p"
    and app: "sch_append ops now [e] (sch_store st) = (s', None)"
    and m: "m = apply_fact p (sch_triggers st)" "triggers_keyed m"
  shows "sch_inv inv view (st\<lparr>sch_store := s', sch_triggers := m\<rparr>)"
proof -
  have inv: "inv (sch_store st)" using st by (simp add: sch_inv_def)
  from append_tries_one [OF inv now, of e 2 s' None] app
  obtain k where "inv s'" and "view s' = (view (sch_store st))(SCHEDULER_STREAM_ID :=
      view (sch_store st) SCHEDULER_STREAM_ID @ [stored_event SCHEDULER_STREAM_ID k now e])"
    by (auto simp: sch_append_def)
  moreover have "fold_triggers (view (sch_store st) SCHEDULER_STREAM_ID) [] = (sch_triggers st, None)"
    using st by (simp add: sch_inv_def)
  ultimately show ?thesis
    using m fold_trigger_fact [of "stored_event SCHEDULER_STREAM_ID k now e" p "sch_triggers st"] e
    by (simp add: sch_inv_def fold_triggers_append)
qed

lemma append_refused:
  assumes "sch_inv inv view st" and "z_datetime z now"
    and "sch_append ops now [e] (sch_store st) = (s', Some err)"
  shows "sch_inv inv view (st\<lparr>sch_store := s'\<rparr>)"
  using append_tries_one [of "sch_store st" now e 2 s' "Some err"] assms
  by (simp add: sch_inv_def sch_append_def)

section \<open>Every operation keeps the invariant\<close>

lemma register_inv [preserved]:
  assumes "sch_inv inv view st" and "clock_ok z env"
  shows "sch_inv inv view (fst (sch_register z ops env i st))"
proof -
  let ?t = "new_trigger (env_uuid env 0) (env_now env 0) i"
  let ?e = "schedulerTriggerRegisteredEvent (env_uuid env 1) (env_now env 1) None ?t"
  obtain s' r where app: "sch_append ops (env_now env 2) [?e] (sch_store st) = (s', r)" by fastforce
  have e: "ev_type ?e = scheduler_event_type (SRegisteredP ?t)" "ev_payload ?e = SchedulerP (SRegisteredP ?t)"
    by (simp_all add: schedulerTriggerRegisteredEvent_def)
  have keyed: "triggers_keyed (jsmap_set (tr_id ?t) ?t (sch_triggers st))" if "trigger_ok z ?t"
    using assms(1) that by (simp add: sch_inv_def trigger_ok_def)
  have ok: "sch_inv inv view (st\<lparr>sch_store := s', sch_triggers := jsmap_set (tr_id ?t) ?t (sch_triggers st)\<rparr>)"
    if "r = None" "trigger_ok z ?t"
    using append_fact [OF assms(1) clock_okD [OF assms(2)] e app [unfolded that(1)] _ keyed [OF that(2)]] by simp
  have bad: "sch_inv inv view (st\<lparr>sch_store := s'\<rparr>)" if "r = Some err" for err
    using append_refused [OF assms(1) clock_okD [OF assms(2)] app [unfolded that]] .
  show ?thesis using assms(1) app ok bad
    by (auto simp: sch_register_def Let_def split: option.splits)
qed

lemma remove_inv [preserved]:
  assumes "sch_inv inv view st" and "clock_ok z env"
  shows "sch_inv inv view (fst (sch_remove ops env triggerId reason st))"
proof (cases "map_of (sch_triggers st) triggerId")
  case None
  with assms show ?thesis by (simp add: sch_remove_def)
next
  case (Some t)
  let ?e = "schedulerTriggerRemovedEvent (env_uuid env 0) (env_now env 0) None triggerId reason
    (Some (tr_threadId t))"
  obtain s' r where app: "sch_append ops (env_now env 1) [?e] (sch_store st) = (s', r)" by fastforce
  have e: "ev_type ?e = scheduler_event_type (SRemovedP triggerId reason)"
    "ev_payload ?e = SchedulerP (SRemovedP triggerId reason)"
    by (simp_all add: schedulerTriggerRemovedEvent_def)
  have keyed: "triggers_keyed (jsmap_delete triggerId (sch_triggers st))"
    using assms(1) by (simp add: sch_inv_def)
  show ?thesis
  proof (cases r)
    case None
    from append_fact [OF assms(1) clock_okD [OF assms(2)] e app [unfolded None] _ keyed]
    show ?thesis using Some app None by (simp add: sch_remove_def)
  next
    case (Some err)
    from append_refused [OF assms(1) clock_okD [OF assms(2)] app [unfolded Some]]
    show ?thesis using \<open>map_of (sch_triggers st) triggerId = _\<close> app Some by (simp add: sch_remove_def)
  qed
qed

text \<open>
  Firing a trigger of the projection: an error leaves the projection alone, a success
  removes a condition trigger and moves any other to its next run.
\<close>

lemma fire_cases:
  assumes st: "sch_inv inv view st" and turns: "turns_ok inv view turns" and env: "clock_ok z env"
    and t: "map_of (sch_triggers st) (tr_id t) = Some t"
    and fire: "sch_fire z ops turns env now t st = (st', r)"
  shows "sch_inv inv view st' \<and> fired_triggers z now t (sch_triggers st) (sch_triggers st') r"
proof -
  obtain s1 result where turn: "turns (tr_threadId t) (tr_input t) (sch_store st) = (s1, result)"
    by fastforce
  let ?st1 = "st\<lparr>sch_store := s1\<rparr>"
  have "inv s1 \<and> view s1 SCHEDULER_STREAM_ID = view (sch_store st) SCHEDULER_STREAM_ID"
    using turns_okD [OF turns, of "sch_store st" "tr_threadId t" "tr_input t"] st turn
    by (simp add: sch_inv_def)
  with st have st1: "sch_inv inv view ?st1" by (simp add: sch_inv_def)
  define missed where "missed = missed_intervals t now"
  have error: ?thesis if "st' = ?st1" "r = Inl err" for err
    using st1 that by (simp add: fired_triggers_def)
  note fire = fire [unfolded sch_fire_def Let_def turn prod.case missed_def [symmetric]]
  show ?thesis
  proof (cases "following_run t now missed"; cases missed)
    fix following k
    assume 2: "following_run t now missed = Inr following" "missed = Some k"
    let ?p = "\<lparr>tp_triggerId = tr_id t, tp_threadId = tr_threadId t,
      tp_turnId = fr_turnId (run_of t k result), tp_status = fr_status (run_of t k result),
      tp_firedAt = now, tp_missedIntervals = k, tp_nextRunAt = following\<rparr>"
    let ?m = "if tr_when t \<noteq> None then jsmap_delete (tr_id t) (sch_triggers st)
      else jsmap_set (tr_id t) (t\<lparr>tr_nextRunAt := following\<rparr>) (sch_triggers st)"
    show ?thesis
    proof (cases "schedulerTriggerTriggeredEvent z (env_uuid env 0) (env_now env 0) None ?p")
    case None
    with fire 2 show ?thesis by (intro error) auto
    next
    case (Some e)
    then have ok: "triggered_payload_ok z ?p"
      and e: "ev_type e = scheduler_event_type (STriggeredP ?p)" "ev_payload e = SchedulerP (STriggeredP ?p)"
      by (auto simp: schedulerTriggerTriggeredEvent_def split: if_splits)
    note fire = fire [unfolded 2(2) sum.case option.case 2(1) [unfolded 2(2)] Some]
    have next_ok: "opt_ok (z_datetime z) following" using ok by (simp add: triggered_payload_ok_def)
    obtain s2 q where app: "sch_append ops (env_now env 1) [e] (sch_store ?st1) = (s2, q)" by fastforce
    have fact: "?m = apply_fact (STriggeredP ?p) (sch_triggers ?st1)" using t by simp
    have keyed: "triggers_keyed ?m"
      using st triggers_keyed_interval [OF _ t] by (simp add: sch_inv_def)
    show ?thesis
    proof (cases q)
      case None
      from append_fact [OF st1 clock_okD [OF env] e app [unfolded None] fact keyed]
      have "sch_inv inv view (?st1\<lparr>sch_store := s2, sch_triggers := ?m\<rparr>)" .
      moreover have "st' = ?st1\<lparr>sch_store := s2, sch_triggers := ?m\<rparr>" "r = Inr (run_of t k result)"
        using fire app None by auto
      ultimately show ?thesis
        using 2(1) next_ok by (simp add: fired_triggers_def missed_def run_of_def)
    next
      case (Some err)
      from append_refused [OF st1 clock_okD [OF env] app [unfolded Some]] fire app Some
      show ?thesis by (auto simp: fired_triggers_def)
    qed
    qed
  qed (use fire st1 in \<open>auto simp: fired_triggers_def\<close>)
qed

lemma fire_all_cases:
  assumes "sch_inv inv view st" and turns: "turns_ok inv view turns" and envs: "\<And>n. clock_ok z (envs n)"
    and "distinct (map tr_id ts)" and "\<forall>t\<in>set ts. map_of (sch_triggers st) (tr_id t) = Some t"
    and "fire_all z ops turns envs n now ts st = (st', r)"
  shows "sch_inv inv view st' \<and>
    (\<forall>k. k \<notin> tr_id ` set ts \<longrightarrow> map_of (sch_triggers st') k = map_of (sch_triggers st) k) \<and>
    (\<forall>runs. r = Inr runs \<longrightarrow> map fr_triggerId runs = map tr_id ts \<and>
       (\<forall>t\<in>set ts. tr_when t = None \<longrightarrow>
          (\<exists>f. following_run t now (missed_intervals t now) = Inr f \<and> opt_ok (z_datetime z) f \<and>
             map_of (sch_triggers st') (tr_id t) = Some (t\<lparr>tr_nextRunAt := f\<rparr>))))"
  using assms(1,4-)
proof (induction ts arbitrary: st n r)
  case Nil
  then show ?case by auto
next
  case (Cons t ts)
  obtain st1 q where fire: "sch_fire z ops turns (envs n) now t st = (st1, q)" by fastforce
  have "map_of (sch_triggers st) (tr_id t) = Some t" using Cons.prems(3) by simp
  from fire_cases [OF Cons.prems(1) turns envs this fire]
  have st1: "sch_inv inv view st1" and fired: "fired_triggers z now t (sch_triggers st) (sch_triggers st1) q"
    by blast+
  note other = fired_elsewhere [OF fired]
  show ?case
  proof (cases q)
    case (Inl err)
    with Cons.prems(4) fire have "st' = st1" "r = Inl err" by simp_all
    with st1 other show ?thesis by simp
  next
    case (Inr run)
    obtain r2 where rest: "fire_all z ops turns envs (Suc n) now ts st1 = (st', r2)"
      and r: "r = (case r2 of Inl err \<Rightarrow> Inl err | Inr runs \<Rightarrow> Inr (run # runs))"
      using Cons.prems(4) fire Inr by (auto split: prod.splits sum.splits)
    have ids: "distinct (map tr_id ts)" "tr_id t \<notin> tr_id ` set ts" using Cons.prems(2) by auto
    have "\<forall>u\<in>set ts. map_of (sch_triggers st1) (tr_id u) = Some u"
      using Cons.prems(3) ids(2) other by (metis image_eqI list.set_intros(2))
    note IH = Cons.IH [OF st1 ids(1) this rest]
    have t: "\<exists>f. following_run t now (missed_intervals t now) = Inr f \<and> opt_ok (z_datetime z) f \<and>
        map_of (sch_triggers st') (tr_id t) = Some (t\<lparr>tr_nextRunAt := f\<rparr>)" if "tr_when t = None"
      using fired_schedule [OF fired [unfolded Inr] that] IH ids(2) by metis
    have id: "fr_triggerId run = tr_id t" using fired Inr by (simp add: fired_triggers_def)
    show ?thesis
    proof (intro conjI allI impI ballI)
      show "sch_inv inv view st'" using IH by blast
    next
      fix k assume "k \<notin> tr_id ` set (t # ts)"
      then show "map_of (sch_triggers st') k = map_of (sch_triggers st) k" using IH other [of k] by simp
    next
      fix runs assume "r = Inr runs"
      then show "map fr_triggerId runs = map tr_id (t # ts)"
        using r IH id by (auto split: sum.splits)
    next
      fix runs u assume "r = Inr runs" and u: "u \<in> set (t # ts)" "tr_when u = None"
      then obtain runs' where "r2 = Inr runs'" using r by (auto split: sum.splits)
      with IH u t show "\<exists>f. following_run u now (missed_intervals u now) = Inr f \<and> opt_ok (z_datetime z) f \<and>
          map_of (sch_triggers st') (tr_id u) = Some (u\<lparr>tr_nextRunAt := f\<rparr>)"
        by (cases "u = t") simp_all
    qed
  qed
qed

lemma fire_pending_cases:
  assumes "sch_inv inv view st" and turns: "turns_ok inv view turns" and envs: "\<And>n. clock_ok z (envs n)"
    and "distinct (map tr_id ts)" and "\<forall>t\<in>set ts. map_of (sch_triggers st) (tr_id t) = Some t"
    and "fire_pending z ops turns envs n now ts st = (st', r)"
  shows "sch_inv inv view st' \<and>
    (\<forall>k u. map_of (sch_triggers st') k = Some u \<longrightarrow> map_of (sch_triggers st) k = Some u)"
  using assms(1,4-)
proof (induction ts arbitrary: st n r)
  case Nil
  then show ?case by auto
next
  case (Cons t ts)
  have ids: "distinct (map tr_id ts)" "tr_id t \<notin> tr_id ` set ts" using Cons.prems(2) by auto
  have kept: "\<forall>u\<in>set ts. map_of (sch_triggers st) (tr_id u) = Some u" using Cons.prems(3) by simp
  show ?case
  proof (cases "Option.bind (tr_when t) sw_taskStatus")
    case None
    with Cons.prems(4) have "fire_pending z ops turns envs n now ts st = (st', r)" by simp
    from Cons.IH [OF Cons.prems(1) ids(1) kept this] show ?thesis .
  next
    case (Some c)
    then have w: "tr_when t \<noteq> None" by (cases "tr_when t") auto
    show ?thesis
    proof (cases "taskReachedStatus ops c (tr_createdAt t) (sch_store st)")
      case (Inl err)
      with Cons.prems(1,4) Some show ?thesis by simp
    next
      case (Inr b)
      show ?thesis
      proof (cases b)
        case False
        with Inr Some Cons.prems(4) have "fire_pending z ops turns envs n now ts st = (st', r)" by simp
        from Cons.IH [OF Cons.prems(1) ids(1) kept this] show ?thesis .
      next
        case True
        obtain st1 q where fire: "sch_fire z ops turns (envs n) now t st = (st1, q)" by fastforce
        have "map_of (sch_triggers st) (tr_id t) = Some t" using Cons.prems(3) by simp
        from fire_cases [OF Cons.prems(1) turns envs this fire]
        have st1: "sch_inv inv view st1"
          and fired: "fired_triggers z now t (sch_triggers st) (sch_triggers st1) q" by blast+
        note sub = fired_condition [OF fired w]
        show ?thesis
        proof (cases q)
          case (Inl err)
          with Cons.prems(4) fire Some \<open>taskReachedStatus _ _ _ _ = _\<close> True have "st' = st1" by simp
          with st1 sub show ?thesis by simp
        next
          case (Inr run)
          obtain r2 where rest: "fire_pending z ops turns envs (Suc n) now ts st1 = (st', r2)"
            using Cons.prems(4) fire Inr Some \<open>taskReachedStatus _ _ _ _ = _\<close> True
            by (auto split: prod.splits sum.splits)
          have "\<forall>u\<in>set ts. map_of (sch_triggers st1) (tr_id u) = Some u"
            using Cons.prems(3) ids(2) fired_elsewhere [OF fired] by (metis image_eqI list.set_intros(2))
          from Cons.IH [OF st1 ids(1) this rest] sub show ?thesis by blast
        qed
      qed
    qed
  qed
qed

lemma keyed_filter:
  assumes "triggers_keyed m"
  shows "distinct (map tr_id (filter p (jsmap_values m)))"
    and "\<forall>t\<in>set (filter p (jsmap_values m)). map_of m (tr_id t) = Some t"
proof -
  have "t \<in> set (jsmap_values m) \<Longrightarrow> map_of m (tr_id t) = Some t" for t
    using triggers_keyed_value [OF assms] by blast
  then show "\<forall>t\<in>set (filter p (jsmap_values m)). map_of m (tr_id t) = Some t" by simp
  have wf: "distinct (map fst m)" using assms by (simp add: triggers_keyed_def jsmap_wf_def)
  have "tr_id t = k" if "(k, t) \<in> set m" for k t
    using that wf triggers_keyedD [OF assms] by simp
  then have "map tr_id (jsmap_values m) = map fst m" by (auto simp: o_def)
  then show "distinct (map tr_id (filter p (jsmap_values m)))"
    using wf distinct_map_filter [of tr_id "jsmap_values m" p] by metis
qed

text \<open>What a tick does to the projection: due triggers advance, condition triggers may leave.\<close>

lemma tick_cases:
  assumes st: "sch_inv inv view st" and turns: "turns_ok inv view turns" and envs: "\<And>n. clock_ok z (envs n)"
    and tick: "sch_tick z ops turns lc envs now st = (st', r)"
  shows "sch_inv inv view st' \<and>
    (\<forall>runs. r = Inr runs \<longrightarrow> (\<exists>later. map fr_triggerId runs = map tr_id (due_triggers lc now st) @ later) \<and>
       (\<forall>k u. map_of (sch_triggers st') k = Some u \<longrightarrow>
          (map_of (sch_triggers st) k = Some u \<and> \<not> is_due now u) \<or>
          (\<exists>t f. map_of (sch_triggers st) k = Some t \<and> is_due now t \<and>
             following_run t now (missed_intervals t now) = Inr f \<and> opt_ok (z_datetime z) f \<and>
             u = t\<lparr>tr_nextRunAt := f\<rparr>)))"
proof -
  let ?due = "due_triggers lc now st"
  have keyed: "triggers_keyed (sch_triggers st)" using st by (simp add: sch_inv_def)
  have set_due: "set ?due = set (filter (is_due now) (jsmap_values (sch_triggers st)))"
    by (simp add: due_triggers_def)
  have "mset (map tr_id ?due) = mset (map tr_id (filter (is_due now) (jsmap_values (sch_triggers st))))"
    unfolding due_triggers_def mset_map mset_js_sort ..
  then have ids: "distinct (map tr_id ?due)"
    using keyed_filter(1) [OF keyed] mset_eq_imp_distinct_iff by blast
  have vals: "\<forall>t\<in>set ?due. map_of (sch_triggers st) (tr_id t) = Some t"
    unfolding set_due by (rule keyed_filter(2) [OF keyed])
  obtain st1 r1 where fire: "fire_all z ops turns envs 0 now ?due st = (st1, r1)" by fastforce
  note F = fire_all_cases [OF st turns envs ids vals fire]
  show ?thesis
  proof (cases r1)
    case (Inl err)
    with tick fire have "st' = st1" "r = Inl err" by (simp_all add: sch_tick_def Let_def)
    with F show ?thesis by simp
  next
    case (Inr fired)
    let ?ts = "filter is_pending_task (jsmap_values (sch_triggers st1))"
    have st1: "sch_inv inv view st1" using F by blast
    then have keyed1: "triggers_keyed (sch_triggers st1)" by (simp add: sch_inv_def)
    obtain r2 where pend: "fire_pending z ops turns envs (length ?due) now ?ts st1 = (st', r2)"
      and r: "r = (case r2 of Inl err \<Rightarrow> Inl err | Inr later \<Rightarrow> Inr (fired @ later))"
      using tick fire Inr by (auto simp: sch_tick_def Let_def split: prod.splits sum.splits)
    note P = fire_pending_cases [OF st1 turns envs keyed_filter [OF keyed1] pend]
    have fired: "map fr_triggerId fired = map tr_id ?due" using F Inr by blast
    have "\<exists>later. map fr_triggerId runs = map tr_id ?due @ later" if "r = Inr runs" for runs
      using that r fired by (auto split: sum.splits)
    moreover have "(map_of (sch_triggers st) k = Some u \<and> \<not> is_due now u) \<or>
        (\<exists>t f. map_of (sch_triggers st) k = Some t \<and> is_due now t \<and>
           following_run t now (missed_intervals t now) = Inr f \<and> opt_ok (z_datetime z) f \<and>
           u = t\<lparr>tr_nextRunAt := f\<rparr>)" if u: "map_of (sch_triggers st') k = Some u" for k u
    proof -
      from P u have u1: "map_of (sch_triggers st1) k = Some u" by blast
      show ?thesis
      proof (cases "k \<in> tr_id ` set ?due")
        case True
        then obtain t where t: "t \<in> set ?due" "k = tr_id t" by blast
        then have due: "is_due now t" by (simp add: set_due)
        then have "tr_when t = None" by (simp add: is_due_def)
        with F Inr t u1 vals due show ?thesis by fastforce
      next
        case False
        with F u1 have k: "map_of (sch_triggers st) k = Some u" by simp
        have "\<not> is_due now u"
        proof
          assume "is_due now u"
          moreover have "tr_id u = k" by (rule triggers_keyedD [OF keyed k])
          ultimately have "u \<in> set ?due"
            using k triggers_keyed_value [OF keyed, of u] by (simp add: set_due)
          with False \<open>tr_id u = k\<close> show False by blast
        qed
        with k show ?thesis by blast
      qed
    qed
    ultimately show ?thesis using P by blast
  qed
qed

lemma notify_cases:
  assumes st: "sch_inv inv view st" and turns: "turns_ok inv view turns" and env: "clock_ok z env"
    and "sch_notify z ops turns env now sid et st = (st', r)"
  shows "sch_inv inv view st'"
proof (cases "find (matches_event sid et) (jsmap_values (sch_triggers st))")
  case None
  with assms show ?thesis by (simp add: sch_notify_def)
next
  case (Some t)
  obtain q where fire: "sch_fire z ops turns env now t st = (st', q)"
    using assms(4) Some by (auto simp: sch_notify_def split: prod.splits sum.splits)
  have keyed: "triggers_keyed (sch_triggers st)" using st by (simp add: sch_inv_def)
  have "t \<in> set (jsmap_values (sch_triggers st))"
    using Some by (auto simp: find_Some_iff)
  then have "map_of (sch_triggers st) (tr_id t) = Some t" using triggers_keyed_value [OF keyed] by blast
  from fire_cases [OF st turns env this fire] show ?thesis by blast
qed

lemma rebuild_inv:
  assumes "sch_inv inv view st"
  shows "sch_rebuild ops (st\<lparr>sch_triggers := m\<rparr>) = (st, None)"
  using assms read_all [of "sch_store st" SCHEDULER_STREAM_ID]
  by (simp add: sch_inv_def sch_rebuild_def)

end


section \<open>Histories\<close>

text \<open>
  What can happen to a scheduler: its operations, and writes of other components to the same
  Chronicle between them.
\<close>

datatype 's scheduler_op =
    RegisterOp env register_input
  | RemoveOp env string "string option"
  | TickOp "nat \<Rightarrow> env" string
  | NotifyOp env string string string
  | RebuildOp
  | StartOp
  | StopOp
  | ElsewhereOp "'s \<Rightarrow> 's"

fun sch_exec :: "zod \<Rightarrow> ('s, payload) chronicle_ops \<Rightarrow> 's turn_port \<Rightarrow> (string \<Rightarrow> string \<Rightarrow> int) \<Rightarrow>
    's scheduler_op \<Rightarrow> 's scheduler \<Rightarrow> 's scheduler" where
  "sch_exec z ops turns lc (RegisterOp env i) st = fst (sch_register z ops env i st)"
| "sch_exec z ops turns lc (RemoveOp env triggerId reason) st = fst (sch_remove ops env triggerId reason st)"
| "sch_exec z ops turns lc (TickOp envs now) st = fst (sch_tick z ops turns lc envs now st)"
| "sch_exec z ops turns lc (NotifyOp env now sid et) st = fst (sch_notify z ops turns env now sid et st)"
| "sch_exec z ops turns lc RebuildOp st = fst (sch_rebuild ops st)"
| "sch_exec z ops turns lc StartOp st = sch_start st"
| "sch_exec z ops turns lc StopOp st = sch_stop st"
| "sch_exec z ops turns lc (ElsewhereOp f) st = st\<lparr>sch_store := f (sch_store st)\<rparr>"

definition sch_run :: "zod \<Rightarrow> ('s, payload) chronicle_ops \<Rightarrow> 's turn_port \<Rightarrow> (string \<Rightarrow> string \<Rightarrow> int) \<Rightarrow>
    's scheduler_op list \<Rightarrow> 's scheduler \<Rightarrow> 's scheduler" where
  "sch_run z ops turns lc ps st = fold (sch_exec z ops turns lc) ps st"

text \<open>Clocks give date-times; the others leave the scheduler's stream alone.\<close>

fun sch_op_ok :: "zod \<Rightarrow> ('s \<Rightarrow> bool) \<Rightarrow> ('s \<Rightarrow> payload streams) \<Rightarrow> 's scheduler_op \<Rightarrow> bool" where
  "sch_op_ok z cinv view (RegisterOp env i) \<longleftrightarrow> clock_ok z env"
| "sch_op_ok z cinv view (RemoveOp env triggerId reason) \<longleftrightarrow> clock_ok z env"
| "sch_op_ok z cinv view (TickOp envs now) \<longleftrightarrow> (\<forall>n. clock_ok z (envs n))"
| "sch_op_ok z cinv view (NotifyOp env now sid et) \<longleftrightarrow> clock_ok z env"
| "sch_op_ok z cinv view (ElsewhereOp f) \<longleftrightarrow> (\<forall>s. cinv s \<longrightarrow> cinv (f s) \<and>
     view (f s) SCHEDULER_STREAM_ID = view s SCHEDULER_STREAM_ID)"
| "sch_op_ok z cinv view _ \<longleftrightarrow> True"

context host_chronicle
begin

lemma exec_inv:
  assumes "sch_inv inv view st" and "turns_ok inv view turns" and "sch_op_ok z inv view p"
  shows "sch_inv inv view (sch_exec z ops turns lc p st)"
proof (cases p)
  case (TickOp envs now)
  obtain st' r where tick: "sch_tick z ops turns lc envs now st = (st', r)" by fastforce
  have "clock_ok z (envs n)" for n using assms(3) TickOp by simp
  from tick_cases [OF assms(1,2) this tick] TickOp tick show ?thesis by simp
next
  case (NotifyOp env now sid et)
  obtain st' r where notify: "sch_notify z ops turns env now sid et st = (st', r)" by fastforce
  from notify_cases [OF assms(1,2) _ notify] NotifyOp notify assms(3) show ?thesis by simp
next
  case RebuildOp
  have "st = st\<lparr>sch_triggers := sch_triggers st\<rparr>" by simp
  from rebuild_inv [OF assms(1), of "sch_triggers st"] RebuildOp assms(1) show ?thesis by simp
next
  case (ElsewhereOp f)
  have "inv (sch_store st)" using assms(1) by (simp add: sch_inv_def)
  with ElsewhereOp assms show ?thesis by (simp add: sch_inv_def)
next
  case StartOp
  with assms(1) show ?thesis by (simp add: sch_inv_def sch_start_def)
next
  case StopOp
  with assms(1) show ?thesis by (simp add: sch_inv_def sch_stop_def)
qed (use assms in \<open>simp_all add: preserved\<close>)

lemma run_inv:
  assumes "sch_inv inv view st" and "turns_ok inv view turns" and "list_all (sch_op_ok z inv view) ps"
  shows "sch_inv inv view (sch_run z ops turns lc ps st)"
  using assms(1,3)
proof (induction ps arbitrary: st)
  case (Cons p ps)
  then have "sch_inv inv view (sch_exec z ops turns lc p st)" using exec_inv assms(2) by simp
  with Cons show ?case by (simp add: sch_run_def)
qed (simp add: sch_run_def)

lemma new_inv: "inv s \<Longrightarrow> view s SCHEDULER_STREAM_ID = [] \<Longrightarrow> sch_inv inv view (sch_new s interval)"
  by (simp add: sch_inv_def sch_new_def)

end

end
