(* ===== verification/Samples.thy ===== *)
theory Samples
  imports IsoTime
begin

text \<open>
  Concrete values the witnesses share: formats that accept every non-empty uuid and every
  date-time that parses, an environment with a fixed clock, and two readings of it.
\<close>

definition iso_zod :: zod where
  "iso_zod = \<lparr>z_uuid = (\<lambda>s. s \<noteq> []), z_datetime = (\<lambda>s. date_parse s \<noteq> None)\<rparr>"

definition iso_env :: "string \<Rightarrow> string \<Rightarrow> env" where
  "iso_env tag now = \<lparr>env_uuid = (\<lambda>n. tag @ replicate n CHR ''x''), env_now = (\<lambda>n. now)\<rparr>"

abbreviation midnight :: string where
  "midnight \<equiv> ''2026-01-01T00:00:00.000Z''"

abbreviation later :: string where
  "later \<equiv> ''2026-01-01T00:02:30.000Z''"

lemma midnight_ok [simp]: "date_parse midnight \<noteq> None" "date_parse later \<noteq> None"
  by code_simp+

end
