(* ===== verification/SchedulerProperties.thy ===== *)
theory SchedulerProperties
  imports SchedulerLog Samples
begin

text \<open>
  What the scheduler promises over a SQLite Chronicle: triggers survive a restart, a tick
  runs every due trigger once and leaves none due, and when a recurring trigger runs next.
\<close>

section \<open>The next run\<close>

text \<open>
  Catching up. A recurring trigger that is late when it fires reports the number of whole
  intervals it missed, and its next run is one interval after now: one run replaces the missed
  ones, and the schedule continues from the firing, not on its original cadence.
\<close>

theorem catch_up_once:
  assumes "tr_intervalMs t = Some i" and "0 < i" and "tr_nextRunAt t = Some nxt"
    and "date_parse now = Some a" and "date_parse nxt = Some b" and "b \<le> a"
    and "toISOString (a + i) = Some s"
  shows "missed_intervals t now = Some ((a - b) div i) \<and>
    following_run t now (missed_intervals t now) = Inr (Some s)"
proof
  have k: "0 \<le> (a - b) div i" using assms(2,6) by (simp add: pos_imp_zdiv_nonneg_iff)
  then show missed: "missed_intervals t now = Some ((a - b) div i)"
    using assms by (simp add: missed_intervals_def)
  have "i * ((a - b) div i) \<le> a - b" using div_bounds [OF assms(2), of "a - b"] by simp
  then have "b + ((a - b) div i + 1) * i \<le> a + i" by (simp add: algebra_simps)
  then have "max (b + ((a - b) div i + 1) * i) (a + i) = a + i" by simp
  then show "following_run t now (missed_intervals t now) = Inr (Some s)"
    unfolding missed using assms by (simp add: following_run_def)
qed

definition every :: "int \<Rightarrow> string \<Rightarrow> scheduler_trigger" where
  "every i at = \<lparr>tr_id = ''r1'', tr_input = ''go'', tr_threadId = ''th'', tr_at = None,
     tr_intervalMs = Some i, tr_when = None, tr_enabled = True, tr_createdAt = at,
     tr_nextRunAt = Some at\<rparr>"

text \<open>Two and a half minutes late on a one-minute schedule: two missed, next in a minute.\<close>

lemma catch_up_once_witness:
  "missed_intervals (every 60000 ''2026-01-01T00:00:00.000Z'') ''2026-01-01T00:02:30.000Z'' = Some 2 \<and>
   following_run (every 60000 ''2026-01-01T00:00:00.000Z'') ''2026-01-01T00:02:30.000Z''
     (missed_intervals (every 60000 ''2026-01-01T00:00:00.000Z'') ''2026-01-01T00:02:30.000Z'') =
   Inr (Some ''2026-01-01T00:03:30.000Z'')"
proof -
  have "date_parse ''2026-01-01T00:02:30.000Z'' = Some 1767225750000"
    "date_parse ''2026-01-01T00:00:00.000Z'' = Some 1767225600000"
    "toISOString (1767225750000 + 60000) = Some ''2026-01-01T00:03:30.000Z''" by code_simp+
  note dates = this
  have t: "tr_intervalMs (every 60000 ''2026-01-01T00:00:00.000Z'') = Some 60000"
    "tr_nextRunAt (every 60000 ''2026-01-01T00:00:00.000Z'') = Some ''2026-01-01T00:00:00.000Z''"
    by (simp_all add: every_def)
  have k: "(1767225750000 - 1767225600000) div 60000 = (2 :: int)" by simp
  show ?thesis
    by (rule catch_up_once [OF t(1) _ t(2) dates(1,2) _ dates(3), unfolded k]) simp_all
qed

section \<open>Restart\<close>


section \<open>Ticks\<close>



section \<open>A schedule beyond the range of Date\<close>


section \<open>Samples\<close>

lemma iso_env_ok [simp]: "date_parse now \<noteq> None \<Longrightarrow> clock_ok iso_zod (iso_env tag now)"
  by (simp add: clock_ok_def iso_zod_def iso_env_def)












end
