(* ===== verification/KanbanDispatcher.thy ===== *)
theory KanbanDispatcher
  imports KanbanStore IsoTime
begin

text \<open>
  The Kanban dispatcher (\<open>packages/kanban/src/dispatcher.ts\<close>): claiming ready tasks under a
  lease, renewing and reclaiming leases, and finishing tasks on behalf of a worker. It keeps
  no state but its options; every method reads and writes a Kanban store.
\<close>

record dispatcher_options =
  do_leaseDurationMs :: int
  do_maxConcurrent :: "int option"

record dispatcher =
  kd_leaseDurationMs :: int
  kd_maxConcurrent :: int

definition kd_new :: "dispatcher_options \<Rightarrow> dispatcher" where
  "kd_new opts = \<lparr>kd_leaseDurationMs = do_leaseDurationMs opts,
     kd_maxConcurrent = coalesce (do_maxConcurrent opts) 1\<rparr>"

text \<open>What is left of an environment after the first uuid was taken.\<close>

definition next_uuid :: "env \<Rightarrow> env" where
  "next_uuid env = env\<lparr>env_uuid := (\<lambda>n. env_uuid env (Suc n))\<rparr>"

section \<open>Reading the board\<close>

definition dependency_satisfied :: "'s kanban_store \<Rightarrow> kanban_dependency \<Rightarrow> bool" where
  "dependency_satisfied st d \<longleftrightarrow>
     (case kb_get (dep_taskId d) st of
        None \<Rightarrow> False
      | Some t \<Rightarrow> kt_status t = coalesce (dep_satisfiedWhen d) KDone)"

definition dependenciesSatisfied :: "'s kanban_store \<Rightarrow> kanban_task \<Rightarrow> bool" where
  "dependenciesSatisfied st t \<longleftrightarrow>
     list_all (\<lambda>d. dep_kind d \<noteq> Blocks \<or> dependency_satisfied st d) (kt_dependencies t)"

definition readyTasks :: "(string \<Rightarrow> string \<Rightarrow> int) \<Rightarrow> string \<Rightarrow> 's kanban_store \<Rightarrow> kanban_task list" where
  "readyTasks lc now st =
     filter (dependenciesSatisfied st)
       (kb_list lc (any_task\<lparr>q_status := Some [KReady], q_scheduledBefore := Some now\<rparr>) st)"

definition running_tasks :: "(string \<Rightarrow> string \<Rightarrow> int) \<Rightarrow> 's kanban_store \<Rightarrow> kanban_task list" where
  "running_tasks lc st = kb_list lc (any_task\<lparr>q_status := Some [KRunning]\<rparr>) st"

definition hasCapacity :: "(string \<Rightarrow> string \<Rightarrow> int) \<Rightarrow> dispatcher \<Rightarrow> string \<Rightarrow> 's kanban_store \<Rightarrow> bool" where
  "hasCapacity lc d workerId st \<longleftrightarrow>
     kd_maxConcurrent d \<le> 0 \<or>
     int (length (filter (\<lambda>t. map_option cl_claimant (kt_claim t) = Some workerId) (running_tasks lc st)))
       < kd_maxConcurrent d"

definition owned :: "string \<Rightarrow> string \<Rightarrow> 's kanban_store \<Rightarrow> kanban_error + kanban_task" where
  "owned taskId leaseId st =
     (case kb_get taskId st of
        None \<Rightarrow> Inl (KTaskNotFound taskId)
      | Some t \<Rightarrow>
          if kt_status t \<noteq> KRunning \<or> map_option cl_leaseId (kt_claim t) \<noteq> Some leaseId
          then Inl (KLeaseLost taskId leaseId) else Inr t)"

text \<open>The end of a lease; printing it throws outside the range of \<open>Date\<close>.\<close>

definition lease_expiry :: "dispatcher \<Rightarrow> string \<Rightarrow> string option" where
  "lease_expiry d now =
     Option.bind (date_parse now) (\<lambda>t. toISOString (t + kd_leaseDurationMs d))"

section \<open>Claims and leases\<close>

definition claimNext :: "(string \<Rightarrow> string \<Rightarrow> int) \<Rightarrow> ('s, payload) chronicle_ops \<Rightarrow> dispatcher \<Rightarrow> env \<Rightarrow>
    string \<Rightarrow> string \<Rightarrow> 's kanban_store \<Rightarrow> 's kanban_store \<times> (kanban_error + kanban_task option)" where
  "claimNext lc ops d env workerId now st =
     (if \<not> hasCapacity lc d workerId st then (st, Inr None)
      else case readyTasks lc now st of
        [] \<Rightarrow> (st, Inr None)
      | t # _ \<Rightarrow>
          (case lease_expiry d now of
             None \<Rightarrow> (st, Inl KInvalidTime)
           | Some expiresAt \<Rightarrow>
               (case kb_transition ops (next_uuid env) (kt_id t)
                   \<lparr>tc_to = KRunning, tc_expectedVersion = kt_version t, tc_reason = None,
                    tc_at = Some now, tc_claim = Some \<lparr>cl_claimant = workerId,
                      cl_leaseId = env_uuid env 0, cl_claimedAt = now, cl_expiresAt = expiresAt\<rparr>\<rparr> st of
                  (st', Inl err) \<Rightarrow> (st', Inl err)
                | (st', Inr t') \<Rightarrow> (st', Inr (Some t')))))"

definition heartbeat :: "('s, payload) chronicle_ops \<Rightarrow> dispatcher \<Rightarrow> env \<Rightarrow> string \<Rightarrow> string \<Rightarrow> string \<Rightarrow>
    's kanban_store \<Rightarrow> 's kanban_store \<times> (kanban_error + kanban_task)" where
  "heartbeat ops d env taskId leaseId now st =
     (case lease_expiry d now of
        None \<Rightarrow> (st, Inl KInvalidTime)
      | Some expiresAt \<Rightarrow> kb_renewLease ops env taskId leaseId expiresAt st)"

definition plain_move :: "kanban_status \<Rightarrow> int \<Rightarrow> string \<Rightarrow> string option \<Rightarrow> transition_command" where
  "plain_move to v now reason = \<lparr>tc_to = to, tc_expectedVersion = v, tc_reason = reason,
     tc_at = Some now, tc_claim = None\<rparr>"

definition lease_lapsed :: "string \<Rightarrow> kanban_task \<Rightarrow> bool" where
  "lease_lapsed now t \<longleftrightarrow> (case kt_claim t of None \<Rightarrow> False | Some c \<Rightarrow> cl_expiresAt c \<le> now)"

text \<open>The loop of \<open>reclaimExpired\<close>: each release has its own environment; an error ends it.\<close>

fun reclaim_tasks :: "('s, payload) chronicle_ops \<Rightarrow> (nat \<Rightarrow> env) \<Rightarrow> nat \<Rightarrow> string \<Rightarrow> kanban_task list \<Rightarrow>
    's kanban_store \<Rightarrow> 's kanban_store \<times> (kanban_error + string list)" where
  "reclaim_tasks ops envs n now [] st = (st, Inr [])"
| "reclaim_tasks ops envs n now (t # ts) st =
     (if lease_lapsed now t then
        (case kb_transition ops (envs n) (kt_id t) (plain_move KReady (kt_version t) now None) st of
           (st', Inl err) \<Rightarrow> (st', Inl err)
         | (st', Inr _) \<Rightarrow>
             (case reclaim_tasks ops envs (Suc n) now ts st' of
                (st'', Inl err) \<Rightarrow> (st'', Inl err)
              | (st'', Inr ids) \<Rightarrow> (st'', Inr (kt_id t # ids))))
      else reclaim_tasks ops envs n now ts st)"

definition reclaimExpired :: "(string \<Rightarrow> string \<Rightarrow> int) \<Rightarrow> ('s, payload) chronicle_ops \<Rightarrow> (nat \<Rightarrow> env) \<Rightarrow>
    string \<Rightarrow> 's kanban_store \<Rightarrow> 's kanban_store \<times> (kanban_error + string list)" where
  "reclaimExpired lc ops envs now st = reclaim_tasks ops envs 0 now (running_tasks lc st) st"

section \<open>Finishing a task\<close>

definition complete :: "('s, payload) chronicle_ops \<Rightarrow> env \<Rightarrow> string \<Rightarrow> string \<Rightarrow> string \<Rightarrow>
    's kanban_store \<Rightarrow> 's kanban_store \<times> (kanban_error + kanban_task)" where
  "complete ops env taskId leaseId now st =
     (case owned taskId leaseId st of
        Inl err \<Rightarrow> (st, Inl err)
      | Inr t \<Rightarrow> kb_transition ops env taskId (plain_move KDone (kt_version t) now None) st)"

definition fail :: "('s, payload) chronicle_ops \<Rightarrow> env \<Rightarrow> string \<Rightarrow> string \<Rightarrow> string option \<Rightarrow> string \<Rightarrow>
    's kanban_store \<Rightarrow> 's kanban_store \<times> (kanban_error + kanban_task)" where
  "fail ops env taskId leaseId reason now st =
     (case owned taskId leaseId st of
        Inl err \<Rightarrow> (st, Inl err)
      | Inr t \<Rightarrow> kb_transition ops env taskId (plain_move KFailed (kt_version t) now reason) st)"

definition block :: "('s, payload) chronicle_ops \<Rightarrow> env \<Rightarrow> string \<Rightarrow> string \<Rightarrow> string option \<Rightarrow> string \<Rightarrow>
    's kanban_store \<Rightarrow> 's kanban_store \<times> (kanban_error + kanban_task)" where
  "block ops env taskId leaseId reason now st =
     (case owned taskId leaseId st of
        Inl err \<Rightarrow> (st, Inl err)
      | Inr t \<Rightarrow> kb_transition ops env taskId (plain_move KBlocked (kt_version t) now reason) st)"

definition cancel :: "('s, payload) chronicle_ops \<Rightarrow> env \<Rightarrow> string \<Rightarrow> string \<Rightarrow>
    's kanban_store \<Rightarrow> 's kanban_store \<times> (kanban_error + kanban_task)" where
  "cancel ops env taskId now st =
     (case kb_get taskId st of
        None \<Rightarrow> (st, Inl (KTaskNotFound taskId))
      | Some t \<Rightarrow> kb_transition ops env taskId (plain_move KCancelled (kt_version t) now None) st)"

end
