(* ===== verification/KanbanLeases.thy ===== *)
theory KanbanLeases
  imports KanbanDispatcher KanbanProjection
begin

text \<open>
  What the dispatcher guarantees, whatever the Chronicle below it answers: a worker never
  holds more tasks than its limit, a reclaimed lease never comes back, and a claim takes the
  best runnable task. Every operation is a step on the projection's tasks that creates no
  lease, except a claim, which creates one.
\<close>

section \<open>Steps on the board\<close>

definition board_wf :: "(string, kanban_task) jsmap \<Rightarrow> bool" where
  "board_wf m \<longleftrightarrow> jsmap_wf m \<and> (\<forall>x t. map_of m x = Some t \<longrightarrow> kt_id t = x) \<and>
     (\<forall>x t. map_of m x = Some t \<longrightarrow> claim_inv t)"

lemma board_wf_jsmap: "board_wf m \<Longrightarrow> jsmap_wf m"
  and board_wf_id: "board_wf m \<Longrightarrow> map_of m x = Some t \<Longrightarrow> kt_id t = x"
  and board_wf_claim: "board_wf m \<Longrightarrow> map_of m x = Some t \<Longrightarrow> claim_inv t"
  by (simp_all add: board_wf_def)

lemma board_wf_Nil [simp]: "board_wf []"
  by (simp add: board_wf_def)

lemma board_wf_set:
  assumes "board_wf m" and "claim_inv t"
  shows "board_wf (jsmap_set (kt_id t) t m)"
proof -
  have "kt_id u = x \<and> claim_inv u" if "map_of (jsmap_set (kt_id t) t m) x = Some u" for x u
    using that assms(2) board_wf_id [OF assms(1), of x u] board_wf_claim [OF assms(1), of x u]
    by (cases "x = kt_id t") simp_all
  then show ?thesis using board_wf_jsmap [OF assms(1)] unfolding board_wf_def by blast
qed

inductive board_step :: "(kanban_task option \<Rightarrow> kanban_task \<Rightarrow> bool) \<Rightarrow> (string, kanban_task) jsmap \<Rightarrow>
    (string, kanban_task) jsmap \<Rightarrow> bool" for R where
  stay: "board_step R m m"
| put: "R (map_of m (kt_id t)) t \<Longrightarrow> board_step R m (jsmap_set (kt_id t) t m)"

text \<open>The claimant and the id of a lease: what a renewal keeps.\<close>

definition lease_of :: "kanban_task \<Rightarrow> (string \<times> string) option" where
  "lease_of t = map_option (\<lambda>c. (cl_claimant c, cl_leaseId c)) (kt_claim t)"

definition keeps_lease :: "kanban_task option \<Rightarrow> kanban_task \<Rightarrow> bool" where
  "keeps_lease old t \<longleftrightarrow> claim_inv t \<and>
     (lease_of t = None \<or> (\<exists>t0. old = Some t0 \<and> lease_of t = lease_of t0))"

definition takes_lease :: "string \<Rightarrow> string \<Rightarrow> kanban_task option \<Rightarrow> kanban_task \<Rightarrow> bool" where
  "takes_lease w l old t \<longleftrightarrow> claim_inv t \<and> lease_of t = Some (w, l)"

lemma board_step_wf:
  "board_step R m m' \<Longrightarrow> board_wf m \<Longrightarrow> (\<And>old t. R old t \<Longrightarrow> claim_inv t) \<Longrightarrow> board_wf m'"
  by (erule board_step.cases) (auto intro: board_wf_set)

text \<open>A task once on the board stays on it.\<close>

lemma board_step_stays:
  "board_step R m m' \<Longrightarrow> map_of m x \<noteq> None \<Longrightarrow> map_of m' x \<noteq> None"
  by (erule board_step.cases) auto

section \<open>The steps of the operations\<close>

lemma commit_answers:
  assumes "kb_commit ops now x evs ex t st = (st', res)"
  obtains (refused) err where "res = Inl err" "ks_tasks st' = ks_tasks st"
  | (indexed) "res = Inr t" "ks_tasks st' = jsmap_set (kt_id t) t (ks_tasks st)"
  using assms by (auto simp: kb_commit_def kb_index_def split: prod.splits sum.splits)

lemma commit_step:
  assumes "kb_commit ops now x evs ex t st = (st', res)" and "R (map_of (ks_tasks st) (kt_id t)) t"
  shows "board_step R (ks_tasks st) (ks_tasks st')"
  using assms(1)
proof (cases rule: commit_answers)
  case indexed
  with put [of R, OF assms(2)] show ?thesis by simp
qed (simp add: stay)

lemma transition_cases:
  assumes wf: "board_wf (ks_tasks st)" and run: "kb_transition ops env x cmd st = (st', res)"
  obtains (refused) err where "res = Inl err" "ks_tasks st' = ks_tasks st"
  | (moved) t t' where "map_of (ks_tasks st) x = Some t" "applyTransition (env_now env 0) t cmd = Inr t'"
      "res = Inr t'" "kt_id t' = x" "ks_tasks st' = jsmap_set x t' (ks_tasks st)"
proof (cases "map_of (ks_tasks st) x")
  case None
  with run show thesis by (auto simp: kb_transition_def intro: refused)
next
  case (Some t)
  show thesis
  proof (cases "applyTransition (env_now env 0) t cmd")
    case (Inl err)
    with run Some show thesis by (intro refused [of err]) (auto simp: kb_transition_def)
  next
    case (Inr t')
    have id: "kt_id t' = x" using applyTransition_Inr(6) [OF Inr] board_wf_id [OF wf Some] by simp
    from run Some Inr obtain now evs ex where "kb_commit ops now x evs ex t' st = (st', res)"
      by (auto simp: kb_transition_def)
    then show thesis
    proof (cases rule: commit_answers)
      case (refused err)
      then show thesis by (auto intro: that(1))
    next
      case indexed
      with Some Inr id show thesis by (auto intro: that(2))
    qed
  qed
qed

lemma plain_transition_lease:
  assumes "applyTransition clock t cmd = Inr t'" and "claim_inv t"
    and "tc_to cmd = KRunning \<Longrightarrow> tc_claim cmd = None"
  shows "keeps_lease (Some t) t'"
  using assms applyTransition_claim [OF assms(1)]
  by (auto simp: applyTransition_def keeps_lease_def lease_of_def Let_def split: if_splits)

lemma transition_step:
  assumes wf: "board_wf (ks_tasks st)" and run: "kb_transition ops env x cmd st = (st', res)"
    and cmd: "tc_to cmd = KRunning \<Longrightarrow> tc_claim cmd = None"
  shows "board_step keeps_lease (ks_tasks st) (ks_tasks st')"
  using wf run
proof (cases rule: transition_cases)
  case (moved t t')
  from plain_transition_lease [OF moved(2) board_wf_claim [OF wf moved(1)] cmd] moved
  show ?thesis using put [of keeps_lease "ks_tasks st" t'] by simp
qed (simp add: stay)

lemma renew_step:
  assumes wf: "board_wf (ks_tasks st)" and run: "kb_renewLease ops env x l e st = (st', res)"
  shows "board_step keeps_lease (ks_tasks st) (ks_tasks st')"
proof (cases "map_of (ks_tasks st) x")
  case None
  with run show ?thesis by (simp add: kb_renewLease_def stay)
next
  case (Some t)
  show ?thesis
  proof (cases "\<exists>c. kt_claim t = Some c \<and> kt_status t = KRunning \<and> cl_leaseId c = l")
    case False
    with run Some show ?thesis by (auto simp: kb_renewLease_def stay split: option.splits if_splits)
  next
    case True
    then obtain c where c: "kt_claim t = Some c" "kt_status t = KRunning" "cl_leaseId c = l" by blast
    let ?t = "t\<lparr>kt_claim := Some (c\<lparr>cl_expiresAt := e\<rparr>), kt_version := kt_version t + 1\<rparr>"
    from run Some c obtain now evs ex where com: "kb_commit ops now x evs ex ?t st = (st', res)"
      by (auto simp: kb_renewLease_def)
    have "keeps_lease (Some t) ?t" using c by (simp add: keeps_lease_def lease_of_def claim_inv_def)
    then show ?thesis using com Some board_wf_id [OF wf Some] by (intro commit_step [OF com]) simp
  qed
qed

lemma same_claim_lease:
  "claim_inv t \<Longrightarrow> kt_claim t' = kt_claim t \<Longrightarrow> kt_status t' = kt_status t \<Longrightarrow> keeps_lease (Some t) t'"
  by (simp add: keeps_lease_def lease_of_def claim_inv_def)

lemma update_step:
  assumes wf: "board_wf (ks_tasks st)" and run: "kb_update z ops env x p st = (st', res)"
  shows "board_step keeps_lease (ks_tasks st) (ks_tasks st')"
proof (cases "map_of (ks_tasks st) x")
  case None
  with run show ?thesis by (simp add: kb_update_def stay)
next
  case (Some t)
  let ?t = "patched_task (coalesce (up_at p) (env_now env 0)) p t"
  have same: "kt_id ?t = kt_id t" "kt_claim ?t = kt_claim t" "kt_status ?t = kt_status t"
    by (simp_all add: patched_task_def)
  from run Some consider "st' = st" | now evs ex where "kb_commit ops now x evs ex ?t st = (st', res)"
    by (auto simp: kb_update_def Let_def split: if_splits)
  then show ?thesis
  proof cases
    case 2
    from same_claim_lease [OF board_wf_claim [OF wf Some] same(2,3)] Some board_wf_id [OF wf Some] same(1)
    show ?thesis by (intro commit_step [OF 2]) simp
  qed (simp add: stay)
qed

lemma comment_step:
  assumes wf: "board_wf (ks_tasks st)" and run: "kb_comment ops env x i st = (st', res)"
  shows "board_step keeps_lease (ks_tasks st) (ks_tasks st')"
proof (cases "map_of (ks_tasks st) x")
  case None
  with run show ?thesis by (simp add: kb_comment_def stay)
next
  case (Some t)
  from run Some obtain now evs ex c at where com: "kb_commit ops now x evs ex
      (t\<lparr>kt_comments := kt_comments t @ [c], kt_version := kt_version t + 1, kt_updatedAt := at\<rparr>) st =
      (st', res)"
    by (auto simp: kb_comment_def Let_def)
  show ?thesis
    using same_claim_lease [OF board_wf_claim [OF wf Some]] Some board_wf_id [OF wf Some]
    by (intro commit_step [OF com]) simp
qed

lemma create_step:
  assumes run: "kb_create z ops env i st = (st', res)"
  shows "board_step keeps_lease (ks_tasks st) (ks_tasks st')"
proof -
  from run consider "st' = st"
    | t now evs where "newKanbanTask z (env_uuid env 0) (env_now env 0) i = Inr t"
        "kb_commit ops now (kt_id t) evs 1 t st = (st', res)"
    by (auto simp: kb_create_def split: option.splits sum.splits)
  then show ?thesis
  proof cases
    case 2
    then have "keeps_lease old t" for old
      by (auto simp: newKanbanTask_Inr keeps_lease_def lease_of_def claim_inv_def)
    then show ?thesis by (rule commit_step [OF 2(2)])
  qed (simp add: stay)
qed

text \<open>A board operation that does not claim.\<close>

fun plain_op :: "kanban_op \<Rightarrow> bool" where
  "plain_op (OpTransition x cmd) \<longleftrightarrow> tc_to cmd \<noteq> KRunning \<or> tc_claim cmd = None"
| "plain_op _ \<longleftrightarrow> True"

lemma exec_step:
  assumes "board_wf (ks_tasks st)" and "plain_op p"
  shows "board_step keeps_lease (ks_tasks st) (ks_tasks (fst (kb_exec z ops env p st)))"
proof -
  obtain st' res where run: "kb_exec z ops env p st = (st', res)" by fastforce
  then have "board_step keeps_lease (ks_tasks st) (ks_tasks st')"
    using assms
    by (cases p) (auto intro: create_step transition_step renew_step update_step comment_step)
  with run show ?thesis by simp
qed

section \<open>Counting a worker's tasks\<close>

definition held :: "string \<Rightarrow> (string, kanban_task) jsmap \<Rightarrow> nat" where
  "held w m = length (filter (\<lambda>t. map_option fst (lease_of t) = Some w) (jsmap_values m))"

lemma length_filter_set:
  "length (filter P (jsmap_values (jsmap_set k v m))) +
     (case map_of m k of None \<Rightarrow> 0 | Some u \<Rightarrow> if P u then 1 else 0) =
   length (filter P (jsmap_values m)) + (if P v then 1 else 0)"
  by (induction m) auto

lemma held_keeps:
  assumes "board_step keeps_lease m m'"
  shows "held w m' \<le> held w m"
  using assms
proof (cases rule: board_step.cases)
  case (put t)
  let ?P = "\<lambda>t. map_option fst (lease_of t) = Some w"
  have "(if ?P t then 1 else 0 :: nat) \<le>
      (case map_of m (kt_id t) of None \<Rightarrow> 0 | Some u \<Rightarrow> if ?P u then 1 else 0)"
    using put(2) by (auto simp: keeps_lease_def)
  then show ?thesis
    using length_filter_set [of ?P "kt_id t" t m] unfolding held_def put(1) by linarith
qed simp

lemma held_set:
  "held w (jsmap_set k t m) \<le> held w m + (if map_option fst (lease_of t) = Some w then 1 else 0)"
  using length_filter_set [of "\<lambda>t. map_option fst (lease_of t) = Some w" k t m]
  unfolding held_def by linarith

lemma length_filter_js_sort: "length (filter P (js_sort c xs)) = length (filter P xs)"
  by (metis mset_filter mset_js_sort size_mset)

lemma mine_held:
  assumes "board_wf (ks_tasks st)"
  shows "length (filter (\<lambda>t. map_option cl_claimant (kt_claim t) = Some w) (running_tasks lc st)) =
    held w (ks_tasks st)"
proof -
  let ?vs = "jsmap_values (ks_tasks st)"
  have run: "kt_status t = KRunning" if "t \<in> set ?vs" "kt_claim t = Some c" for t c
  proof -
    from that(1) obtain x where "map_of (ks_tasks st) x = Some t"
      using jsmap_values_iff [OF board_wf_jsmap [OF assms]] by blast
    from board_wf_claim [OF assms this] that(2) show ?thesis by (simp add: claim_inv_def)
  qed
  have "filter (\<lambda>t. kt_status t = KRunning \<and> map_option cl_claimant (kt_claim t) = Some w) ?vs =
      filter (\<lambda>t. map_option fst (lease_of t) = Some w) ?vs"
  proof (rule filter_cong [OF refl])
    fix t assume "t \<in> set ?vs"
    with run [of t] show "(kt_status t = KRunning \<and> map_option cl_claimant (kt_claim t) = Some w) =
        (map_option fst (lease_of t) = Some w)"
      by (cases "kt_claim t") (simp_all add: lease_of_def)
  qed
  moreover have "filter (task_matches (any_task\<lparr>q_status := Some [KRunning]\<rparr>)) ?vs =
      filter (\<lambda>t. kt_status t = KRunning) ?vs"
    by (rule filter_cong [OF refl]) (simp add: task_matches_def any_task_def)
  ultimately show ?thesis
    by (simp add: running_tasks_def kb_list_def list_tasks_def Let_def any_task_def
        length_filter_js_sort held_def conj_commute)
qed

section \<open>The steps of the dispatcher\<close>

lemma steps_wf: "(board_step keeps_lease)\<^sup>*\<^sup>* m m' \<Longrightarrow> board_wf m \<Longrightarrow> board_wf m'"
  by (induction rule: rtranclp_induct) (auto elim: board_step_wf simp: keeps_lease_def)

lemma steps_held: "(board_step keeps_lease)\<^sup>*\<^sup>* m m' \<Longrightarrow> held w m' \<le> held w m"
  by (induction rule: rtranclp_induct) (auto dest: held_keeps intro: order_trans)

lemma steps_stay: "(board_step keeps_lease)\<^sup>*\<^sup>* m m' \<Longrightarrow> map_of m x \<noteq> None \<Longrightarrow> map_of m' x \<noteq> None"
  by (induction rule: rtranclp_induct) (auto dest: board_step_stays)

text \<open>A task without a given lease id, at its place on the board.\<close>

definition without_lease :: "string \<Rightarrow> string \<Rightarrow> (string, kanban_task) jsmap \<Rightarrow> bool" where
  "without_lease l x m \<longleftrightarrow> (\<forall>t. map_of m x = Some t \<longrightarrow> map_option snd (lease_of t) \<noteq> Some l)"

lemma without_keeps:
  assumes "board_step keeps_lease m m'" and "without_lease l x m"
  shows "without_lease l x m'"
  using assms(1)
proof (cases rule: board_step.cases)
  case (put t)
  with assms(2) show ?thesis
    by (cases "kt_id t = x") (auto simp: without_lease_def keeps_lease_def)
qed (use assms(2) in simp)

lemma steps_without:
  "(board_step keeps_lease)\<^sup>*\<^sup>* m m' \<Longrightarrow> without_lease l x m \<Longrightarrow> without_lease l x m'"
  by (induction rule: rtranclp_induct) (auto intro: without_keeps)

lemma claim_cases:
  assumes wf: "board_wf (ks_tasks st)" and run: "claimNext lc ops d env w now st = (st', res)"
  obtains (idle) "ks_tasks st' = ks_tasks st" "\<forall>t. res \<noteq> Inr (Some t)"
  | (claimed) t ts e t' where "hasCapacity lc d w st" "readyTasks lc now st = t # ts"
      "lease_expiry d now = Some e" "map_of (ks_tasks st) (kt_id t) = Some t"
      "res = Inr (Some t')" "kt_id t' = kt_id t" "ks_tasks st' = jsmap_set (kt_id t) t' (ks_tasks st)"
      "kt_status t' = KRunning" "kt_version t' = kt_version t + 1"
      "kt_claim t' = Some \<lparr>cl_claimant = w, cl_leaseId = env_uuid env 0, cl_claimedAt = now,
         cl_expiresAt = e\<rparr>"
proof (cases "hasCapacity lc d w st \<and> readyTasks lc now st \<noteq> [] \<and> lease_expiry d now \<noteq> None")
  case False
  with run show thesis
    by (intro idle) (auto simp: claimNext_def split: if_splits list.splits option.splits)
next
  case True
  then obtain t ts e where cap: "hasCapacity lc d w st" and ready: "readyTasks lc now st = t # ts"
    and e: "lease_expiry d now = Some e"
    by (cases "readyTasks lc now st") auto
  let ?claim = "\<lparr>cl_claimant = w, cl_leaseId = env_uuid env 0, cl_claimedAt = now, cl_expiresAt = e\<rparr>"
  let ?cmd = "\<lparr>tc_to = KRunning, tc_expectedVersion = kt_version t, tc_reason = None, tc_at = Some now,
    tc_claim = Some ?claim\<rparr>"
  obtain r where tr: "kb_transition ops (next_uuid env) (kt_id t) ?cmd st = (st', r)"
    and res: "res = (case r of Inl err \<Rightarrow> Inl err | Inr t' \<Rightarrow> Inr (Some t'))"
    using run cap ready e by (auto simp: claimNext_def split: prod.splits sum.splits)
  from wf tr show thesis
  proof (cases rule: transition_cases)
    case (refused err)
    with res show thesis by (intro idle) simp_all
  next
    case (moved u t')
    have "t \<in> set (readyTasks lc now st)" using ready by simp
    then have "t \<in> set (jsmap_values (ks_tasks st))"
      by (auto simp: readyTasks_def kb_list_def list_tasks_def any_task_def Let_def)
    then obtain x where "map_of (ks_tasks st) x = Some t"
      using jsmap_values_iff [OF board_wf_jsmap [OF wf]] by blast
    with board_wf_id [OF wf this] moved(1) have "u = t" by simp
    with moved applyTransition_Inr [OF moved(2)] have "kt_claim t' = Some ?claim"
      by (auto simp: applyTransition_def Let_def split: if_splits)
    with moved applyTransition_Inr [OF moved(2)] \<open>u = t\<close> cap ready e res
    show thesis by (intro claimed [of t ts e t']) simp_all
  qed
qed

text \<open>
  Reclaiming: each lapsed task of the list goes back to ready without a lease, in one plain
  step; the others stay as they are.
\<close>

lemma reclaim_cases:
  assumes "board_wf (ks_tasks st)" and "distinct (map kt_id ts)"
    and "reclaim_tasks ops envs n now ts st = (st', res)"
  shows "(board_step keeps_lease)\<^sup>*\<^sup>* (ks_tasks st) (ks_tasks st') \<and>
    (\<forall>x. x \<notin> kt_id ` set (filter (lease_lapsed now) ts) \<longrightarrow>
       map_of (ks_tasks st') x = map_of (ks_tasks st) x) \<and>
    (\<forall>ids. res = Inr ids \<longrightarrow> ids = map kt_id (filter (lease_lapsed now) ts) \<and>
       (\<forall>x\<in>set ids. \<exists>t. map_of (ks_tasks st') x = Some t \<and> kt_status t = KReady \<and> kt_claim t = None))"
  using assms
proof (induction ts arbitrary: st n res)
  case Nil
  then show ?case by auto
next
  case (Cons t ts)
  show ?case
  proof (cases "lease_lapsed now t")
    case False
    with Cons.prems(3) have "reclaim_tasks ops envs n now ts st = (st', res)" by simp
    with Cons.IH [OF Cons.prems(1) _ this] Cons.prems(2) False show ?thesis by simp
  next
    case True
    let ?cmd = "plain_move KReady (kt_version t) now None"
    obtain st1 r where tr: "kb_transition ops (envs n) (kt_id t) ?cmd st = (st1, r)" by fastforce
    have step: "board_step keeps_lease (ks_tasks st) (ks_tasks st1)"
      by (rule transition_step [OF Cons.prems(1) tr]) (simp add: plain_move_def)
    have wf1: "board_wf (ks_tasks st1)"
      using step Cons.prems(1) by (rule board_step_wf) (simp add: keeps_lease_def)
    from Cons.prems(1) tr show ?thesis
    proof (cases rule: transition_cases)
      case (refused err)
      with Cons.prems(3) tr True have "st' = st1" "res = Inl err" by simp_all
      with step refused show ?thesis by auto
    next
      case (moved u t')
      obtain r2 where rest: "reclaim_tasks ops envs (Suc n) now ts st1 = (st', r2)"
        and res: "res = (case r2 of Inl err \<Rightarrow> Inl err | Inr ids \<Rightarrow> Inr (kt_id t # ids))"
        using Cons.prems(3) tr True moved(3) by (auto split: prod.splits sum.splits)
      have ids: "distinct (map kt_id ts)" "kt_id t \<notin> kt_id ` set ts" using Cons.prems(2) by auto
      note IH = Cons.IH [OF wf1 ids(1) rest]
      have steps: "(board_step keeps_lease)\<^sup>*\<^sup>* (ks_tasks st) (ks_tasks st')"
        using step IH by (meson converse_rtranclp_into_rtranclp)
      have free: "kt_status t' = KReady" "kt_claim t' = None"
        using moved(2) by (auto simp: applyTransition_def plain_move_def Let_def split: if_splits)
      have here: "map_of (ks_tasks st') (kt_id t) = Some t'"
        using IH ids(2) moved(5) by auto
      show ?thesis
      proof (intro conjI allI impI)
        fix x assume x: "x \<notin> kt_id ` set (filter (lease_lapsed now) (t # ts))"
        then show "map_of (ks_tasks st') x = map_of (ks_tasks st) x"
          using IH moved(5) True by simp
      next
        fix ids assume "res = Inr ids"
        then show "ids = map kt_id (filter (lease_lapsed now) (t # ts))"
          using res IH True by (auto split: sum.splits)
      next
        fix ids assume "res = Inr ids"
        then obtain ids' where "r2 = Inr ids'" "ids = kt_id t # ids'" using res by (auto split: sum.splits)
        with IH here free show "\<forall>x\<in>set ids. \<exists>t. map_of (ks_tasks st') x = Some t \<and> kt_status t = KReady \<and>
            kt_claim t = None"
          by simp
      qed (rule steps)
    qed
  qed
qed

lemma running_ids:
  assumes "board_wf (ks_tasks st)"
  shows "distinct (map kt_id (running_tasks lc st))"
    and "t \<in> set (running_tasks lc st) \<longleftrightarrow>
      map_of (ks_tasks st) (kt_id t) = Some t \<and> kt_status t = KRunning"
proof -
  let ?q = "any_task\<lparr>q_status := Some [KRunning]\<rparr>"
  let ?vs = "filter (task_matches ?q) (jsmap_values (ks_tasks st))"
  have run: "running_tasks lc st = js_sort (compareTasks lc) ?vs"
    by (simp add: running_tasks_def kb_list_def list_tasks_def any_task_def Let_def)
  have wf: "distinct (map fst (ks_tasks st))" using board_wf_jsmap [OF assms] by (simp add: jsmap_wf_def)
  have id: "kt_id t = k" if "(k, t) \<in> set (ks_tasks st)" for k t
    using that wf board_wf_id [OF assms] by simp
  then have "map kt_id (jsmap_values (ks_tasks st)) = map fst (ks_tasks st)" by (auto simp: o_def)
  then have "distinct (map kt_id ?vs)" using wf distinct_map_filter by metis
  moreover have "mset (map kt_id (running_tasks lc st)) = mset (map kt_id ?vs)"
    unfolding run mset_map mset_js_sort ..
  ultimately show "distinct (map kt_id (running_tasks lc st))" using mset_eq_imp_distinct_iff by blast
  have "t \<in> set (jsmap_values (ks_tasks st)) \<longleftrightarrow> map_of (ks_tasks st) (kt_id t) = Some t"
    using jsmap_values_iff [OF board_wf_jsmap [OF assms], of t] board_wf_id [OF assms] by metis
  then show "t \<in> set (running_tasks lc st) \<longleftrightarrow>
      map_of (ks_tasks st) (kt_id t) = Some t \<and> kt_status t = KRunning"
    unfolding run set_js_sort by (simp add: task_matches_def any_task_def del: set_map)
qed

lemma reclaim_steps:
  assumes "board_wf (ks_tasks st)" and "reclaimExpired lc ops envs now st = (st', res)"
  shows "(board_step keeps_lease)\<^sup>*\<^sup>* (ks_tasks st) (ks_tasks st')"
  using reclaim_cases [OF assms(1) running_ids(1) [OF assms(1)]] assms(2)
  unfolding reclaimExpired_def by blast

end
