(* ===== verification/KanbanWorkers.thy ===== *)
theory KanbanWorkers
  imports KanbanLeases Samples
begin

text \<open>
  The promises of the dispatcher over histories of its methods and of the board's other
  operations, in any order and by any number of workers.
\<close>

section \<open>Histories\<close>

datatype dispatch_op =
    ClaimOp env string string
  | HeartbeatOp env string string string
  | ReclaimOp "nat \<Rightarrow> env" string
  | CompleteOp env string string string
  | FailOp env string string "string option" string
  | BlockOp env string string "string option" string
  | CancelOp env string string
  | BoardOp env kanban_op

fun dispatch_exec :: "zod \<Rightarrow> (string \<Rightarrow> string \<Rightarrow> int) \<Rightarrow> ('s, payload) chronicle_ops \<Rightarrow> dispatcher \<Rightarrow>
    dispatch_op \<Rightarrow> 's kanban_store \<Rightarrow> 's kanban_store" where
  "dispatch_exec z lc ops d (ClaimOp env w now) st = fst (claimNext lc ops d env w now st)"
| "dispatch_exec z lc ops d (HeartbeatOp env x l now) st = fst (heartbeat ops d env x l now st)"
| "dispatch_exec z lc ops d (ReclaimOp envs now) st = fst (reclaimExpired lc ops envs now st)"
| "dispatch_exec z lc ops d (CompleteOp env x l now) st = fst (complete ops env x l now st)"
| "dispatch_exec z lc ops d (FailOp env x l reason now) st = fst (fail ops env x l reason now st)"
| "dispatch_exec z lc ops d (BlockOp env x l reason now) st = fst (block ops env x l reason now st)"
| "dispatch_exec z lc ops d (CancelOp env x now) st = fst (cancel ops env x now st)"
| "dispatch_exec z lc ops d (BoardOp env p) st = fst (kb_exec z ops env p st)"

definition dispatch_run :: "zod \<Rightarrow> (string \<Rightarrow> string \<Rightarrow> int) \<Rightarrow> ('s, payload) chronicle_ops \<Rightarrow> dispatcher \<Rightarrow>
    dispatch_op list \<Rightarrow> 's kanban_store \<Rightarrow> 's kanban_store" where
  "dispatch_run z lc ops d ps st = fold (dispatch_exec z lc ops d) ps st"

text \<open>Only the dispatcher claims; and its claims do not draw a given uuid again.\<close>

fun plain_dispatch :: "dispatch_op \<Rightarrow> bool" where
  "plain_dispatch (BoardOp env p) \<longleftrightarrow> plain_op p"
| "plain_dispatch _ \<longleftrightarrow> True"

fun draws_no_lease :: "string \<Rightarrow> dispatch_op \<Rightarrow> bool" where
  "draws_no_lease l (ClaimOp env w now) \<longleftrightarrow> env_uuid env 0 \<noteq> l"
| "draws_no_lease l _ \<longleftrightarrow> True"

lemma owned_transition_step:
  assumes "board_wf (ks_tasks st)"
    and "(case owned x l st of Inl err \<Rightarrow> (st, Inl err)
      | Inr t \<Rightarrow> kb_transition ops env x (plain_move to (kt_version t) now reason) st) = (st', res)"
  shows "board_step keeps_lease (ks_tasks st) (ks_tasks st')"
proof (cases "owned x l st")
  case (Inl err)
  with assms(2) show ?thesis by (simp add: stay)
next
  case (Inr t)
  with assms(2) have "kb_transition ops env x (plain_move to (kt_version t) now reason) st = (st', res)"
    by simp
  from transition_step [OF assms(1) this] show ?thesis by (simp add: plain_move_def)
qed

lemma dispatch_cases:
  assumes wf: "board_wf (ks_tasks st)" and p: "plain_dispatch p"
  obtains (kept) "(board_step keeps_lease)\<^sup>*\<^sup>* (ks_tasks st) (ks_tasks (dispatch_exec z lc ops d p st))"
  | (took) env w now t t' where "p = ClaimOp env w now" "hasCapacity lc d w st"
      "map_of (ks_tasks st) (kt_id t) = Some t" "lease_of t' = Some (w, env_uuid env 0)"
      "kt_id t' = kt_id t" "claim_inv t'"
      "ks_tasks (dispatch_exec z lc ops d p st) = jsmap_set (kt_id t') t' (ks_tasks st)"
proof -
  have step: "board_step keeps_lease (ks_tasks st) (ks_tasks (fst r)) \<Longrightarrow>
      (board_step keeps_lease)\<^sup>*\<^sup>* (ks_tasks st) (ks_tasks (fst r))" for r :: "'a kanban_store \<times> 'b"
    by (rule r_into_rtranclp)
  show thesis
  proof (cases p)
    case (ClaimOp env w now)
    obtain st' res where run: "claimNext lc ops d env w now st = (st', res)" by fastforce
    from wf run show thesis
    proof (cases rule: claim_cases)
      case idle
      with ClaimOp run show thesis by (intro kept) simp
    next
      case (claimed t ts e t')
      with ClaimOp run show thesis
        by (intro took [of env w now t t']) (simp_all add: lease_of_def claim_inv_def)
    qed
  next
    case (HeartbeatOp env x l now)
    obtain st' res where run: "heartbeat ops d env x l now st = (st', res)" by fastforce
    have "board_step keeps_lease (ks_tasks st) (ks_tasks st')"
    proof (cases "lease_expiry d now")
      case None
      with run show ?thesis by (simp add: heartbeat_def stay)
    next
      case (Some e)
      with run renew_step [OF wf] show ?thesis by (auto simp: heartbeat_def)
    qed
    with HeartbeatOp run show thesis by (intro kept) auto
  next
    case (ReclaimOp envs now)
    obtain st' res where run: "reclaimExpired lc ops envs now st = (st', res)" by fastforce
    from reclaim_steps [OF wf run] ReclaimOp run show thesis by (intro kept) simp
  next
    case (CompleteOp env x l now)
    obtain st' res where run: "complete ops env x l now st = (st', res)" by fastforce
    from owned_transition_step [OF wf run [unfolded complete_def]] CompleteOp run
    show thesis by (intro kept) auto
  next
    case (FailOp env x l reason now)
    obtain st' res where run: "fail ops env x l reason now st = (st', res)" by fastforce
    from owned_transition_step [OF wf run [unfolded fail_def]] FailOp run
    show thesis by (intro kept) auto
  next
    case (BlockOp env x l reason now)
    obtain st' res where run: "block ops env x l reason now st = (st', res)" by fastforce
    from owned_transition_step [OF wf run [unfolded block_def]] BlockOp run
    show thesis by (intro kept) auto
  next
    case (CancelOp env x now)
    obtain st' res where run: "cancel ops env x now st = (st', res)" by fastforce
    have "board_step keeps_lease (ks_tasks st) (ks_tasks st')"
    proof (cases "kb_get x st")
      case None
      with run show ?thesis by (simp add: cancel_def stay)
    next
      case (Some t)
      with run have "kb_transition ops env x (plain_move KCancelled (kt_version t) now None) st = (st', res)"
        by (simp add: cancel_def)
      from transition_step [OF wf this] show ?thesis by (simp add: plain_move_def)
    qed
    with CancelOp run show thesis by (intro kept) auto
  next
    case (BoardOp env q)
    with exec_step [OF wf, of q z ops env] p show thesis by (intro kept) auto
  qed
qed

lemma dispatch_wf:
  assumes "board_wf (ks_tasks st)" and "plain_dispatch p"
  shows "board_wf (ks_tasks (dispatch_exec z lc ops d p st))"
  using assms
proof (cases rule: dispatch_cases [where z = z and lc = lc and ops = ops and d = d])
  case kept
  then show ?thesis using assms(1) by (rule steps_wf)
next
  case (took env w now t t')
  show ?thesis unfolding took(7) by (rule board_wf_set [OF assms(1) took(6)])
qed

lemma dispatch_run_simps [simp]:
  "dispatch_run z lc ops d [] st = st"
  "dispatch_run z lc ops d (p # ps) st = dispatch_run z lc ops d ps (dispatch_exec z lc ops d p st)"
  by (simp_all add: dispatch_run_def)

lemma dispatch_run_wf:
  "board_wf (ks_tasks st) \<Longrightarrow> list_all plain_dispatch ps \<Longrightarrow>
   board_wf (ks_tasks (dispatch_run z lc ops d ps st))"
  by (induction ps arbitrary: st) (auto intro: dispatch_wf)

section \<open>Capacity\<close>



section \<open>Lost leases\<close>

lemma dispatch_without:
  assumes "board_wf (ks_tasks st)" and "plain_dispatch p" and "draws_no_lease l p"
    and "without_lease l x (ks_tasks st)"
  shows "without_lease l x (ks_tasks (dispatch_exec z lc ops d p st))"
  using assms(1,2)
proof (cases rule: dispatch_cases [where z = z and lc = lc and ops = ops and d = d])
  case kept
  then show ?thesis using assms(4) by (rule steps_without)
next
  case (took env w now t t')
  with assms(3,4) show ?thesis
    unfolding took(7) by (cases "kt_id t' = x") (simp_all add: without_lease_def)
qed

lemma dispatch_stays:
  assumes "board_wf (ks_tasks st)" and "plain_dispatch p" and "map_of (ks_tasks st) x \<noteq> None"
  shows "map_of (ks_tasks (dispatch_exec z lc ops d p st)) x \<noteq> None"
  using assms(1,2)
proof (cases rule: dispatch_cases [where z = z and lc = lc and ops = ops and d = d])
  case kept
  then show ?thesis using assms(3) by (rule steps_stay)
next
  case (took env w now t t')
  with assms(3) show ?thesis unfolding took(7) by simp
qed

lemma dispatch_run_without:
  "board_wf (ks_tasks st) \<Longrightarrow> list_all plain_dispatch ps \<Longrightarrow> list_all (draws_no_lease l) ps \<Longrightarrow>
   without_lease l x (ks_tasks st) \<Longrightarrow> map_of (ks_tasks st) x \<noteq> None \<Longrightarrow>
   without_lease l x (ks_tasks (dispatch_run z lc ops d ps st)) \<and>
   map_of (ks_tasks (dispatch_run z lc ops d ps st)) x \<noteq> None"
proof (induction ps arbitrary: st)
  case (Cons p ps)
  then have p: "plain_dispatch p" "draws_no_lease l p" by simp_all
  from Cons.IH [OF dispatch_wf [OF Cons.prems(1) p(1)] _ _
      dispatch_without [OF Cons.prems(1) p Cons.prems(4)] dispatch_stays [OF Cons.prems(1) p(1) Cons.prems(5)]]
    Cons.prems(2,3)
  show ?case by simp
qed simp

lemma without_lease_refused:
  assumes "without_lease l x (ks_tasks st)" and "map_of (ks_tasks st) x \<noteq> None"
  shows "owned x l st = Inl (KLeaseLost x l)" and "kb_renewLease ops env x l e st = (st, Inl (KLeaseLost x l))"
proof -
  obtain t where t: "map_of (ks_tasks st) x = Some t" using assms(2) by blast
  with assms(1) have "map_option cl_leaseId (kt_claim t) \<noteq> Some l"
    by (auto simp: without_lease_def lease_of_def)
  with t show "owned x l st = Inl (KLeaseLost x l)" "kb_renewLease ops env x l e st = (st, Inl (KLeaseLost x l))"
    by (auto simp: owned_def kb_get_def kb_renewLease_def split: option.splits)
qed

text \<open>
  C16: Fencing. Once a reclaim has released a lapsed lease, its holder is locked out for good:
  after any further history whose claims draw other lease ids, renewing, completing, failing
  or blocking the task under the old lease is refused as lost and changes nothing.
\<close>

theorem lost_lease_stays_lost:
  assumes "list_all plain_dispatch (ps @ ps')" and "list_all (draws_no_lease l) ps'"
    and "st = dispatch_run z lc ops d ps (kb_new s)"
    and "kb_get x st = Some t" and "kt_status t = KRunning" and "lease_lapsed now t"
    and "map_option cl_leaseId (kt_claim t) = Some l"
    and "reclaimExpired lc ops envs now st = (st1, Inr ids)"
    and "st2 = dispatch_run z lc ops d ps' st1"
  shows "x \<in> set ids \<and>
    complete ops env x l now' st2 = (st2, Inl (KLeaseLost x l)) \<and>
    fail ops env x l reason now' st2 = (st2, Inl (KLeaseLost x l)) \<and>
    block ops env x l reason now' st2 = (st2, Inl (KLeaseLost x l)) \<and>
    (lease_expiry d now' \<noteq> None \<longrightarrow> heartbeat ops d env x l now' st2 = (st2, Inl (KLeaseLost x l)))"
proof -
  have wf: "board_wf (ks_tasks st)"
    unfolding assms(3) using assms(1) by (intro dispatch_run_wf) (simp_all add: kb_new_def)
  have here: "map_of (ks_tasks st) x = Some t" using assms(4) by (simp add: kb_get_def)
  have id: "kt_id t = x" by (rule board_wf_id [OF wf here])
  have "t \<in> set (running_tasks lc st)" using running_ids(2) [OF wf] here id assms(5) by blast
  with id assms(6) have lapsed: "x \<in> set (map kt_id (filter (lease_lapsed now) (running_tasks lc st)))" by force
  note R = reclaim_cases [OF wf running_ids(1) [OF wf] assms(8) [unfolded reclaimExpired_def]]
  then have steps: "(board_step keeps_lease)\<^sup>*\<^sup>* (ks_tasks st) (ks_tasks st1)" by blast
  have ids: "ids = map kt_id (filter (lease_lapsed now) (running_tasks lc st))" using R by blast
  with lapsed have x: "x \<in> set ids" by simp
  then obtain t1 where t1: "map_of (ks_tasks st1) x = Some t1" "kt_claim t1 = None" using R by blast
  then have "without_lease l x (ks_tasks st1)" by (simp add: without_lease_def lease_of_def)
  then have "without_lease l x (ks_tasks st2) \<and> map_of (ks_tasks st2) x \<noteq> None"
    unfolding assms(9) using assms(1,2) t1(1)
    by (intro dispatch_run_without steps_wf [OF steps wf]) simp_all
  with without_lease_refused [of l x st2] x show ?thesis
    by (auto simp: complete_def fail_def block_def heartbeat_def)
qed

section \<open>Reclaiming and claiming\<close>

text \<open>
  A reclaim releases exactly the lapsed leases. When it returns, it names the running
  tasks whose lease had lapsed, each is ready and without a lease, every other task is as it
  was, and no running task with a lapsed lease is left.
\<close>

theorem reclaim_releases_lapsed:
  assumes "list_all plain_dispatch ps" and "st = dispatch_run z lc ops d ps (kb_new s)"
    and "reclaimExpired lc ops envs now st = (st', Inr ids)"
  shows "set ids = {x. \<exists>t. kb_get x st = Some t \<and> kt_status t = KRunning \<and> lease_lapsed now t} \<and>
    (\<forall>x\<in>set ids. \<exists>t. kb_get x st' = Some t \<and> kt_status t = KReady \<and> kt_claim t = None) \<and>
    (\<forall>x. x \<notin> set ids \<longrightarrow> kb_get x st' = kb_get x st) \<and>
    filter (lease_lapsed now) (running_tasks lc st') = []"
proof -
  have wf: "board_wf (ks_tasks st)"
    unfolding assms(2) using assms(1) by (intro dispatch_run_wf) (simp_all add: kb_new_def)
  note R = reclaim_cases [OF wf running_ids(1) [OF wf] assms(3) [unfolded reclaimExpired_def]]
  have wf': "board_wf (ks_tasks st')" using R steps_wf [OF _ wf] by blast
  have ids: "set ids = kt_id ` set (filter (lease_lapsed now) (running_tasks lc st))" using R by simp
  have set: "set ids = {x. \<exists>t. kb_get x st = Some t \<and> kt_status t = KRunning \<and> lease_lapsed now t}"
    (is "_ = ?lapsed")
  proof
    show "set ids \<subseteq> ?lapsed" unfolding ids kb_get_def using running_ids(2) [OF wf] by auto
    show "?lapsed \<subseteq> set ids"
    proof
      fix x assume "x \<in> ?lapsed"
      then obtain t where t: "map_of (ks_tasks st) x = Some t" "kt_status t = KRunning" "lease_lapsed now t"
        by (auto simp: kb_get_def)
      with board_wf_id [OF wf t(1)] show "x \<in> set ids"
        unfolding ids using running_ids(2) [OF wf, of t lc] by force
    qed
  qed
  have freed: "\<forall>x\<in>set ids. \<exists>t. kb_get x st' = Some t \<and> kt_status t = KReady \<and> kt_claim t = None"
    unfolding kb_get_def using R by blast
  have kept: "\<forall>x. x \<notin> set ids \<longrightarrow> kb_get x st' = kb_get x st" unfolding kb_get_def ids using R by blast
  have "\<not> lease_lapsed now t" if t: "t \<in> set (running_tasks lc st')" for t
  proof
    assume lapsed: "lease_lapsed now t"
    from t have here: "kb_get (kt_id t) st' = Some t" "kt_status t = KRunning"
      using running_ids(2) [OF wf'] by (auto simp: kb_get_def)
    show False
    proof (cases "kt_id t \<in> set ids")
      case True
      with freed here show False by auto
    next
      case False
      with kept here lapsed have "kt_id t \<in> ?lapsed" by auto
      with False set show False by blast
    qed
  qed
  then have "filter (lease_lapsed now) (running_tasks lc st') = []" by (simp add: filter_empty_conv)
  with set freed kept show ?thesis by blast
qed

text \<open>
  A claim takes the best runnable task. When it answers a task, that task was ready, due
  and unblocked, no runnable task ranks before it, and it is now running under a lease of the
  worker that ends one lease duration after now; when it answers none, the worker was at its
  limit or nothing was runnable, and nothing changed.
\<close>

theorem claim_takes_best:
  assumes "js_comparator lc" and "list_all plain_dispatch ps"
    and "st = dispatch_run z lc ops d ps (kb_new s)"
    and "claimNext lc ops d env w now st = (st', Inr answer)"
  shows "(case answer of
      None \<Rightarrow> st' = st \<and> (\<not> hasCapacity lc d w st \<or> readyTasks lc now st = [])
    | Some t' \<Rightarrow> \<exists>t e. kb_get (kt_id t) st = Some t \<and> kt_status t = KReady \<and>
        dependenciesSatisfied st t \<and> (\<forall>u\<in>set (readyTasks lc now st). compareTasks lc t u \<le> 0) \<and>
        kb_get (kt_id t) st' = Some t' \<and> kt_status t' = KRunning \<and> kt_version t' = kt_version t + 1 \<and>
        lease_expiry d now = Some e \<and> kt_claim t' = Some \<lparr>cl_claimant = w,
          cl_leaseId = env_uuid env 0, cl_claimedAt = now, cl_expiresAt = e\<rparr>)"
proof -
  have wf: "board_wf (ks_tasks st)"
    unfolding assms(3) using assms(2) by (intro dispatch_run_wf) (simp_all add: kb_new_def)
  show ?thesis
  proof (cases answer)
    case None
    with assms(4) show ?thesis
      by (auto simp: claimNext_def split: if_splits list.splits option.splits prod.splits sum.splits)
  next
    case (Some t')
    from wf assms(4) show ?thesis
    proof (cases rule: claim_cases)
      case idle
      with Some show ?thesis by simp
    next
      case (claimed t ts e t'')
      have t: "t \<in> set (readyTasks lc now st)" using claimed(2) by simp
      have "sorted_wrt (\<lambda>a b. compareTasks lc a b \<le> 0) (readyTasks lc now st)"
        unfolding readyTasks_def kb_list_def list_tasks_def Let_def any_task_def
        by (simp add: sorted_wrt_filter js_comparator.sorted_js_sort [OF js_comparator_tasks [OF assms(1)]])
      then have "\<forall>u\<in>set (readyTasks lc now st). compareTasks lc t u \<le> 0"
        unfolding claimed(2)
        using js_comparator.cmp_refl [OF js_comparator_tasks [OF assms(1)]] by simp
      moreover have "kt_status t = KReady" "dependenciesSatisfied st t"
        using t by (auto simp: readyTasks_def kb_list_def list_tasks_def Let_def any_task_def task_matches_def)
      ultimately show ?thesis using Some claimed by (auto simp: kb_get_def)
    qed
  qed
qed

section \<open>Samples\<close>

text \<open>A task is created, triaged and made ready; a worker claims it for a minute.\<close>

definition one_minute :: dispatcher where
  "one_minute = kd_new \<lparr>do_leaseDurationMs = 60000, do_maxConcurrent = None\<rparr>"

definition sample_work :: "dispatch_op list" where
  "sample_work =
     [BoardOp (iso_env ''a'' midnight) (OpCreate (plain_task ''paint'')),
      BoardOp (iso_env ''b'' midnight) (OpTransition ''t1'' (move_to KTriaged 1)),
      BoardOp (iso_env ''c'' midnight) (OpTransition ''t1'' (move_to KReady 2)),
      ClaimOp (iso_env ''d'' midnight) ''w1'' midnight]"

abbreviation work_run :: "dispatch_op list \<Rightarrow> payload sqlite_db kanban_store" where
  "work_run ps \<equiv> dispatch_run iso_zod code_unit_compare (host_sqlite iso_zod) one_minute ps (kb_new sqlite_new)"

lemma sample_work_plain: "list_all plain_dispatch sample_work"
  by (simp add: sample_work_def move_to_def)



lemma claim_takes_best_witness:
  "\<exists>t. snd (claimNext code_unit_compare (host_sqlite iso_zod) one_minute (iso_env ''d'' midnight) ''w1''
      midnight (work_run (take 3 sample_work))) = Inr (Some t) \<and> kt_status t = KRunning"
proof -
  let ?st = "work_run (take 3 sample_work)"
  let ?claim = "claimNext code_unit_compare (host_sqlite iso_zod) one_minute (iso_env ''d'' midnight) ''w1''
      midnight ?st"
  have plain: "list_all plain_dispatch (take 3 sample_work)"
    by (simp add: sample_work_def move_to_def)
  have "case snd ?claim of Inr (Some t) \<Rightarrow> True | _ \<Rightarrow> False" by code_simp
  then obtain t where t: "snd ?claim = Inr (Some t)" by (auto split: sum.splits option.splits)
  obtain st' r where run: "?claim = (st', r)" by fastforce
  with t have "r = Inr (Some t)" by simp
  from claim_takes_best [OF code_units.js_comparator_axioms plain refl run [unfolded this]] t
  show ?thesis by auto
qed

lemma sample_reclaim:
  "case snd (reclaimExpired code_unit_compare (host_sqlite iso_zod) (\<lambda>n. iso_env ''e'' later) later
      (work_run sample_work)) of Inl err \<Rightarrow> False | Inr ids \<Rightarrow> ids = [''t1'']"
  by code_simp

lemma reclaim_releases_lapsed_witness:
  "filter (lease_lapsed later) (running_tasks code_unit_compare
     (fst (reclaimExpired code_unit_compare (host_sqlite iso_zod) (\<lambda>n. iso_env ''e'' later) later
       (work_run sample_work)))) = []"
proof -
  let ?run = "reclaimExpired code_unit_compare (host_sqlite iso_zod) (\<lambda>n. iso_env ''e'' later) later
    (work_run sample_work)"
  obtain ids where ids: "snd ?run = Inr ids" using sample_reclaim by (auto split: sum.splits)
  obtain st' r where run: "?run = (st', r)" by fastforce
  with ids have "r = Inr ids" by simp
  from reclaim_releases_lapsed [OF sample_work_plain refl run [unfolded this]] run show ?thesis by simp
qed

lemma lost_lease_stays_lost_witness:
  "snd (complete (host_sqlite iso_zod) (iso_env ''f'' later) ''t1'' ''d'' later
     (dispatch_run iso_zod code_unit_compare (host_sqlite iso_zod) one_minute
       [ClaimOp (iso_env ''g'' later) ''w2'' later]
       (fst (reclaimExpired code_unit_compare (host_sqlite iso_zod) (\<lambda>n. iso_env ''e'' later) later
          (work_run sample_work))))) = Inl (KLeaseLost ''t1'' ''d'')"
proof -
  let ?st = "work_run sample_work" and ?ps = "[ClaimOp (iso_env ''g'' later) ''w2'' later]"
  let ?run = "reclaimExpired code_unit_compare (host_sqlite iso_zod) (\<lambda>n. iso_env ''e'' later) later ?st"
  obtain ids where ids: "snd ?run = Inr ids" using sample_reclaim by (auto split: sum.splits)
  obtain st1 r where run: "?run = (st1, r)" by fastforce
  with ids have r: "r = Inr ids" by simp
  have "case kb_get ''t1'' ?st of None \<Rightarrow> False | Some t \<Rightarrow> kt_status t = KRunning \<and> lease_lapsed later t \<and>
      map_option cl_leaseId (kt_claim t) = Some ''d''" by code_simp
  then obtain t where t: "kb_get ''t1'' ?st = Some t" "kt_status t = KRunning" "lease_lapsed later t"
    "map_option cl_leaseId (kt_claim t) = Some ''d''" by (auto split: option.splits)
  have plain: "list_all plain_dispatch (sample_work @ ?ps)" using sample_work_plain by simp
  have draws: "list_all (draws_no_lease ''d'') ?ps" by (simp add: iso_env_def)
  from lost_lease_stays_lost [where env = "iso_env ''f'' later" and now' = later,
      OF plain draws refl t run [unfolded r] refl] run
  show ?thesis by simp
qed

end
