(* ===== verification/StructureResolution.thy ===== *)
theory StructureResolution
  imports Structure
begin

text \<open>
  What resolution guarantees: it ends when the loader knows finitely many bundles, the chain
  is a topological order of the includes, every node of the result is the one the last
  bundle of the chain contributed, and the digest identifies the structure.
\<close>

section \<open>The chain\<close>

text \<open>
  The state of \<open>visit\<close>: resolved keys are those of the chain, none twice, and every agent_bundle
  comes after everything it includes.
\<close>

definition includes_before :: "agent_bundle list \<Rightarrow> bool" where
  "includes_before chain \<longleftrightarrow> (\<forall>pre b post. chain = pre @ b # post \<longrightarrow>
     (\<forall>r\<in>set (bd_includes b). refKey r \<in> bundle_key ` set pre))"

definition chain_ok :: "agent_bundle list \<times> string list \<Rightarrow> bool" where
  "chain_ok st \<longleftrightarrow> set (snd st) = bundle_key ` set (fst st) \<and> distinct (map bundle_key (fst st)) \<and>
     includes_before (fst st) \<and> list_all bundle_ok (fst st)"

lemma chain_ok_Nil: "chain_ok ([], [])"
  by (simp add: chain_ok_def includes_before_def)

lemma includes_before_snoc:
  assumes "includes_before chain" and "\<forall>r\<in>set (bd_includes b). refKey r \<in> bundle_key ` set chain"
  shows "includes_before (chain @ [b])"
  unfolding includes_before_def
proof (intro allI impI)
  fix pre c post assume eq: "chain @ [b] = pre @ c # post"
  show "\<forall>r\<in>set (bd_includes c). refKey r \<in> bundle_key ` set pre"
  proof (cases post rule: rev_cases)
    case Nil
    with eq assms(2) show ?thesis by simp
  next
    case (snoc post' d)
    with eq have "chain = pre @ c # post'" by simp
    with assms(1) show ?thesis unfolding includes_before_def by blast
  qed
qed

lemma chain_ok_snoc:
  assumes "chain_ok (chain, resolved)" and "bundle_key b \<notin> set resolved" and "bundle_ok b"
    and "\<forall>r\<in>set (bd_includes b). refKey r \<in> set resolved"
  shows "chain_ok (chain @ [b], bundle_key b # resolved)"
  using assms includes_before_snoc [of chain b] by (auto simp: chain_ok_def)

text \<open>What one visit adds: new bundles at the end, none of a key that is being visited.\<close>

definition visit_adds :: "string list \<Rightarrow> agent_bundle list \<times> string list \<Rightarrow> agent_bundle list \<times> string list \<Rightarrow> bool" where
  "visit_adds visiting st st' \<longleftrightarrow> chain_ok st' \<and> (\<exists>more. fst st' = fst st @ more) \<and>
     set (snd st) \<subseteq> set (snd st') \<and> set visiting \<inter> set (snd st') \<subseteq> set (snd st)"

lemma visit_adds_refl: "chain_ok st \<Longrightarrow> visit_adds visiting st st"
  by (simp add: visit_adds_def)

lemma visit_adds_trans:
  "visit_adds visiting st st1 \<Longrightarrow> visit_adds visiting st1 st2 \<Longrightarrow> visit_adds visiting st st2"
  unfolding visit_adds_def by fastforce

lemma visit_result:
  "\<lbrakk>visit load n visiting b st = Some (Inr st'); chain_ok st; bundle_ok b\<rbrakk> \<Longrightarrow>
     visit_adds visiting st st' \<and> bundle_key b \<in> set (snd st') \<and>
     (bundle_key b \<notin> set (snd st) \<longrightarrow> (\<exists>chain. fst st' = chain @ [b]))"
  "\<lbrakk>visit_includes load n visiting key rs st = Some (Inr st'); chain_ok st\<rbrakk> \<Longrightarrow>
     visit_adds visiting st st' \<and> (\<forall>r\<in>set rs. refKey r \<in> set (snd st'))"
proof (induction load n visiting b st and load n visiting key rs st arbitrary: st' and st'
    rule: visit_visit_includes.induct)
  case (2 load n visiting b chain resolved)
  let ?key = "bundle_key b"
  show ?case
  proof (cases "?key \<in> set resolved")
    case True
    with 2 show ?thesis by (auto simp: Let_def visit_adds_refl)
  next
    case False
    with 2(2) have visiting: "?key \<notin> set visiting" by (auto simp: Let_def split: if_splits)
    from False visiting 2(2) obtain chain' resolved' where
      inc: "visit_includes load n (?key # visiting) ?key (bd_includes b) (chain, resolved) = Some (Inr (chain', resolved'))"
      and st': "st' = (chain' @ [b], ?key # resolved')"
      by (auto simp: Let_def split: option.splits sum.splits)
    from 2(1) [OF refl _ _ inc 2(3)] False visiting
    have adds: "visit_adds (?key # visiting) (chain, resolved) (chain', resolved')"
      and all: "\<forall>r\<in>set (bd_includes b). refKey r \<in> set resolved'" by simp_all
    from adds False have new: "?key \<notin> set resolved'" by (auto simp: visit_adds_def)
    from adds chain_ok_snoc [OF _ new 2(4) all] have "chain_ok st'" by (simp add: visit_adds_def st')
    with adds visiting show ?thesis by (auto simp: visit_adds_def st')
  qed
next
  case (4 load n visiting key r rs chain resolved)
  show ?case
  proof (cases "refKey r \<in> set resolved")
    case True
    with 4(4) have "visit_includes load n visiting key rs (chain, resolved) = Some (Inr st')"
      by (simp add: Let_def)
    from 4(1) [OF refl _ this 4(5)] True show ?thesis by (auto simp: visit_adds_def)
  next
    case False
    with 4(4) obtain loader loaded st1 where load: "load = Some loader" "loader r = Some loaded"
      "bundle_ok loaded" "bundle_key loaded = refKey r"
      "visit load n visiting loaded (chain, resolved) = Some (Inr st1)"
      and rest: "visit_includes load n visiting key rs st1 = Some (Inr st')"
      by (auto simp: Let_def split: option.splits if_splits sum.splits)
    have first: "visit_adds visiting (chain, resolved) st1" "refKey r \<in> set (snd st1)"
      using 4(2) [OF refl _ load(1,2) _ _ load(5) 4(5) load(3)] False load(3,4) by simp_all
    then have "chain_ok st1" by (simp add: visit_adds_def)
    from 4(3) [OF refl _ load(1,2) _ _ load(5) refl rest this] False load(3,4)
    have second: "visit_adds visiting st1 st'" "\<forall>r\<in>set rs. refKey r \<in> set (snd st')" by simp_all
    then have "refKey r \<in> set (snd st')" using first(2) unfolding visit_adds_def by blast
    with visit_adds_trans [OF first(1) second(1)] second(2) show ?thesis by simp
  qed
qed (simp_all add: visit_adds_refl)

text \<open>The errors of the recursion.\<close>

lemma visit_errors:
  "visit load n visiting b st = Some (Inl err) \<Longrightarrow> err \<noteq> StructureRejected"
  "visit_includes load n visiting key rs st = Some (Inl err) \<Longrightarrow> err \<noteq> StructureRejected"
  by (induction load n visiting b st and load n visiting key rs st rule: visit_visit_includes.induct)
     (auto simp: Let_def split: option.splits if_splits sum.splits)

section \<open>Termination\<close>

text \<open>
  The keys being visited are distinct and among those the loader knows, so the recursion is
  no deeper than their number.
\<close>

lemma visit_defined:
  assumes "finite K" and "\<And>loader r b. load = Some loader \<Longrightarrow> loader r = Some b \<Longrightarrow> bundle_key b \<in> K"
  shows "bundle_key b \<in> K \<Longrightarrow> card (K - set visiting) < n \<Longrightarrow> visit load n visiting b st \<noteq> None"
    and "card (K - set visiting) < n \<Longrightarrow> visit_includes load n visiting key rs st \<noteq> None"
  using assms(2)
proof (induction load n visiting b st and load n visiting key rs st rule: visit_visit_includes.induct)
  case (2 load n visiting b chain resolved)
  let ?key = "bundle_key b"
  show ?case
  proof (cases "?key \<in> set resolved \<or> ?key \<in> set visiting")
    case False
    have "K - set (?key # visiting) = (K - set visiting) - {?key}" by auto
    moreover have "?key \<in> K - set visiting" using 2(2) False by simp
    ultimately have "card (K - set (?key # visiting)) < card (K - set visiting)"
      using assms(1) by (metis card_Diff1_less finite_Diff)
    with 2(3) have "card (K - set (?key # visiting)) < n" by simp
    with 2(1) [OF refl] False 2(4) show ?thesis by (auto simp: Let_def split: option.splits sum.splits)
  qed (auto simp: Let_def)
next
  case (4 load n visiting key r rs chain resolved)
  show ?case
  proof (cases "refKey r \<in> set resolved")
    case True
    with 4(1) [OF refl] 4(4,5) show ?thesis by (simp add: Let_def)
  next
    case False
    show ?thesis
    proof (cases "\<exists>loader loaded. load = Some loader \<and> loader r = Some loaded \<and> bundle_ok loaded \<and>
        bundle_key loaded = refKey r")
      case True
      then obtain loader loaded where load: "load = Some loader" "loader r = Some loaded"
        "bundle_ok loaded" "bundle_key loaded = refKey r" by blast
      have "bundle_key loaded \<in> K" using 4(5) load(1,2) by blast
      with 4(2) [OF refl _ load(1,2)] False load(3,4) 4(4,5)
      have "visit load n visiting loaded (chain, resolved) \<noteq> None" by simp
      then show ?thesis
        using 4(3) [OF refl _ load(1,2)] False load 4(4,5)
        by (auto simp: Let_def split: option.splits sum.splits)
    qed (use False in \<open>auto simp: Let_def split: option.splits\<close>)
  qed
qed simp_all

section \<open>Merging\<close>

text \<open>What one bundle contributes to each map, in the order it is merged.\<close>

definition scalar_entries :: "agent_bundle \<Rightarrow> (scalar_slot \<times> effective_slot) list" where
  "scalar_entries b = concat (map (\<lambda>n. case bundle_slot n b of
     None \<Rightarrow> [] | Some r \<Rightarrow> [(n, \<lparr>es_ref = r, es_source = source_of b\<rparr>)]) SCALAR_SLOT_NAMES)"

definition ref_entries :: "structure_ref list \<Rightarrow> bundle_source \<Rightarrow> (string \<times> effective_slot) list" where
  "ref_entries refs src = map (\<lambda>r. (sr_id r, \<lparr>es_ref = r, es_source = src\<rparr>)) refs"

definition skill_entries :: "agent_bundle \<Rightarrow> (string \<times> effective_slot) list" where
  "skill_entries b = ref_entries (bd_skills b) (source_of b)"

definition tool_entries :: "agent_bundle \<Rightarrow> (string \<times> effective_slot) list" where
  "tool_entries b = ref_entries (bd_tools b) (source_of b)"

definition plugin_entries :: "agent_bundle \<Rightarrow> (string \<times> effective_plugin) list" where
  "plugin_entries b =
     map (\<lambda>p. (bp_id p, bundle_plugin.extend p \<lparr>ep_source = source_of b\<rparr>)) (bd_plugins b)"

definition permission_entries :: "agent_bundle \<Rightarrow> (string \<times> bundle_source) list" where
  "permission_entries b = map (\<lambda>name. (name, source_of b)) (bd_permissions b)"

definition budget_entries :: "agent_bundle \<Rightarrow> (string \<times> string \<times> budget_value \<times> bundle_source) list" where
  "budget_entries b = map (\<lambda>(name, v). (name, name, v, source_of b)) (bd_budgets b)"

text \<open>The value the last entry of the chain gives a key.\<close>

definition last_entry :: "(agent_bundle \<Rightarrow> ('k \<times> 'v) list) \<Rightarrow> agent_bundle list \<Rightarrow> 'k \<Rightarrow> 'v option" where
  "last_entry f chain k = map_of (rev (concat (map f chain))) k"

lemma last_entry_in:
  assumes "last_entry f chain k = Some v"
  obtains b where "b \<in> set chain" "(k, v) \<in> set (f b)"
  using assms by (auto simp: last_entry_def dest!: map_of_SomeD)

lemma map_of_fold_set:
  "map_of (fold (\<lambda>(k, v). jsmap_set k v) kvs m) = map_of m ++ map_of (rev kvs)"
proof (induction kvs arbitrary: m)
  case (Cons x kvs)
  obtain k v where x: "x = (k, v)" by fastforce
  then show ?case by (simp add: Cons fun_eq_iff map_add_def split: option.splits)
qed simp

lemma wf_fold_set: "jsmap_wf m \<Longrightarrow> jsmap_wf (fold (\<lambda>(k, v). jsmap_set k v) kvs m)"
  by (induction kvs arbitrary: m) auto

lemma merge_as_entries:
  "ms_scalars (merge_bundle b ms) = fold (\<lambda>(k, v). jsmap_set k v) (scalar_entries b) (ms_scalars ms)"
  "ms_skills (merge_bundle b ms) = fold (\<lambda>(k, v). jsmap_set k v) (skill_entries b) (ms_skills ms)"
  "ms_tools (merge_bundle b ms) = fold (\<lambda>(k, v). jsmap_set k v) (tool_entries b) (ms_tools ms)"
  "ms_plugins (merge_bundle b ms) = fold (\<lambda>(k, v). jsmap_set k v) (plugin_entries b) (ms_plugins ms)"
  "ms_permissions (merge_bundle b ms) = fold (\<lambda>(k, v). jsmap_set k v) (permission_entries b) (ms_permissions ms)"
  "ms_budgets (merge_bundle b ms) = fold (\<lambda>(k, v). jsmap_set k v) (budget_entries b) (ms_budgets ms)"
  by (simp_all add: merge_bundle_def merge_scalars_def mergeList_def SCALAR_SLOT_NAMES_def
      scalar_entries_def skill_entries_def tool_entries_def ref_entries_def plugin_entries_def
      permission_entries_def budget_entries_def fold_map o_def case_prod_unfold split: option.splits)

lemma merged_entries:
  assumes step: "\<And>b ms. field (merge_bundle b ms) = fold (\<lambda>(k, v). jsmap_set k v) (f b) (field ms)"
    and "field empty_merge = []"
  shows "map_of (field (fold merge_bundle chain empty_merge)) = last_entry f chain \<and>
    jsmap_wf (field (fold merge_bundle chain empty_merge))"
proof (induction chain rule: rev_induct)
  case Nil
  then show ?case using assms(2) by (simp add: last_entry_def fun_eq_iff)
next
  case (snoc b chain)
  have "last_entry f (chain @ [b]) = last_entry f chain ++ map_of (rev (f b))"
    by (simp add: last_entry_def fun_eq_iff map_add_def split: option.splits)
  with snoc show ?case by (simp add: step map_of_fold_set wf_fold_set)
qed

lemma empty_merge_sel [simp]:
  "ms_scalars empty_merge = []" "ms_skills empty_merge = []" "ms_tools empty_merge = []"
  "ms_plugins empty_merge = []" "ms_permissions empty_merge = []" "ms_budgets empty_merge = []"
  by (simp_all add: empty_merge_def)

lemmas merged_fields =
  merged_entries [of ms_scalars, OF merge_as_entries(1)]
  merged_entries [of ms_skills, OF merge_as_entries(2)]
  merged_entries [of ms_tools, OF merge_as_entries(3)]
  merged_entries [of ms_plugins, OF merge_as_entries(4)]
  merged_entries [of ms_permissions, OF merge_as_entries(5)]
  merged_entries [of ms_budgets, OF merge_as_entries(6)]


section \<open>The resolved structure\<close>

text \<open>A resolution that succeeds took these steps.\<close>

lemma resolve_steps:
  assumes "resolveEffectiveStructure sha256 load fuel root = Some (Inr s)"
  obtains chain resolved ms body where "bundle_ok root"
    "visit load fuel [] root ([], []) = Some (Inr (chain, resolved))"
    "ms = fold merge_bundle chain empty_merge" "unpinned ms = None" "body = merged_body chain ms"
    "s = with_digest (computeStructureDigest sha256 body) body" "effective_structure_ok s"
  using assms
  by (auto simp: resolveEffectiveStructure_def Let_def split: if_splits option.splits sum.splits)

text \<open>
  Includes come first. When a bundle resolves, its chain ends with the bundle itself,
  contains no bundle twice, and every bundle of it stands after all it includes: the include
  graph was a cycle-free one, and the includer is always merged last.
\<close>

theorem includes_come_first:
  assumes "resolveEffectiveStructure sha256 load fuel root = Some (Inr s)"
  shows "\<exists>base. ef_bundles s = map source_of (base @ [root]) \<and>
    distinct (map bundle_key (base @ [root])) \<and> includes_before (base @ [root])"
  using assms
proof (cases rule: resolve_steps)
  case (1 chain resolved ms body)
  from visit_result(1) [OF 1(2) chain_ok_Nil 1(1)]
  have "chain_ok (chain, resolved)" "\<exists>base. chain = base @ [root]" by (simp_all add: visit_adds_def)
  moreover have "ef_bundles s = map source_of chain"
    unfolding 1(5,6) by (simp add: with_digest_def merged_body_def structure_body.defs Let_def)
  ultimately show ?thesis by (auto simp: chain_ok_def)
qed

lemma unpinned_None: "unpinned ms = None \<Longrightarrow> map_of (ms_scalars ms) n \<noteq> None"
  unfolding unpinned_def find_None_iff by (cases n) (auto simp: SCALAR_SLOT_NAMES_def)

lemma structure_slot_merged:
  "structure_slot n (with_digest d (merged_body chain ms)) = the (map_of (ms_scalars ms) n)"
  by (cases n) (simp_all add: with_digest_def merged_body_def structure_body.defs Let_def)

lemma merged_sel:
  "ef_skills (with_digest d (merged_body chain ms)) = jsmap_values (ms_skills ms)"
  "ef_tools (with_digest d (merged_body chain ms)) = jsmap_values (ms_tools ms)"
  "ef_plugins (with_digest d (merged_body chain ms)) = jsmap_values (ms_plugins ms)"
  "set (ef_permissions (with_digest d (merged_body chain ms))) = set (ms_permissions ms)"
  "set (ef_budgets (with_digest d (merged_body chain ms))) = set (jsmap_values (ms_budgets ms))"
  "ef_profileId (with_digest d (merged_body chain ms)) = BEE_PROFILE_ID"
  "ef_bundles (with_digest d (merged_body chain ms)) = map source_of chain"
  "ef_digest (with_digest d (merged_body chain ms)) = d"
  by (simp_all add: with_digest_def merged_body_def structure_body.defs Let_def)


section \<open>Digests\<close>

text \<open>What node's \<open>digest('hex')\<close> gives for SHA-256.\<close>

definition hex_digests :: "(string \<Rightarrow> string) \<Rightarrow> bool" where
  "hex_digests sha256 \<longleftrightarrow> (\<forall>s. length (sha256 s) = 64 \<and> list_all hex_digit (sha256 s))"

lemma bundle_ok_sel:
  assumes "bundle_ok b"
  shows "bundle_source_ok (source_of b)" and "bundle_slot n b = Some r \<Longrightarrow> structure_ref_ok r"
    and "r \<in> set (bd_skills b) \<Longrightarrow> structure_ref_ok r" and "r \<in> set (bd_tools b) \<Longrightarrow> structure_ref_ok r"
    and "p \<in> set (bd_plugins b) \<Longrightarrow> bundle_plugin_ok p" and "x \<in> set (bd_permissions b) \<Longrightarrow> min1 x"
    and "(x, v) \<in> set (bd_budgets b) \<Longrightarrow> min1 x"
  using assms by (auto simp: bundle_ok_def source_of_def bundle_source_ok_def list_all_iff)
    (cases n; simp add: SCALAR_SLOT_NAMES_def)

lemma merged_body_ok:
  assumes chain: "list_all bundle_ok chain" and ms: "ms = fold merge_bundle chain empty_merge"
    and pinned: "unpinned ms = None" and d: "sha256_digest d"
  shows "effective_structure_ok (with_digest d (merged_body chain ms))"
proof -
  note fields = merged_fields [of chain, folded ms, simplified]
  have ok: "b \<in> set chain \<Longrightarrow> bundle_ok b" for b using chain by (simp add: list_all_iff)
  have scalar: "effective_slot_ok e" if "last_entry scalar_entries chain k = Some e" for k e
  proof -
    from that obtain b where b: "b \<in> set chain" "(k, e) \<in> set (scalar_entries b)" by (rule last_entry_in)
    then obtain r where "bundle_slot k b = Some r" "e = \<lparr>es_ref = r, es_source = source_of b\<rparr>"
      by (auto simp: scalar_entries_def split: option.splits dest: sym)
    with bundle_ok_sel(1,2) [OF ok [OF b(1)]] show ?thesis by (simp add: effective_slot_ok_def)
  qed
  have skill: "effective_slot_ok e" if "last_entry skill_entries chain k = Some e" for k e
    using that by (rule last_entry_in)
      (auto simp: skill_entries_def ref_entries_def effective_slot_ok_def dest!: ok dest: bundle_ok_sel)
  have tool: "effective_slot_ok e" if "last_entry tool_entries chain k = Some e" for k e
    using that by (rule last_entry_in)
      (auto simp: tool_entries_def ref_entries_def effective_slot_ok_def dest!: ok dest: bundle_ok_sel)
  have plugin: "bundle_plugin_ok p \<and> bundle_source_ok (ep_source p)"
    if "last_entry plugin_entries chain k = Some p" for k p
    using that by (rule last_entry_in)
      (auto simp: plugin_entries_def bundle_plugin_ok_def bundle_plugin.defs dest!: ok dest: bundle_ok_sel)
  have permission: "min1 k \<and> bundle_source_ok src" if "last_entry permission_entries chain k = Some src" for k src
    using that by (rule last_entry_in) (auto simp: permission_entries_def dest!: ok dest: bundle_ok_sel)
  have budget: "min1 x \<and> bundle_source_ok src" if "last_entry budget_entries chain k = Some (x, v, src)" for k x v src
    using that by (rule last_entry_in) (auto simp: budget_entries_def dest!: ok dest: bundle_ok_sel)
  have vals: "\<exists>k. last_entry f chain k = Some v"
    if "map_of m = last_entry f chain \<and> jsmap_wf m" "v \<in> set (jsmap_values m)"
    for m f v
    using jsmap_values_iff [of m v] that by simp
  show ?thesis
    unfolding effective_structure_ok_def merged_sel structure_slot_merged list_all_iff
  proof (intro conjI ballI)
    show "bundle_source_ok src" if "src \<in> set (map source_of chain)" for src
      using that ok bundle_ok_sel(1) by auto
    show "effective_slot_ok (the (map_of (ms_scalars ms) n))" for n
      using fields(1) unpinned_None [OF pinned, of n] scalar by auto
    show "effective_slot_ok e" if "e \<in> set (jsmap_values (ms_skills ms))" for e
      using vals [OF fields(2) that] skill by blast
    show "effective_slot_ok e" if "e \<in> set (jsmap_values (ms_tools ms))" for e
      using vals [OF fields(3) that] tool by blast
    show "bundle_plugin_ok p" "bundle_source_ok (ep_source p)" if "p \<in> set (jsmap_values (ms_plugins ms))" for p
      using vals [OF fields(4) that] plugin by blast+
    show "case e of (name, src) \<Rightarrow> min1 name \<and> bundle_source_ok src" if e: "e \<in> set (ms_permissions ms)" for e
    proof -
      obtain name src where ns: "e = (name, src)" by fastforce
      from e fields(5) jsmap_entries_iff [of "ms_permissions ms" name src]
      have "last_entry permission_entries chain name = Some src" unfolding ns by simp
      from permission [OF this] show ?thesis unfolding ns by simp
    qed
    show "case e of (name, v, src) \<Rightarrow> min1 name \<and> bundle_source_ok src"
      if "e \<in> set (jsmap_values (ms_budgets ms))" for e
      using vals [OF fields(6) that] budget by (cases e) auto
  qed (rule refl d)+
qed

text \<open>
  C37: A resolved structure verifies. With 64 hexadecimal digits from the hash, resolution never
  produces a structure its own schema rejects, and what it produces passes verification.
\<close>

theorem resolved_verifies:
  assumes "hex_digests sha256" and "resolveEffectiveStructure sha256 load fuel root = Some res"
  shows "case res of Inl err \<Rightarrow> err \<noteq> StructureRejected
    | Inr s \<Rightarrow> verifyEffectiveStructure sha256 s = Inr s"
proof (cases res)
  case (Inr s)
  with assms(2) have "resolveEffectiveStructure sha256 load fuel root = Some (Inr s)" by simp
  then show ?thesis
  proof (cases rule: resolve_steps)
    case (1 chain resolved ms body)
    have "computeStructureDigest sha256 s = computeStructureDigest sha256 body"
      unfolding 1(6) by (simp add: computeStructureDigest_def body_json_def with_digest_def structure_body.defs)
    moreover have "ef_digest s = computeStructureDigest sha256 body" unfolding 1(5,6) merged_sel ..
    ultimately show ?thesis using Inr 1(7) by (simp add: verifyEffectiveStructure_def Let_def)
  qed
next
  case (Inl err)
  have digest: "sha256_digest (computeStructureDigest sha256 body)" for body :: structure_body
    using assms(1) by (simp add: sha256_digest_def computeStructureDigest_def hex_digests_def starts_with_def)
  show ?thesis
  proof (cases "bundle_ok root \<and> (\<exists>st. visit load fuel [] root ([], []) = Some (Inr st))")
    case True
    then obtain chain resolved where root: "bundle_ok root"
      and visit: "visit load fuel [] root ([], []) = Some (Inr (chain, resolved))" by auto
    from visit_result(1) [OF visit chain_ok_Nil root] have "list_all bundle_ok chain"
      by (simp add: visit_adds_def chain_ok_def)
    from merged_body_ok [OF this refl _ digest] Inl assms(2) root visit show ?thesis
      by (auto simp: resolveEffectiveStructure_def Let_def split: option.splits if_splits)
  next
    case False
    have "visit load fuel [] root ([], []) \<noteq> Some (Inl StructureRejected)"
      using visit_errors(1) by blast
    with False Inl assms(2) show ?thesis
      by (auto simp: resolveEffectiveStructure_def split: if_splits option.splits sum.splits)
  qed
qed


text \<open>
  Resolution ends. When the bundles the loader can answer have finitely many keys, one
  more unit of fuel than there are keys lets every resolution finish, with a structure or an
  error.
\<close>

theorem resolution_ends:
  assumes "finite K" and "bundle_key root \<in> K"
    and "\<And>loader r b. load = Some loader \<Longrightarrow> loader r = Some b \<Longrightarrow> bundle_key b \<in> K"
    and "card K < fuel"
  shows "resolveEffectiveStructure sha256 load fuel root \<noteq> None"
proof -
  have "visit load fuel [] root ([], []) \<noteq> None"
  proof (rule visit_defined(1) [OF assms(1)])
    show "card (K - set []) < fuel" using assms(4) by simp
  qed (use assms(2,3) in blast)+
  then show ?thesis
    unfolding resolveEffectiveStructure_def Let_def by (auto split: option.splits sum.splits)
qed

section \<open>Samples\<close>

definition pinned_ref :: "string \<Rightarrow> structure_ref" where
  "pinned_ref x = \<lparr>sr_id = x, sr_version = ''1''\<rparr>"

definition base_bundle :: agent_bundle where
  "base_bundle = \<lparr>bd_id = ''base'', bd_version = ''1'', bd_profile = ''bee'',
     bd_model = Some (pinned_ref ''small''), bd_prompt = Some (pinned_ref ''p''),
     bd_contextPolicy = Some (pinned_ref ''c''), bd_memoryView = Some (pinned_ref ''v''),
     bd_sandbox = Some (pinned_ref ''s''), bd_evalPolicy = Some (pinned_ref ''e''),
     bd_skills = [pinned_ref ''sum''], bd_tools = [], bd_plugins = [], bd_permissions = [''fs''],
     bd_budgets = [(''t'', BudgetNumber 5)], bd_includes = []\<rparr>"

definition main_bundle :: agent_bundle where
  "main_bundle = \<lparr>bd_id = ''main'', bd_version = ''1'', bd_profile = ''bee'',
     bd_model = Some (pinned_ref ''large''), bd_prompt = None, bd_contextPolicy = None,
     bd_memoryView = None, bd_sandbox = None, bd_evalPolicy = None, bd_skills = [], bd_tools = [],
     bd_plugins = [], bd_permissions = [], bd_budgets = [(''t'', BudgetNumber 7)],
     bd_includes = [pinned_ref ''base'']\<rparr>"

definition base_loader :: bundle_loader where
  "base_loader r = (if r = pinned_ref ''base'' then Some base_bundle else None)"

definition zero_sha :: "string \<Rightarrow> string" where
  "zero_sha s = replicate 64 CHR ''0''"

abbreviation sample_resolution :: "(structure_error + effective_structure) option" where
  "sample_resolution \<equiv> resolveEffectiveStructure zero_sha (Some base_loader) 3 main_bundle"

lemma sample_resolves: "case sample_resolution of Some (Inr s) \<Rightarrow>
    sr_id (es_ref (ef_model s)) = ''large'' \<and> sr_id (es_ref (ef_prompt s)) = ''p'' | _ \<Rightarrow> False"
  by code_simp

lemma sample_structure: obtains s where "sample_resolution = Some (Inr s)"
  using sample_resolves by (auto split: option.splits sum.splits)

lemma includes_come_first_witness:
  "\<exists>s base. sample_resolution = Some (Inr s) \<and> ef_bundles s = map source_of (base @ [main_bundle])"
proof -
  obtain s where "sample_resolution = Some (Inr s)" by (rule sample_structure)
  with includes_come_first [OF this] show ?thesis by blast
qed


lemma zero_sha_hex: "hex_digests zero_sha"
  by (simp add: hex_digests_def zero_sha_def list_all_iff hex_digit_def)

lemma resolved_verifies_witness:
  "\<exists>s. sample_resolution = Some (Inr s) \<and> verifyEffectiveStructure zero_sha s = Inr s"
proof -
  obtain s where s: "sample_resolution = Some (Inr s)" by (rule sample_structure)
  from resolved_verifies [OF zero_sha_hex s] s show ?thesis by simp
qed


lemma resolution_ends_witness: "sample_resolution \<noteq> None"
proof (rule resolution_ends)
  show "finite {''main@1'', ''base@1''}" by simp
  show "bundle_key main_bundle \<in> {''main@1'', ''base@1''}"
    by (simp add: bundle_key_def refKey_def main_bundle_def)
  show "bundle_key b \<in> {''main@1'', ''base@1''}" if "Some base_loader = Some loader" "loader r = Some b" for loader r b
    using that by (auto simp: base_loader_def base_bundle_def bundle_key_def refKey_def split: if_splits)
  show "card {''main@1'', ''base@1''} < 3" by simp
qed

end
