(* ===== verification/Context.thy ===== *)
theory Context
  imports CanonicalJson
begin

text \<open>
  The model context (\<open>packages/context/src/context-manifest.ts\<close> and \<open>context-budget.ts\<close>):
  token estimates, the allocation of sections under a budget, compression, and the manifest
  that records what a model call saw and rebuilds it. SHA-256 is a parameter, and so is the
  compression policy, with the truncating one as the code's default.
\<close>

section \<open>The manifest\<close>

datatype section_kind =
    InstructionSection | GoalSection | WorldSection | TrajectorySection | MemorySection
  | SkillSection | ToolSection

fun section_kind_name :: "section_kind \<Rightarrow> string" where
  "section_kind_name InstructionSection = ''instruction''"
| "section_kind_name GoalSection = ''goal''"
| "section_kind_name WorldSection = ''world''"
| "section_kind_name TrajectorySection = ''trajectory''"
| "section_kind_name MemorySection = ''memory''"
| "section_kind_name SkillSection = ''skill''"
| "section_kind_name ToolSection = ''tool''"

record context_section =
  cs_kind :: section_kind
  cs_sourceIds :: "string list"
  cs_rendererVersion :: string
  cs_priority :: int
  cs_tokens :: int
  cs_digest :: string

definition context_section_ok :: "context_section \<Rightarrow> bool" where
  "context_section_ok s \<longleftrightarrow> list_all min1 (cs_sourceIds s) \<and> min1 (cs_rendererVersion s) \<and>
     0 \<le> cs_priority s \<and> 0 \<le> cs_tokens s \<and> sha256_digest (cs_digest s)"

record context_omission =
  co_sourceId :: string
  co_reason :: string

definition context_omission_ok :: "context_omission \<Rightarrow> bool" where
  "context_omission_ok om \<longleftrightarrow> min1 (co_sourceId om) \<and> min1 (co_reason om)"

record context_manifest =
  cf_id :: string
  cf_promptVersion :: string
  cf_structureVersion :: string
  cf_tokenBudget :: int
  cf_sections :: "context_section list"
  cf_omissions :: "context_omission list"

definition context_manifest_ok :: "zod \<Rightarrow> context_manifest \<Rightarrow> bool" where
  "context_manifest_ok z m \<longleftrightarrow> z_uuid z (cf_id m) \<and> min1 (cf_promptVersion m) \<and>
     min1 (cf_structureVersion m) \<and> 0 \<le> cf_tokenBudget m \<and>
     list_all context_section_ok (cf_sections m) \<and> list_all context_omission_ok (cf_omissions m)"

text \<open>\<open>Math.ceil(text.length / 4)\<close>.\<close>

definition estimateTokens :: "string \<Rightarrow> int" where
  "estimateTokens text = (int (length text) + 3) div 4"

record section_draft =
  sd_kind :: section_kind
  sd_sourceIds :: "string list"
  sd_rendererVersion :: string
  sd_priority :: int
  sd_content :: string

definition computeSectionDigest :: "(string \<Rightarrow> string) \<Rightarrow> section_kind \<Rightarrow> string list \<Rightarrow> string \<Rightarrow> string \<Rightarrow>
    string" where
  "computeSectionDigest sha256 kind sourceIds rendererVersion content =
     ''sha256:'' @ sha256 (canonicalJson (JObj
       [(''kind'', JStr (section_kind_name kind)), (''sourceIds'', JArr (map JStr sourceIds)),
        (''rendererVersion'', JStr rendererVersion), (''content'', JStr content)]))"

record manifest_input =
  mi_id :: string
  mi_promptVersion :: string
  mi_structureVersion :: string
  mi_tokenBudget :: int
  mi_sections :: "section_draft list"
  mi_omissions :: "context_omission list option"

definition manifest_section :: "(string \<Rightarrow> string) \<Rightarrow> section_draft \<Rightarrow> context_section" where
  "manifest_section sha256 d = \<lparr>cs_kind = sd_kind d, cs_sourceIds = sd_sourceIds d,
     cs_rendererVersion = sd_rendererVersion d, cs_priority = sd_priority d,
     cs_tokens = estimateTokens (sd_content d),
     cs_digest = computeSectionDigest sha256 (sd_kind d) (sd_sourceIds d) (sd_rendererVersion d)
       (sd_content d)\<rparr>"

datatype context_error =
    ManifestRejected
  | NoRenderer string
  | ContextReconstruction context_section string

definition buildContextManifest :: "zod \<Rightarrow> (string \<Rightarrow> string) \<Rightarrow> manifest_input \<Rightarrow>
    context_error + context_manifest" where
  "buildContextManifest z sha256 i =
     (let m = \<lparr>cf_id = mi_id i, cf_promptVersion = mi_promptVersion i,
          cf_structureVersion = mi_structureVersion i, cf_tokenBudget = mi_tokenBudget i,
          cf_sections = map (manifest_section sha256) (mi_sections i),
          cf_omissions = coalesce (mi_omissions i) []\<rparr>
      in if context_manifest_ok z m then Inr m else Inl ManifestRejected)"

section \<open>Rebuilding\<close>

text \<open>A renderer turns source ids and source contents into the text of a section.\<close>

type_synonym context_renderer = "string list \<Rightarrow> (string \<rightharpoonup> string) \<Rightarrow> string"

definition rebuild_section :: "(string \<Rightarrow> string) \<Rightarrow> (string \<rightharpoonup> string) \<Rightarrow> (string \<rightharpoonup> context_renderer) \<Rightarrow>
    context_section \<Rightarrow> context_error + context_section \<times> string" where
  "rebuild_section sha256 sources renderers s =
     (case renderers (cs_rendererVersion s) of
        None \<Rightarrow> Inl (NoRenderer (cs_rendererVersion s))
      | Some render \<Rightarrow>
          let text = render (cs_sourceIds s) sources;
              rebuilt = computeSectionDigest sha256 (cs_kind s) (cs_sourceIds s) (cs_rendererVersion s) text
          in if rebuilt \<noteq> cs_digest s then Inl (ContextReconstruction s rebuilt) else Inr (s, text))"

fun rebuild_all :: "(context_section \<Rightarrow> context_error + context_section \<times> string) \<Rightarrow> context_section list \<Rightarrow>
    context_error + (context_section \<times> string) list" where
  "rebuild_all f [] = Inr []"
| "rebuild_all f (s # ss) =
     (case f s of
        Inl err \<Rightarrow> Inl err
      | Inr x \<Rightarrow> (case rebuild_all f ss of Inl err \<Rightarrow> Inl err | Inr xs \<Rightarrow> Inr (x # xs)))"

definition rebuildContextInput :: "(string \<Rightarrow> string) \<Rightarrow> context_manifest \<Rightarrow> (string \<rightharpoonup> string) \<Rightarrow>
    (string \<rightharpoonup> context_renderer) \<Rightarrow> context_error + (context_section \<times> string) list" where
  "rebuildContextInput sha256 m sources renderers =
     rebuild_all (rebuild_section sha256 sources renderers)
       (js_sort (\<lambda>a b. cs_priority a - cs_priority b) (cf_sections m))"

section \<open>The budget\<close>

datatype protected_content =
    PendingApproval | UnconsumedToolResult | ActivePlanConstraint | FailureReason
  | ArtifactReference | MemoryCitation | PermissionBoundary

record prompt_section =
  ps_id :: string
  ps_kind :: section_kind
  ps_priority :: int
  ps_content :: string
  ps_sourceIds :: "string list option"
  ps_rendererVersion :: "string option"
  ps_protectedBy :: "protected_content list option"

definition is_protected :: "prompt_section \<Rightarrow> bool" where
  "is_protected s \<longleftrightarrow> coalesce (ps_protectedBy s) [] \<noteq> []"

record context_allocation =
  ca_sections :: "prompt_section list"
  ca_omissions :: "context_omission list"
  ca_usedTokens :: int
  ca_totalTokens :: int

text \<open>The loop over the sorted sections; \<open>used\<close> is what the sections before took.\<close>

fun allocate :: "int \<Rightarrow> prompt_section list \<Rightarrow> int \<Rightarrow> prompt_section list \<times> context_omission list \<times> int" where
  "allocate budget [] used = ([], [], used)"
| "allocate budget (s # ss) used =
     (let tokens = estimateTokens (ps_content s)
      in if is_protected s \<or> used + tokens \<le> budget
         then (case allocate budget ss (used + tokens) of (inc, oms, u) \<Rightarrow> (s # inc, oms, u))
         else (case allocate budget ss used of
           (inc, oms, u) \<Rightarrow> (inc, \<lparr>co_sourceId = ps_id s, co_reason = ''budget-exceeded''\<rparr> # oms, u)))"

definition allocateContextBudget :: "prompt_section list \<Rightarrow> int \<Rightarrow> context_allocation" where
  "allocateContextBudget sections budgetTokens =
     (let sorted = js_sort (\<lambda>a b. ps_priority a - ps_priority b) sections
      in case allocate budgetTokens sorted 0 of (inc, oms, used) \<Rightarrow>
        \<lparr>ca_sections = inc, ca_omissions = oms, ca_usedTokens = used,
         ca_totalTokens = sum_list (map (\<lambda>s. estimateTokens (ps_content s)) sections)\<rparr>)"

text \<open>The truncating compressor: the head of the content and an ellipsis.\<close>

definition truncatingCompression :: "string \<Rightarrow> int \<Rightarrow> string" where
  "truncatingCompression content maxTokens =
     (let maxChars = max 0 maxTokens * 4
      in if int (length content) \<le> maxChars then content
         else js_slice 0 (maxChars - 1) content @ ELLIPSIS)"

record compile_input =
  cx_id :: string
  cx_promptVersion :: string
  cx_structureVersion :: string
  cx_tokenBudget :: int
  cx_sections :: "prompt_section list"
  cx_compression :: "(string \<Rightarrow> int \<Rightarrow> string) option"

definition prepare_section :: "compile_input \<Rightarrow> prompt_section \<Rightarrow> prompt_section" where
  "prepare_section i s =
     (if is_protected s then s
      else if estimateTokens (ps_content s) \<le> cx_tokenBudget i then s
      else s\<lparr>ps_content := coalesce (cx_compression i) truncatingCompression (ps_content s) (cx_tokenBudget i)\<rparr>)"

definition draft_of :: "prompt_section \<Rightarrow> section_draft" where
  "draft_of s = \<lparr>sd_kind = ps_kind s, sd_sourceIds = coalesce (ps_sourceIds s) [ps_id s],
     sd_rendererVersion = coalesce (ps_rendererVersion s) ''v1'', sd_priority = ps_priority s,
     sd_content = ps_content s\<rparr>"

definition compileContextManifest :: "zod \<Rightarrow> (string \<Rightarrow> string) \<Rightarrow> compile_input \<Rightarrow>
    context_error + context_manifest" where
  "compileContextManifest z sha256 i =
     (let allocation = allocateContextBudget (map (prepare_section i) (cx_sections i)) (cx_tokenBudget i)
      in buildContextManifest z sha256 \<lparr>mi_id = cx_id i, mi_promptVersion = cx_promptVersion i,
           mi_structureVersion = cx_structureVersion i, mi_tokenBudget = cx_tokenBudget i,
           mi_sections = map draft_of (ca_sections allocation),
           mi_omissions = Some (ca_omissions allocation)\<rparr>)"

end
