(* ===== verification/ContextBudget.thy ===== *)
theory ContextBudget
  imports Context
begin

text \<open>
  What the budget and the manifest guarantee: protected sections survive unchanged, the
  tokens stay within the budget plus the protected ones, and a manifest rebuilds exactly the
  texts it was built from, or fails.
\<close>

section \<open>Tokens\<close>

lemma estimateTokens_nonneg [simp]: "0 \<le> estimateTokens s"
  by (simp add: estimateTokens_def)

lemma estimateTokens_le: "int (length s) \<le> 4 * n \<Longrightarrow> estimateTokens s \<le> n"
proof -
  assume "int (length s) \<le> 4 * n"
  then have "(int (length s) + 3) div 4 \<le> (4 * n + 3) div 4" by (intro zdiv_mono1) simp_all
  also have "(4 * n + 3) div 4 = n" by simp
  finally show "estimateTokens s \<le> n" by (simp add: estimateTokens_def)
qed

abbreviation section_tokens :: "prompt_section \<Rightarrow> int" where
  "section_tokens s \<equiv> estimateTokens (ps_content s)"

abbreviation total_tokens :: "prompt_section list \<Rightarrow> int" where
  "total_tokens ss \<equiv> sum_list (map section_tokens ss)"

lemma js_slice_head: "0 < n \<Longrightarrow> n < int (length s) \<Longrightarrow> length (js_slice 0 (n - 1) s) = nat (n - 1)"
  by (simp add: js_slice_prefix)

text \<open>
  The compressor keeps its promise for positive limits, and only for them. Compressed to
  at least one token the text fits the limit and is the head of the content with an ellipsis;
  at a limit of zero (or less) only the last character of the content is replaced, so nothing
  is compressed.
\<close>

theorem compression_bounds:
  "(0 < n \<longrightarrow> estimateTokens (truncatingCompression content n) \<le> n) \<and>
   (n \<le> 0 \<longrightarrow> length (truncatingCompression content n) = length content)"
proof (intro conjI impI)
  assume n: "0 < n"
  show "estimateTokens (truncatingCompression content n) \<le> n"
  proof (cases "int (length content) \<le> n * 4")
    case True
    with n show ?thesis by (intro estimateTokens_le) (simp add: truncatingCompression_def Let_def)
  next
    case False
    with n have "length (truncatingCompression content n) = nat (n * 4 - 1) + 1"
      by (simp add: truncatingCompression_def Let_def js_slice_head ELLIPSIS_def)
    with n show ?thesis by (intro estimateTokens_le) simp
  qed
next
  assume n: "n \<le> 0"
  show "length (truncatingCompression content n) = length content"
  proof (cases "content = []")
    case False
    then have "Suc (nat (int (length content) - 1)) = length content" by (cases content) simp_all
    with n False show ?thesis
      by (simp add: truncatingCompression_def Let_def js_slice_def js_index_def ELLIPSIS_def)
  qed (use n in \<open>simp add: truncatingCompression_def Let_def\<close>)
qed

section \<open>Allocation\<close>

lemma subseq_sorted: "subseq xs ys \<Longrightarrow> sorted_wrt R ys \<Longrightarrow> set xs \<subseteq> set ys \<and> sorted_wrt R xs"
  by (induction rule: list_emb.induct) auto

lemma allocate_result:
  assumes "allocate budget ss used = (inc, oms, u)"
  shows "subseq inc ss \<and> filter is_protected inc = filter is_protected ss \<and>
    mset (map ps_id inc) + mset (map co_sourceId oms) = mset (map ps_id ss) \<and>
    u = used + total_tokens inc \<and> u \<le> max budget used + total_tokens (filter is_protected ss)"
  using assms
proof (induction budget ss used arbitrary: inc oms u rule: allocate.induct)
  case (2 budget s ss used)
  show ?case
  proof (cases "is_protected s \<or> used + section_tokens s \<le> budget")
    case True
    obtain inc' oms' u' where rest: "allocate budget ss (used + section_tokens s) = (inc', oms', u')"
      by (metis prod_cases3)
    with 2(3) True have eq: "inc = s # inc'" "oms = oms'" "u = u'" by (auto simp: Let_def)
    note IH = 2(1) [OF refl True rest]
    have "max budget (used + section_tokens s) \<le> max budget used + section_tokens s"
      using estimateTokens_nonneg [of "ps_content s"] by linarith
    moreover have "max budget (used + section_tokens s) \<le> max budget used" if "\<not> is_protected s"
      using True that by simp
    ultimately have "u' \<le> max budget used + total_tokens (filter is_protected (s # ss))"
      using IH by (cases "is_protected s") auto
    with IH True show ?thesis unfolding eq by auto
  next
    case False
    obtain inc' oms' u' where rest: "allocate budget ss used = (inc', oms', u')" by (metis prod_cases3)
    with 2(3) False have eq: "inc = inc'" "oms = \<lparr>co_sourceId = ps_id s, co_reason = ''budget-exceeded''\<rparr> # oms'"
      "u = u'" by (auto simp: Let_def)
    from 2(2) [OF refl False rest] False show ?thesis unfolding eq by auto
  qed
qed simp

interpretation by_priority: js_comparator "\<lambda>a b. ps_priority a - ps_priority b"
  by (rule js_comparator_key [OF js_comparator_diff])

interpretation by_section_priority: js_comparator "\<lambda>a b. cs_priority a - cs_priority b"
  by (rule js_comparator_key [OF js_comparator_diff])

lemma sum_list_mset_eq: "mset xs = mset ys \<Longrightarrow> sum_list (map f xs) = (sum_list (map f ys) :: int)"
  by (metis mset_map sum_mset_sum_list)

lemma allocation_keeps:
  assumes "a = allocateContextBudget sections budget"
  shows "mset (filter is_protected (ca_sections a)) = mset (filter is_protected sections) \<and>
    mset (map ps_id (ca_sections a)) + mset (map co_sourceId (ca_omissions a)) = mset (map ps_id sections) \<and>
    sorted_wrt (\<lambda>x y. ps_priority x \<le> ps_priority y) (ca_sections a) \<and>
    ca_usedTokens a = total_tokens (ca_sections a) \<and> ca_totalTokens a = total_tokens sections \<and>
    ca_usedTokens a \<le> max budget 0 + total_tokens (filter is_protected sections)"
proof -
  let ?sorted = "js_sort (\<lambda>a b. ps_priority a - ps_priority b) sections"
  obtain inc oms u where run: "allocate budget ?sorted 0 = (inc, oms, u)" by (metis prod_cases3)
  note R = allocate_result [OF run]
  have a: "ca_sections a = inc" "ca_omissions a = oms" "ca_usedTokens a = u"
    "ca_totalTokens a = total_tokens sections"
    using run by (simp_all add: assms allocateContextBudget_def Let_def)
  have prot: "mset (filter is_protected inc) = mset (filter is_protected sections)"
    using R by (metis mset_filter mset_js_sort)
  have "sorted_wrt (\<lambda>x y. ps_priority x \<le> ps_priority y) ?sorted"
    using by_priority.sorted_js_sort [of sections] by (rule sorted_wrt_mono_rel [rotated]) simp
  then have "sorted_wrt (\<lambda>x y. ps_priority x \<le> ps_priority y) inc"
    using R subseq_sorted by blast
  moreover have "total_tokens (filter is_protected ?sorted) = total_tokens (filter is_protected sections)"
    by (rule sum_list_mset_eq) simp
  moreover have "mset (map ps_id ?sorted) = mset (map ps_id sections)" by simp
  ultimately show ?thesis using R prot unfolding a by (simp add: max.commute)
qed

text \<open>
  C32: Allocation never drops protected content. Every section is either included or named in
  the omissions, all protected ones are included, the included ones are in order of priority,
  and their tokens, which are the reported ones, exceed the budget by no more than the
  protected sections cost.
\<close>

theorem allocation_keeps_protected:
  "let a = allocateContextBudget sections budget in
    mset (filter is_protected (ca_sections a)) = mset (filter is_protected sections) \<and>
    mset (map ps_id (ca_sections a)) + mset (map co_sourceId (ca_omissions a)) = mset (map ps_id sections) \<and>
    sorted_wrt (\<lambda>x y. ps_priority x \<le> ps_priority y) (ca_sections a) \<and>
    ca_usedTokens a = total_tokens (ca_sections a) \<and> ca_totalTokens a = total_tokens sections \<and>
    ca_usedTokens a \<le> max budget 0 + total_tokens (filter is_protected sections)"
  unfolding Let_def by (rule allocation_keeps [OF refl])

text \<open>
  A compiled manifest stays within its budget. Its sections cost no more tokens than the
  budget plus the protected sections of the input, and every protected section of the input
  is in it with the digest of its unchanged content.
\<close>

theorem manifest_within_budget:
  assumes "compileContextManifest z sha256 i = Inr m"
  shows "sum_list (map cs_tokens (cf_sections m)) \<le>
      cf_tokenBudget m + total_tokens (filter is_protected (cx_sections i)) \<and>
    cf_tokenBudget m = cx_tokenBudget i \<and>
    (\<forall>s\<in>set (cx_sections i). is_protected s \<longrightarrow> manifest_section sha256 (draft_of s) \<in> set (cf_sections m))"
proof -
  let ?prepared = "map (prepare_section i) (cx_sections i)"
  define a where "a = allocateContextBudget ?prepared (cx_tokenBudget i)"
  note A = allocation_keeps [OF a_def]
  from assms have m: "cf_sections m = map (\<lambda>s. manifest_section sha256 (draft_of s)) (ca_sections a)"
    "cf_tokenBudget m = cx_tokenBudget i" and ok: "0 \<le> cx_tokenBudget i"
    by (auto simp: compileContextManifest_def buildContextManifest_def context_manifest_ok_def a_def
        Let_def split: if_splits)
  have prep: "is_protected (prepare_section i s) = is_protected s" for s
    by (simp add: prepare_section_def is_protected_def)
  have same: "prepare_section i s = s" if "is_protected s" for s using that by (simp add: prepare_section_def)
  have prot: "filter is_protected ?prepared = filter is_protected (cx_sections i)"
    unfolding filter_map o_def prep by (rule map_idI) (simp add: same)
  have "map cs_tokens (cf_sections m) = map section_tokens (ca_sections a)"
    unfolding m by (simp add: manifest_section_def draft_of_def o_def)
  with A ok prot m(2) have "sum_list (map cs_tokens (cf_sections m)) \<le>
      cf_tokenBudget m + total_tokens (filter is_protected (cx_sections i))" by simp
  moreover have "manifest_section sha256 (draft_of s) \<in> set (cf_sections m)"
    if "s \<in> set (cx_sections i)" "is_protected s" for s
  proof -
    from that have "s \<in> set (filter is_protected (cx_sections i))" by simp
    then have "s \<in> set (filter is_protected (ca_sections a))"
      using A prot by (metis set_mset_mset)
    then show ?thesis unfolding m by auto
  qed
  ultimately show ?thesis using m(2) by blast
qed

section \<open>Rebuilding a manifest\<close>

lemma rebuild_all_map:
  "(\<And>d. d \<in> set ds \<Longrightarrow> f (h d) = Inr (g d)) \<Longrightarrow> rebuild_all f (map h ds) = Inr (map g ds)"
  by (induction ds) simp_all

lemma rebuild_all_Inl:
  "s \<in> set ss \<Longrightarrow> f s = Inl err \<Longrightarrow> \<exists>err'. rebuild_all f ss = Inl err'"
  by (induction ss) (auto split: sum.splits)

lemma built_sections:
  assumes "buildContextManifest z sha256 i = Inr m"
  shows "js_sort (\<lambda>a b. cs_priority a - cs_priority b) (cf_sections m) =
    map (manifest_section sha256) (js_sort (\<lambda>a b. sd_priority a - sd_priority b) (mi_sections i))"
proof -
  have "cf_sections m = map (manifest_section sha256) (mi_sections i)"
    using assms by (auto simp: buildContextManifest_def Let_def split: if_splits)
  then show ?thesis
    using js_sort_map [where f = "manifest_section sha256" and g = sd_priority and h = cs_priority
        and c = "\<lambda>a b. a - b" and xs = "mi_sections i"]
    by (simp add: manifest_section_def)
qed

text \<open>What a renderer makes of the sources of a draft.\<close>

definition renders :: "(string \<rightharpoonup> string) \<Rightarrow> (string \<rightharpoonup> context_renderer) \<Rightarrow> section_draft \<Rightarrow> string option" where
  "renders sources renderers d =
     map_option (\<lambda>render. render (sd_sourceIds d) sources) (renderers (sd_rendererVersion d))"

text \<open>
  C30: A manifest rebuilds its call. If every section's renderer still makes the same text of
  its sources, rebuilding a manifest gives back the sections with exactly the texts it was
  built from, in order of priority and stable among equals.
\<close>

theorem manifest_rebuilds:
  assumes "buildContextManifest z sha256 i = Inr m"
    and "\<forall>d\<in>set (mi_sections i). renders sources renderers d = Some (sd_content d)"
  shows "rebuildContextInput sha256 m sources renderers =
    Inr (map (\<lambda>d. (manifest_section sha256 d, sd_content d))
      (js_sort (\<lambda>a b. sd_priority a - sd_priority b) (mi_sections i)))"
proof -
  let ?ds = "js_sort (\<lambda>a b. sd_priority a - sd_priority b) (mi_sections i)"
  let ?f = "rebuild_section sha256 sources renderers"
  have "?f (manifest_section sha256 d) = Inr (manifest_section sha256 d, sd_content d)"
    if "d \<in> set ?ds" for d
    using assms(2) that by (auto simp: renders_def rebuild_section_def manifest_section_def Let_def)
  then show ?thesis unfolding rebuildContextInput_def built_sections [OF assms(1)] by (rule rebuild_all_map)
qed

text \<open>The text a section's digest is taken over, and the two that may differ.\<close>

definition section_text :: "section_draft \<Rightarrow> string \<Rightarrow> string" where
  "section_text d content = canonicalJson (JObj
     [(''kind'', JStr (section_kind_name (sd_kind d))), (''sourceIds'', JArr (map JStr (sd_sourceIds d))),
      (''rendererVersion'', JStr (sd_rendererVersion d)), (''content'', JStr content)])"

definition section_texts :: "section_draft \<Rightarrow> string set \<Rightarrow> string set" where
  "section_texts d contents = section_text d ` contents"

text \<open>
  C31: Drift is detected. If some section's renderer now makes another text of its sources, the
  rebuild fails, unless the two texts collide under the hash.
\<close>

theorem drift_detected:
  assumes "buildContextManifest z sha256 i = Inr m" and "d \<in> set (mi_sections i)"
    and "renders sources renderers d = Some text" and "text \<noteq> sd_content d"
    and "\<And>x y. x \<in> section_texts d {text, sd_content d} \<Longrightarrow> y \<in> section_texts d {text, sd_content d} \<Longrightarrow>
      sha256 x = sha256 y \<Longrightarrow> x = y"
  shows "\<exists>err. rebuildContextInput sha256 m sources renderers = Inl err"
proof -
  let ?s = "manifest_section sha256 d"
  have "section_text d text \<noteq> section_text d (sd_content d)"
  proof
    assume "section_text d text = section_text d (sd_content d)"
    from canonical_same [OF this [unfolded section_text_def]] assms(4) show False
      by (simp add: sort_members_def code_unit_compare_def)
  qed
  with assms(5) [of "section_text d text" "section_text d (sd_content d)"]
  have "sha256 (section_text d text) \<noteq> sha256 (section_text d (sd_content d))"
    by (auto simp: section_texts_def)
  with assms(3) have "\<exists>err. rebuild_section sha256 sources renderers ?s = Inl err"
    by (auto simp: renders_def rebuild_section_def manifest_section_def computeSectionDigest_def
        section_text_def Let_def)
  moreover have "?s \<in> set (map (manifest_section sha256)
      (js_sort (\<lambda>a b. sd_priority a - sd_priority b) (mi_sections i)))"
    using assms(2) by simp
  ultimately show ?thesis
    unfolding rebuildContextInput_def built_sections [OF assms(1)] using rebuild_all_Inl by blast
qed

section \<open>Samples\<close>

lemma compression_bounds_witness:
  "estimateTokens (truncatingCompression ''a long sentence'' 2) \<le> 2 \<and>
   length (truncatingCompression ''a long sentence'' 0) = length ''a long sentence''"
  using compression_bounds [of 2 "''a long sentence''"] compression_bounds [of 0 "''a long sentence''"] by simp

text \<open>A stand-in for SHA-256 that tells one text from all others.\<close>

definition flag_sha :: "string \<Rightarrow> string \<Rightarrow> string" where
  "flag_sha t s = replicate 63 CHR ''0'' @ [if s = t then CHR ''1'' else CHR ''0'']"

definition sample_draft :: "string \<Rightarrow> section_draft" where
  "sample_draft content = \<lparr>sd_kind = GoalSection, sd_sourceIds = [''g''], sd_rendererVersion = ''v1'',
     sd_priority = 2, sd_content = content\<rparr>"

definition sample_input :: manifest_input where
  "sample_input = \<lparr>mi_id = ''m'', mi_promptVersion = ''p'', mi_structureVersion = ''s'', mi_tokenBudget = 9,
     mi_sections = [sample_draft ''paint''], mi_omissions = None\<rparr>"

text \<open>A renderer that prints the content of the first source.\<close>

definition first_source :: "string \<rightharpoonup> context_renderer" where
  "first_source = [''v1'' \<mapsto> (\<lambda>ids sources. coalesce (sources (hd ids)) [])]"

abbreviation paint_sha :: "string \<Rightarrow> string" where
  "paint_sha \<equiv> flag_sha (section_text (sample_draft ''paint'') ''paint'')"

lemma sample_manifest: obtains m where "buildContextManifest any_zod paint_sha sample_input = Inr m"
proof -
  have "case buildContextManifest any_zod paint_sha sample_input of Inl e \<Rightarrow> False | Inr m \<Rightarrow> True"
    by code_simp
  with that show thesis by (auto split: sum.splits)
qed

lemma manifest_rebuilds_witness:
  "\<exists>m s. buildContextManifest any_zod paint_sha sample_input = Inr m \<and>
     rebuildContextInput paint_sha m [''g'' \<mapsto> ''paint''] first_source = Inr [(s, ''paint'')]"
proof -
  obtain m where m: "buildContextManifest any_zod paint_sha sample_input = Inr m" by (rule sample_manifest)
  have "\<forall>d\<in>set (mi_sections sample_input). renders [''g'' \<mapsto> ''paint''] first_source d = Some (sd_content d)"
    by (simp add: sample_input_def sample_draft_def renders_def first_source_def)
  from manifest_rebuilds [OF m this] m show ?thesis
    by (simp add: sample_input_def sample_draft_def)
qed

lemma drift_detected_witness:
  "\<exists>m err. buildContextManifest any_zod paint_sha sample_input = Inr m \<and>
     rebuildContextInput paint_sha m [''g'' \<mapsto> ''draw''] first_source = Inl err"
proof -
  let ?d = "sample_draft ''paint''"
  obtain m where m: "buildContextManifest any_zod paint_sha sample_input = Inr m" by (rule sample_manifest)
  have d: "?d \<in> set (mi_sections sample_input)" by (simp add: sample_input_def)
  have made: "renders [''g'' \<mapsto> ''draw''] first_source ?d = Some ''draw''"
    by (simp add: sample_draft_def renders_def first_source_def)
  have diff: "''draw'' \<noteq> sd_content ?d" by (simp add: sample_draft_def)
  have inj: "x = y" if "x \<in> section_texts ?d {''draw'', sd_content ?d}"
    "y \<in> section_texts ?d {''draw'', sd_content ?d}" "paint_sha x = paint_sha y" for x y
    using that by (auto simp: section_texts_def flag_sha_def sample_draft_def split: if_splits)
  from drift_detected [OF m d made diff inj] m show ?thesis by blast
qed

definition sample_section :: "string \<Rightarrow> string \<Rightarrow> protected_content list option \<Rightarrow> prompt_section" where
  "sample_section i content prot = \<lparr>ps_id = i, ps_kind = WorldSection, ps_priority = 3, ps_content = content,
     ps_sourceIds = None, ps_rendererVersion = None, ps_protectedBy = prot\<rparr>"

definition sample_compile :: compile_input where
  "sample_compile = \<lparr>cx_id = ''m'', cx_promptVersion = ''p'', cx_structureVersion = ''s'', cx_tokenBudget = 2,
     cx_sections = [sample_section ''a'' ''a rather long text'' None,
       sample_section ''b'' ''waits for approval'' (Some [PendingApproval])], cx_compression = None\<rparr>"

lemma manifest_within_budget_witness:
  "\<exists>m. compileContextManifest any_zod paint_sha sample_compile = Inr m \<and>
     sum_list (map cs_tokens (cf_sections m)) \<le> 7"
proof -
  have "case compileContextManifest any_zod paint_sha sample_compile of Inl e \<Rightarrow> False | Inr m \<Rightarrow> True"
    by code_simp
  then obtain m where m: "compileContextManifest any_zod paint_sha sample_compile = Inr m"
    by (auto split: sum.splits)
  have "cx_tokenBudget sample_compile + total_tokens (filter is_protected (cx_sections sample_compile)) = 7"
    by code_simp
  with manifest_within_budget [OF m] m show ?thesis by simp
qed

end
