(* ===== verification/ContextRegistry.thy ===== *)
theory ContextRegistry
  imports Context
begin

text \<open>
  The two-stage registries of the context package (\<open>tool.ts\<close>, \<open>tool-registry.ts\<close>,
  \<open>skill.ts\<close>, \<open>skill-registry.ts\<close>): registration, cheap summaries, search under a token
  budget, resolution, and the evaluation of a skill's cases. \<open>toLowerCase\<close> is the engine's
  Unicode table and a parameter.
\<close>

section \<open>Words and substrings\<close>

text \<open>\<open>split(/\s+/).filter(Boolean)\<close>: the maximal runs without white space.\<close>

fun split_words :: "string \<Rightarrow> string \<Rightarrow> string list" where
  "split_words word [] = (if word = [] then [] else [rev word])"
| "split_words word (c # cs) =
     (if js_space c then (if word = [] then split_words [] cs else rev word # split_words [] cs)
      else split_words (c # word) cs)"

fun js_includes :: "string \<Rightarrow> string \<Rightarrow> bool" where
  "js_includes t [] \<longleftrightarrow> t = []"
| "js_includes t (c # cs) \<longleftrightarrow> starts_with t (c # cs) \<or> js_includes t cs"

lemma js_includes_iff: "js_includes t s \<longleftrightarrow> sublist t s"
  by (induction s) (auto simp: starts_with_iff prefix_def sublist_Cons_right)

definition join_with :: "string \<Rightarrow> string list \<Rightarrow> string" where
  "join_with sep xs = concat (case xs of [] \<Rightarrow> [] | y # ys \<Rightarrow> y # map (\<lambda>x. sep @ x) ys)"

definition matches_all :: "string list \<Rightarrow> string \<Rightarrow> bool" where
  "matches_all terms haystack \<longleftrightarrow> list_all (\<lambda>t. js_includes t haystack) terms"

section \<open>Tools\<close>

record tool_spec =
  ts_id :: string
  ts_description :: string
  ts_inputSchema :: json

record tool_definition = tool_spec +
  td_tags :: "string list option"
  td_resident :: "bool option"

record tool_summary =
  tm_id :: string
  tm_description :: string
  tm_tags :: "string list"
  tm_resident :: bool
  tm_tokenEstimate :: int

text \<open>\<open>JSON.stringify\<close> prints the members in the order they have.\<close>

definition estimateToolTokens :: "'a tool_spec_scheme \<Rightarrow> int" where
  "estimateToolTokens t = estimateTokens (ts_description t @ '' '' @ print_json (ts_inputSchema t))"

definition estimateToolSummaryTokens :: "tool_summary \<Rightarrow> int" where
  "estimateToolSummaryTokens s =
     estimateTokens (tm_id s @ '': '' @ tm_description s @ '' ['' @ join_with '', '' (tm_tags s) @ '']'')"

definition toToolSummary :: "tool_definition \<Rightarrow> tool_summary" where
  "toToolSummary t = \<lparr>tm_id = ts_id t, tm_description = ts_description t,
     tm_tags = coalesce (td_tags t) [], tm_resident = coalesce (td_resident t) False,
     tm_tokenEstimate = estimateToolTokens t\<rparr>"

record tool_context_cost =
  tc_baselineTokens :: int
  tc_residentTokens :: int
  tc_indexedTokens :: int

definition measureToolContextCost :: "tool_spec list \<Rightarrow> tool_summary list \<Rightarrow> tool_context_cost" where
  "measureToolContextCost resident summaries =
     (let residentTokens = sum_list (map estimateToolTokens resident);
          longTailFull = sum_list (map tm_tokenEstimate summaries);
          longTailIndexed = sum_list (map estimateToolSummaryTokens summaries)
      in \<lparr>tc_baselineTokens = residentTokens + longTailFull, tc_residentTokens = residentTokens,
          tc_indexedTokens = residentTokens + longTailIndexed\<rparr>)"

section \<open>The tool registry\<close>

type_synonym tool_registry = "(string, tool_definition) jsmap"

datatype registry_error = AlreadyRegistered string | SummaryRejected

definition tool_register :: "tool_definition \<Rightarrow> tool_registry \<Rightarrow> registry_error + tool_registry" where
  "tool_register t m =
     (if map_of m (ts_id t) \<noteq> None then Inl (AlreadyRegistered (ts_id t)) else Inr (jsmap_set (ts_id t) t m))"

definition tool_index :: "tool_registry \<Rightarrow> tool_summary list" where
  "tool_index m =
     map toToolSummary (filter (\<lambda>t. \<not> coalesce (td_resident t) False) (jsmap_values m))"

definition tool_haystack :: "(string \<Rightarrow> string) \<Rightarrow> tool_summary \<Rightarrow> string" where
  "tool_haystack lower s = lower (tm_id s @ '' '' @ tm_description s @ '' '' @ join_with '' '' (tm_tags s))"

fun pick_within :: "int \<Rightarrow> int \<Rightarrow> tool_summary list \<Rightarrow> tool_summary list" where
  "pick_within budget used [] = []"
| "pick_within budget used (s # ss) =
     (if used + tm_tokenEstimate s > budget then pick_within budget used ss
      else s # pick_within budget (used + tm_tokenEstimate s) ss)"

definition tool_search :: "(string \<Rightarrow> string) \<Rightarrow> string \<Rightarrow> int \<Rightarrow> tool_registry \<Rightarrow> tool_summary list" where
  "tool_search lower query budgetTokens m =
     (let terms = split_words [] (lower query)
      in if terms = [] then []
         else pick_within budgetTokens 0
           (filter (\<lambda>s. matches_all terms (tool_haystack lower s)) (tool_index m)))"

definition spec_of :: "tool_definition \<Rightarrow> tool_spec" where
  "spec_of t = \<lparr>ts_id = ts_id t, ts_description = ts_description t, ts_inputSchema = ts_inputSchema t\<rparr>"

definition tool_resolve :: "string list \<Rightarrow> tool_registry \<Rightarrow> tool_spec list" where
  "tool_resolve ids m = map spec_of (List.map_filter (map_of m) ids)"

definition residentSpecs :: "tool_registry \<Rightarrow> tool_spec list" where
  "residentSpecs m = map spec_of (filter (\<lambda>t. coalesce (td_resident t) False) (jsmap_values m))"

section \<open>Skills\<close>

datatype skill_risk = LowRisk | MediumRisk | HighRisk

record skill_eval_case =
  ec_name :: string
  ec_input :: json
  ec_expectedOutput :: json

record skill =
  sk_id :: string
  sk_name :: string
  sk_version :: string
  sk_summary :: string
  sk_description :: string
  sk_tags :: "string list"
  sk_riskLevel :: skill_risk
  sk_requiredCapabilities :: "string list"
  sk_requiredPermissions :: "string list"
  sk_inputSchema :: json
  sk_outputSchema :: json
  sk_evalCases :: "skill_eval_case list"
  sk_knownFailureModes :: "string list"

definition json_object :: "json \<Rightarrow> bool" where
  "json_object v \<longleftrightarrow> (case v of JObj _ \<Rightarrow> True | _ \<Rightarrow> False)"

definition skill_ok :: "skill \<Rightarrow> bool" where
  "skill_ok s \<longleftrightarrow> min1 (sk_id s) \<and> min1 (sk_name s) \<and> min1 (sk_version s) \<and> min1 (sk_summary s) \<and>
     min1 (sk_description s) \<and> list_all min1 (sk_tags s) \<and> list_all min1 (sk_requiredCapabilities s) \<and>
     list_all min1 (sk_requiredPermissions s) \<and>
     json_object (sk_inputSchema s) \<and> json_object (sk_outputSchema s) \<and> list_all (\<lambda>c. min1 (ec_name c)) (sk_evalCases s) \<and>
     list_all min1 (sk_knownFailureModes s)"

record skill_summary =
  ss_id :: string
  ss_name :: string
  ss_version :: string
  ss_summary :: string
  ss_tags :: "string list"
  ss_riskLevel :: skill_risk
  ss_tokenEstimate :: int

definition skill_summary_ok :: "skill_summary \<Rightarrow> bool" where
  "skill_summary_ok s \<longleftrightarrow> min1 (ss_id s) \<and> min1 (ss_name s) \<and> min1 (ss_version s) \<and>
     min1 (ss_summary s) \<and> list_all min1 (ss_tags s) \<and> 0 \<le> ss_tokenEstimate s"

definition estimateSkillTokens :: "skill \<Rightarrow> int" where
  "estimateSkillTokens s = estimateTokens (join_with '' '' ([sk_description s, print_json (sk_inputSchema s),
     print_json (sk_outputSchema s)] @ sk_knownFailureModes s))"

definition toSkillSummary :: "skill \<Rightarrow> registry_error + skill_summary" where
  "toSkillSummary s =
     (let m = \<lparr>ss_id = sk_id s, ss_name = sk_name s, ss_version = sk_version s, ss_summary = sk_summary s,
          ss_tags = sk_tags s, ss_riskLevel = sk_riskLevel s, ss_tokenEstimate = estimateSkillTokens s\<rparr>
      in if skill_summary_ok m then Inr m else Inl SummaryRejected)"

definition estimateSummaryTokens :: "skill_summary \<Rightarrow> int" where
  "estimateSummaryTokens s =
     estimateTokens (ss_name s @ '': '' @ ss_summary s @ '' ['' @ join_with '', '' (ss_tags s) @ '']'')"

section \<open>The skill registry\<close>

type_synonym skill_registry = "(string, skill) jsmap"

definition skill_register :: "skill \<Rightarrow> skill_registry \<Rightarrow> registry_error + skill_registry" where
  "skill_register s m =
     (if map_of m (sk_id s) \<noteq> None then Inl (AlreadyRegistered (sk_id s)) else Inr (jsmap_set (sk_id s) s m))"

text \<open>Mapping a function that may throw: the first error wins.\<close>

fun map_error :: "('a \<Rightarrow> 'e + 'b) \<Rightarrow> 'a list \<Rightarrow> 'e + 'b list" where
  "map_error f [] = Inr []"
| "map_error f (x # xs) =
     (case f x of
        Inl err \<Rightarrow> Inl err
      | Inr y \<Rightarrow> (case map_error f xs of Inl err \<Rightarrow> Inl err | Inr ys \<Rightarrow> Inr (y # ys)))"

definition skill_index :: "skill_registry \<Rightarrow> registry_error + skill_summary list" where
  "skill_index m = map_error toSkillSummary (jsmap_values m)"

definition skill_resolve :: "string \<Rightarrow> skill_registry \<Rightarrow> skill option" where
  "skill_resolve i m = map_of m i"

definition resolveMany :: "string list \<Rightarrow> skill_registry \<Rightarrow> skill list" where
  "resolveMany ids m = List.map_filter (map_of m) ids"

definition skill_haystack :: "(string \<Rightarrow> string) \<Rightarrow> skill_summary \<Rightarrow> string" where
  "skill_haystack lower s = lower (ss_name s @ '' '' @ ss_summary s @ '' '' @ join_with '' '' (ss_tags s))"

definition skill_search :: "(string \<Rightarrow> string) \<Rightarrow> string \<Rightarrow> skill_registry \<Rightarrow>
    registry_error + skill_summary list" where
  "skill_search lower query m =
     (let terms = split_words [] (lower query)
      in if terms = [] then Inr []
         else case skill_index m of
           Inl err \<Rightarrow> Inl err
         | Inr summaries \<Rightarrow> Inr (filter (\<lambda>s. matches_all terms (skill_haystack lower s)) summaries))"

section \<open>Evaluation\<close>

record skill_eval_result =
  er_name :: string
  er_passed :: bool
  er_actual :: json
  er_expected :: json

definition evaluateSkill :: "skill \<Rightarrow> (json \<Rightarrow> json) \<Rightarrow> skill_eval_result list" where
  "evaluateSkill s evaluator = map (\<lambda>c. let actual = evaluator (ec_input c) in
     \<lparr>er_name = ec_name c, er_passed = (canonicalJson actual = canonicalJson (ec_expectedOutput c)),
      er_actual = actual, er_expected = ec_expectedOutput c\<rparr>) (sk_evalCases s)"

section \<open>Properties\<close>

lemma subseq_set: "subseq xs ys \<Longrightarrow> set xs \<subseteq> set ys"
  by (induction rule: list_emb.induct) auto

lemma pick_within_result:
  "subseq (pick_within budget used ss) ss \<and>
   (used \<le> budget \<longrightarrow> used + sum_list (map tm_tokenEstimate (pick_within budget used ss)) \<le> budget)"
  by (induction budget used ss rule: pick_within.induct) (auto simp: algebra_simps)

text \<open>
  A tool search stays within its budget and its index. Whatever the query, the summaries it
  answers are lazy tools of the registry in their order, each contains every word of the query,
  and resolving all of them costs no more than the budget; a query without words finds nothing.
\<close>

theorem tool_search_within_budget:
  assumes "0 \<le> budgetTokens" and "found = tool_search lower query budgetTokens m"
  shows "subseq found (tool_index m) \<and>
    (\<forall>s\<in>set found. split_words [] (lower query) \<noteq> [] \<and>
       (\<forall>w\<in>set (split_words [] (lower query)). sublist w (tool_haystack lower s))) \<and>
    sum_list (map tm_tokenEstimate found) \<le> budgetTokens"
proof (cases "split_words [] (lower query) = []")
  case True
  with assms show ?thesis by (simp add: tool_search_def)
next
  case False
  let ?candidates = "filter (\<lambda>s. matches_all (split_words [] (lower query)) (tool_haystack lower s)) (tool_index m)"
  have found: "found = pick_within budgetTokens 0 ?candidates"
    using False assms(2) by (simp add: tool_search_def Let_def)
  note R = pick_within_result [of budgetTokens 0 ?candidates, folded found]
  then have "subseq found ?candidates" by blast
  then have sub: "subseq found (tool_index m)"
    by (rule subseq_order.order_trans) (rule subseq_filter_left)
  have "set found \<subseteq> set ?candidates" using R by (intro subseq_set) blast
  then have "\<forall>s\<in>set found. \<forall>w\<in>set (split_words [] (lower query)). sublist w (tool_haystack lower s)"
    by (auto simp: matches_all_def list_all_iff js_includes_iff)
  with sub False R assms(1) show ?thesis by auto
qed

text \<open>
  A skill case passes exactly when the evaluator's output equals the expected one up to the
  order of object members; the report has one result per case, in order.
\<close>

theorem skill_case_passes:
  "map er_passed (evaluateSkill s evaluator) =
     map (\<lambda>c. json_norm (evaluator (ec_input c)) = json_norm (ec_expectedOutput c)) (sk_evalCases s)"
  by (simp add: evaluateSkill_def Let_def canonical_eq_norm o_def)

definition sample_tool :: "string \<Rightarrow> string \<Rightarrow> tool_definition" where
  "sample_tool i description = \<lparr>ts_id = i, ts_description = description, ts_inputSchema = JObj [],
     td_tags = None, td_resident = None\<rparr>"

definition sample_tools :: tool_registry where
  "sample_tools = [(''mail'', sample_tool ''mail'' ''Send mail''), (''git'', sample_tool ''git'' ''Run git'')]"

lemma tool_search_within_budget_witness:
  "map tm_id (tool_search id ''mail'' 5 sample_tools) = [''mail''] \<and>
   sum_list (map tm_tokenEstimate (tool_search id ''mail'' 5 sample_tools)) \<le> 5"
proof -
  have "map tm_id (tool_search id ''mail'' 5 sample_tools) = [''mail'']" by code_simp
  with tool_search_within_budget [of 5 _ id "''mail''" sample_tools, OF _ refl] show ?thesis by simp
qed

end
