(* ===== verification/Authorization.thy ===== *)
theory Authorization
  imports ExecutionTypes CanonicalJson
begin

text \<open>
  Who may do what (\<open>execution-world.ts\<close>, \<open>network-sandbox.ts\<close>): exact capability rules with
  deny by default, the intersection of permission layers, and the decorator that lets a
  remembered grant relax a question to a yes. The two reasons that are Chinese text in the
  source are given in English, within the 8-bit characters.
\<close>

section \<open>Policies\<close>

text \<open>An \<open>AuthorizationPolicy\<close>, with the \<open>snapshot\<close> that not every policy has.\<close>

record policy =
  pl_authorize :: "action_request \<Rightarrow> decision"
  pl_snapshot :: "(action_request \<Rightarrow> permission_snapshot) option"

record capability_rule =
  cp_capability :: string
  cp_decision :: decision_kind
  cp_reason :: string

definition rule_decision :: "capability_rule \<Rightarrow> decision" where
  "rule_decision r = \<lparr>dc_decision = cp_decision r, dc_reason = cp_reason r\<rparr>"

text \<open>\<open>StaticAuthorizationPolicy\<close>: the map of the rules, of which the last for a capability counts.\<close>

definition static_rules :: "capability_rule list \<Rightarrow> (string, decision) jsmap" where
  "static_rules rules = fold (\<lambda>r. jsmap_set (cp_capability r) (rule_decision r)) rules []"

definition static_authorize :: "capability_rule list \<Rightarrow> action_request \<Rightarrow> decision" where
  "static_authorize rules q =
     (case map_of (static_rules rules) (aq_capability q) of
        Some d \<Rightarrow> d
      | None \<Rightarrow> \<lparr>dc_decision = Deny,
          dc_reason = ''Capability '' @ CHR 0x27 # aq_capability q @ CHR 0x27 # '' is not declared''\<rparr>)"

definition static_policy :: "capability_rule list \<Rightarrow> policy" where
  "static_policy rules = \<lparr>pl_authorize = static_authorize rules, pl_snapshot = None\<rparr>"

section \<open>The intersection of layers\<close>

record permission_layer =
  py_id :: string
  py_rules :: "capability_rule list"

datatype layers_error = NoLayers | DuplicateLayer string

text \<open>The constructor: at least one layer, no id twice.\<close>

fun check_layers :: "string list \<Rightarrow> permission_layer list \<Rightarrow> layers_error option" where
  "check_layers ids [] = None"
| "check_layers ids (l # ls) =
     (if List.member ids (py_id l) then Some (DuplicateLayer (py_id l)) else check_layers (py_id l # ids) ls)"

definition newIntersection :: "permission_layer list \<Rightarrow> layers_error + permission_layer list" where
  "newIntersection layers =
     (if layers = [] then Inl NoLayers
      else case check_layers [] layers of Some err \<Rightarrow> Inl err | None \<Rightarrow> Inr layers)"

definition rule_matches :: "string \<Rightarrow> capability_rule \<Rightarrow> bool" where
  "rule_matches capability r \<longleftrightarrow> cp_capability r = capability \<or> cp_capability r = ''*''"

text \<open>Of the matching rules a deny counts before an ask, an ask before the first.\<close>

definition layer_rule :: "string \<Rightarrow> capability_rule list \<Rightarrow> capability_rule option" where
  "layer_rule capability rules =
     (let matches = filter (rule_matches capability) rules
      in case List.find (\<lambda>r. cp_decision r = Deny) matches of
        Some r \<Rightarrow> Some r
      | None \<Rightarrow>
          (case List.find (\<lambda>r. cp_decision r = Ask) matches of
             Some r \<Rightarrow> Some r
           | None \<Rightarrow> (case matches of [] \<Rightarrow> None | r # rs \<Rightarrow> Some r)))"

definition decide_layer :: "action_request \<Rightarrow> permission_layer \<Rightarrow> layer_decision" where
  "decide_layer q l =
     (case layer_rule (aq_capability q) (py_rules l) of
        Some r \<Rightarrow> \<lparr>ld_id = py_id l, ld_decision = cp_decision r, ld_reason = cp_reason r\<rparr>
      | None \<Rightarrow> \<lparr>ld_id = py_id l, ld_decision = Deny,
          ld_reason = ''Layer '' @ CHR 0x27 # py_id l @ CHR 0x27 # '' does not grant '' @
            CHR 0x27 # aq_capability q @ [CHR 0x27]\<rparr>)"

definition intersection_snapshot :: "permission_layer list \<Rightarrow> action_request \<Rightarrow> permission_snapshot" where
  "intersection_snapshot layers q =
     (let ds = map (decide_layer q) layers
      in case List.find (\<lambda>d. ld_decision d = Deny) ds of
        Some d \<Rightarrow> \<lparr>pn_capability = aq_capability q, pn_decision = Deny, pn_reason = ld_reason d,
            pn_layers = ds, pn_sandbox = None\<rparr>
      | None \<Rightarrow>
          (case List.find (\<lambda>d. ld_decision d = Ask) ds of
             Some d \<Rightarrow> \<lparr>pn_capability = aq_capability q, pn_decision = Ask, pn_reason = ld_reason d,
                 pn_layers = ds, pn_sandbox = None\<rparr>
           | None \<Rightarrow> \<lparr>pn_capability = aq_capability q, pn_decision = Allow,
                 pn_reason = ''All '' @ nat_string (length layers) @ '' permission layers grant '' @
                   CHR 0x27 # aq_capability q @ [CHR 0x27],
                 pn_layers = ds, pn_sandbox = None\<rparr>))"

definition snapshot_decision :: "permission_snapshot \<Rightarrow> decision" where
  "snapshot_decision s = \<lparr>dc_decision = pn_decision s, dc_reason = pn_reason s\<rparr>"

definition intersection_policy :: "permission_layer list \<Rightarrow> policy" where
  "intersection_policy layers =
     \<lparr>pl_authorize = (\<lambda>q. snapshot_decision (intersection_snapshot layers q)),
      pl_snapshot = Some (intersection_snapshot layers)\<rparr>"

section \<open>Remembered grants\<close>

fun decision_name :: "decision_kind \<Rightarrow> string" where
  "decision_name Allow = ''allow''"
| "decision_name Ask = ''ask''"
| "decision_name Deny = ''deny''"

definition grant_authorize :: "(action_request \<Rightarrow> decision) \<Rightarrow> string list \<Rightarrow> action_request \<Rightarrow> decision" where
  "grant_authorize inner grants q =
     (if \<not> List.member grants (aq_capability q) then inner q
      else let d = inner q
        in if dc_decision d = Deny then d
           else \<lparr>dc_decision = Allow,
             dc_reason = ''the user has granted '' @ CHR 0x27 # aq_capability q @ CHR 0x27 # '' (inner decision '' @
               decision_name (dc_decision d) @ '')''\<rparr>)"

definition grant_snapshot :: "(action_request \<Rightarrow> permission_snapshot) \<Rightarrow> string list \<Rightarrow> action_request \<Rightarrow>
    permission_snapshot" where
  "grant_snapshot inner grants q =
     (let s = inner q
      in if \<not> List.member grants (aq_capability q) then s
         else if pn_decision s = Deny then s
         else s\<lparr>pn_decision := Allow,
           pn_reason := ''the user has granted '' @ CHR 0x27 # aq_capability q @ [CHR 0x27],
           pn_layers := pn_layers s @ [\<lparr>ld_id = ''persisted-grant'', ld_decision = Allow,
             ld_reason = ''a remembered grant covers '' @ decision_name (pn_decision s)\<rparr>]\<rparr>)"

text \<open>\<open>PersistedGrantPolicy\<close> over an inner policy that has snapshots.\<close>

definition grant_policy :: "(action_request \<Rightarrow> decision) \<Rightarrow> (action_request \<Rightarrow> permission_snapshot) \<Rightarrow>
    string list \<Rightarrow> policy" where
  "grant_policy authorize snapshot grants =
     \<lparr>pl_authorize = grant_authorize authorize grants, pl_snapshot = Some (grant_snapshot snapshot grants)\<rparr>"

section \<open>What the policies decide\<close>

text \<open>The decision a caller acts on: the snapshot's where there is one.\<close>

definition policy_decision :: "policy \<Rightarrow> action_request \<Rightarrow> decision" where
  "policy_decision p q =
     (case pl_snapshot p of Some f \<Rightarrow> snapshot_decision (f q) | None \<Rightarrow> pl_authorize p q)"

lemma find_None: "List.find P xs = None \<longleftrightarrow> list_all (\<lambda>x. \<not> P x) xs"
  by (auto simp: find_None_iff list_all_iff)

lemma find_SomeD: "List.find P xs = Some x \<Longrightarrow> P x \<and> x \<in> set xs"
  by (auto simp: find_Some_iff)

definition denies :: "string \<Rightarrow> capability_rule list \<Rightarrow> bool" where
  "denies capability rules \<longleftrightarrow>
     (\<exists>r\<in>set rules. rule_matches capability r \<and> cp_decision r = Deny) \<or>
     (\<forall>r\<in>set rules. \<not> rule_matches capability r)"

definition asks :: "string \<Rightarrow> capability_rule list \<Rightarrow> bool" where
  "asks capability rules \<longleftrightarrow> (\<exists>r\<in>set rules. rule_matches capability r \<and> cp_decision r = Ask)"

lemma layer_rule_kind:
  "(case layer_rule c rules of None \<Rightarrow> Deny | Some r \<Rightarrow> cp_decision r) =
     (if denies c rules then Deny else if asks c rules then Ask else Allow)"
proof -
  let ?ms = "filter (rule_matches c) rules"
  have none: "?ms = [] \<longleftrightarrow> (\<forall>r\<in>set rules. \<not> rule_matches c r)" by (simp add: filter_empty_conv)
  show ?thesis
  proof (cases "List.find (\<lambda>r. cp_decision r = Deny) ?ms")
    case (Some r)
    then have "cp_decision r = Deny" "r \<in> set ?ms" by (auto dest: find_SomeD)
    with Some show ?thesis by (auto simp: layer_rule_def denies_def)
  next
    case None
    then have nodeny: "cp_decision r \<noteq> Deny" if "r \<in> set ?ms" for r
      using that by (auto simp: find_None list_all_iff)
    show ?thesis
    proof (cases "List.find (\<lambda>r. cp_decision r = Ask) ?ms")
      case (Some r)
      then have "cp_decision r = Ask" "r \<in> set ?ms" by (auto dest: find_SomeD)
      with Some None nodeny show ?thesis by (auto simp: layer_rule_def denies_def asks_def)
    next
      case nask: None
      then have noask: "cp_decision r \<noteq> Ask" if "r \<in> set ?ms" for r
        using that by (auto simp: find_None list_all_iff)
      show ?thesis
      proof (cases ?ms)
        case Nil
        with none have "denies c rules" by (simp add: denies_def)
        with Nil show ?thesis by (simp add: layer_rule_def)
      next
        case (Cons r rs)
        then have "r \<in> set ?ms" by simp
        with nodeny noask have "cp_decision r = Allow" by (cases "cp_decision r") auto
        moreover have "\<not> denies c rules" "\<not> asks c rules"
          using nodeny noask \<open>r \<in> set ?ms\<close> by (auto simp: denies_def asks_def)
        moreover have "layer_rule c rules = Some r"
          using None nask Cons by (simp add: layer_rule_def)
        ultimately show ?thesis by simp
      qed
    qed
  qed
qed

lemma decide_layer_kind:
  "ld_decision (decide_layer q l) =
     (if denies (aq_capability q) (py_rules l) then Deny
      else if asks (aq_capability q) (py_rules l) then Ask else Allow)"
  using layer_rule_kind [of "aq_capability q" "py_rules l"]
  by (cases "layer_rule (aq_capability q) (py_rules l)") (simp_all add: decide_layer_def)

lemma intersection_kind:
  "pn_decision (intersection_snapshot layers q) =
     (if \<exists>l\<in>set layers. denies (aq_capability q) (py_rules l) then Deny
      else if \<exists>l\<in>set layers. asks (aq_capability q) (py_rules l) then Ask else Allow)"
proof -
  let ?c = "aq_capability q" and ?ds = "map (decide_layer q) layers"
  have deny: "List.find (\<lambda>d. ld_decision d = Deny) ?ds = None \<longleftrightarrow>
      \<not> (\<exists>l\<in>set layers. denies ?c (py_rules l))"
    by (auto simp: find_None list_all_iff decide_layer_kind split: if_splits)
  have ask: "List.find (\<lambda>d. ld_decision d = Ask) ?ds = None \<longleftrightarrow>
      \<not> (\<exists>l\<in>set layers. asks ?c (py_rules l))" if "\<not> (\<exists>l\<in>set layers. denies ?c (py_rules l))"
    using that by (auto simp: find_None list_all_iff decide_layer_kind split: if_splits)
  show ?thesis
  proof (cases "\<exists>l\<in>set layers. denies ?c (py_rules l)")
    case True
    with deny obtain d where "List.find (\<lambda>d. ld_decision d = Deny) ?ds = Some d" by blast
    with True show ?thesis by (simp add: intersection_snapshot_def)
  next
    case False
    with deny have none: "List.find (\<lambda>d. ld_decision d = Deny) ?ds = None" by blast
    show ?thesis
    proof (cases "List.find (\<lambda>d. ld_decision d = Ask) ?ds")
      case None
      with none ask [OF False] False show ?thesis by (simp add: intersection_snapshot_def)
    next
      case (Some d)
      with ask [OF False] have "\<exists>l\<in>set layers. asks ?c (py_rules l)" by force
      with none Some False show ?thesis by (simp add: intersection_snapshot_def)
    qed
  qed
qed

lemma grant_kind:
  "pn_decision (grant_snapshot inner grants q) =
     (if List.member grants (aq_capability q) \<and> pn_decision (inner q) \<noteq> Deny then Allow
      else pn_decision (inner q))"
  by (simp add: grant_snapshot_def Let_def)

end
