(* ===== verification/ActionPaths.thy ===== *)
theory ActionPaths
  imports Authorization
begin

text \<open>
  Canonical requests (\<open>canonicalPath\<close>, \<open>canonicalizeActionRequest\<close> of
  \<open>execution-world.ts\<close>): symbolic links and missing ancestors are resolved before a policy
  sees a path. The functions of Node's \<open>path\<close> module are those of a POSIX system; \<open>realpath\<close>,
  which asks the file system, is a parameter, and the file system does not change while one
  request is resolved.
\<close>

section \<open>Node's path module\<close>

abbreviation slash :: char where
  "slash \<equiv> CHR ''/''"

definition path_dirname :: "string \<Rightarrow> string" where
  "path_dirname p =
     (case p of
        [] \<Rightarrow> ''.''
      | c # rest \<Rightarrow>
          (case dropWhile (\<lambda>x. x \<noteq> slash) (dropWhile (\<lambda>x. x = slash) (rev rest)) of
             [] \<Rightarrow> if c = slash then ''/'' else ''.''
           | s # before \<Rightarrow> if c = slash \<and> before = [] then ''//'' else c # rev before))"

definition path_basename :: "string \<Rightarrow> string" where
  "path_basename p = rev (takeWhile (\<lambda>x. x \<noteq> slash) (dropWhile (\<lambda>x. x = slash) (rev p)))"

fun split_slash :: "string \<Rightarrow> string \<Rightarrow> string list" where
  "split_slash seg [] = [rev seg]"
| "split_slash seg (c # cs) = (if c = slash then rev seg # split_slash [] cs else split_slash (c # seg) cs)"

text \<open>\<open>normalizeString\<close>: dots are dropped, double dots go up where they can.\<close>

definition normalize_step :: "bool \<Rightarrow> string list \<Rightarrow> string \<Rightarrow> string list" where
  "normalize_step allowAboveRoot acc seg =
     (if seg = [] \<or> seg = ''.'' then acc
      else if seg = ''..'' then
        (if acc \<noteq> [] \<and> last acc \<noteq> ''..'' then butlast acc
         else if allowAboveRoot then acc @ [seg] else acc)
      else acc @ [seg])"

fun join_slash :: "string list \<Rightarrow> string" where
  "join_slash [] = []"
| "join_slash [x] = x"
| "join_slash (x # y # ys) = x @ slash # join_slash (y # ys)"

definition path_normalize :: "string \<Rightarrow> string" where
  "path_normalize p =
     (if p = [] then ''.''
      else let absolute = isAbsolute p; trailing = (last p = slash);
               body = join_slash (foldl (normalize_step (\<not> absolute)) [] (split_slash [] p))
        in if body = [] then (if absolute then ''/'' else if trailing then ''./'' else ''.'')
           else (if absolute then ''/'' else []) @ body @ (if trailing then ''/'' else []))"

definition path_join :: "string \<Rightarrow> string \<Rightarrow> string" where
  "path_join a b = path_normalize (if a = [] then b else if b = [] then a else a @ slash # b)"

lemma dirname_rest:
  assumes "dropWhile (\<lambda>x. x \<noteq> slash) (dropWhile (\<lambda>x. x = slash) xs) = s # before"
  shows "Suc (Suc (length before)) \<le> length xs"
proof -
  let ?ys = "dropWhile (\<lambda>x. x = slash) xs"
  have s: "s = slash" using hd_dropWhile [of "\<lambda>x. x \<noteq> slash" ?ys] assms by simp
  obtain y zs where ys: "?ys = y # zs" using assms by (cases ?ys) simp_all
  have "y \<noteq> slash" using hd_dropWhile [of "\<lambda>x. x = slash" xs] ys by simp
  with assms ys have "dropWhile (\<lambda>x. x \<noteq> slash) zs = s # before" by simp
  then have "Suc (length before) \<le> length zs"
    by (metis length_Cons length_dropWhile_le)
  moreover have "Suc (length zs) \<le> length xs"
    by (metis length_Cons length_dropWhile_le ys)
  ultimately show ?thesis by simp
qed

lemma path_dirname_shorter:
  "path_dirname p \<noteq> p \<Longrightarrow> path_dirname p = ''.'' \<or> length (path_dirname p) < length p"
proof (cases p)
  case (Cons c rest)
  assume ne: "path_dirname p \<noteq> p"
  let ?d = "dropWhile (\<lambda>x. x \<noteq> slash) (dropWhile (\<lambda>x. x = slash) (rev rest))"
  show ?thesis
  proof (cases ?d)
    case Nil
    then have "path_dirname p = (if c = slash then ''/'' else ''.'')"
      unfolding path_dirname_def \<open>p = c # rest\<close> by (simp only: list.case)
    with ne \<open>p = c # rest\<close> show ?thesis by (cases "c = slash"; cases rest) simp_all
  next
    case (Cons s before)
    from dirname_rest [OF this] have "Suc (Suc (length before)) \<le> length rest" by simp
    moreover have "path_dirname p = (if c = slash \<and> before = [] then ''//'' else c # rev before)"
      unfolding path_dirname_def \<open>p = c # rest\<close> by (simp only: list.case Cons)
    ultimately show ?thesis using \<open>p = c # rest\<close> by (cases "c = slash \<and> before = []") auto
  qed
qed (simp add: path_dirname_def)

section \<open>Canonical paths\<close>

datatype realpath_result = RealPath string | MissingPath | PathFailed string

datatype execution_error =
    RequestRejected
  | StdioNeedsOneCommand
  | StdioExclusive
  | PathError string
  | KeyCollision string
  | ExecutionStoreError chronicle_error
  | CapabilitiesFailed string
  | MalformedExecutionPayload string
  | ReleaseFailed string

function canonicalPath :: "(string \<Rightarrow> realpath_result) \<Rightarrow> string \<Rightarrow> execution_error + string" where
  "canonicalPath realpath path =
     (case realpath path of
        RealPath p \<Rightarrow> Inr p
      | PathFailed m \<Rightarrow> Inl (PathError m)
      | MissingPath \<Rightarrow>
          let parent = path_dirname path
          in if parent = path then Inr path
             else (case canonicalPath realpath parent of
               Inl err \<Rightarrow> Inl err
             | Inr p \<Rightarrow> Inr (path_join p (path_basename path))))"
  by pat_completeness auto

termination canonicalPath
proof (relation "measure (\<lambda>(r, p). if p = ''.'' then 0 else Suc (length p))")
  fix realpath :: "string \<Rightarrow> realpath_result" and path parent
  assume "parent = path_dirname path" "parent \<noteq> path"
  moreover have "path_dirname ''.'' = ''.''" by (simp add: path_dirname_def)
  ultimately show "((realpath, parent), (realpath, path)) \<in>
      measure (\<lambda>(r, p). if p = ''.'' then 0 else Suc (length p))"
    using path_dirname_shorter [of path] by auto
qed simp

declare canonicalPath.simps [simp del]

text \<open>\<open>Promise.all\<close> over a list: the error of the first path that fails.\<close>

fun canonical_all :: "(string \<Rightarrow> realpath_result) \<Rightarrow> string list \<Rightarrow> execution_error + string list" where
  "canonical_all realpath [] = Inr []"
| "canonical_all realpath (p # ps) =
     (case canonicalPath realpath p of
        Inl err \<Rightarrow> Inl err
      | Inr q \<Rightarrow> (case canonical_all realpath ps of Inl err \<Rightarrow> Inl err | Inr qs \<Rightarrow> Inr (q # qs)))"

fun canonical_commands :: "(string \<Rightarrow> realpath_result) \<Rightarrow> string list list \<Rightarrow>
    execution_error + string list list" where
  "canonical_commands realpath [] = Inr []"
| "canonical_commands realpath ([] # cs) = Inl RequestRejected"
| "canonical_commands realpath ((executable # args) # cs) =
     (case canonicalPath realpath executable of
        Inl err \<Rightarrow> Inl err
      | Inr q \<Rightarrow> (case canonical_commands realpath cs of Inl err \<Rightarrow> Inl err | Inr qs \<Rightarrow> Inr ((q # args) # qs)))"

text \<open>\<open>[...new Set(xs)]\<close>: the first occurrences.\<close>

definition js_unique :: "'a list \<Rightarrow> 'a list" where
  "js_unique xs = rev (remdups (rev xs))"

lemma set_js_unique [simp]: "set (js_unique xs) = set xs"
  and distinct_js_unique [simp]: "distinct (js_unique xs)"
  by (simp_all add: js_unique_def)

definition canonicalizeActionRequest :: "zod \<Rightarrow> (string \<Rightarrow> realpath_result) \<Rightarrow> action_request \<Rightarrow>
    execution_error + action_request" where
  "canonicalizeActionRequest z realpath q =
     (let r = aq_requirements q
      in if \<not> request_ok z q then Inl RequestRejected
         else if (rr_commandStdin r \<noteq> None \<or> rr_stdoutCompletion r \<noteq> None \<or> rr_commandStdio r \<noteq> None) \<and>
             length (rr_commands r) \<noteq> 1
         then Inl StdioNeedsOneCommand
         else if rr_commandStdin r \<noteq> None \<and> rr_commandStdio r \<noteq> None then Inl StdioExclusive
         else case canonical_all realpath (rr_readPaths r) of
           Inl err \<Rightarrow> Inl err
         | Inr readPaths \<Rightarrow>
             (case canonical_all realpath (rr_writePaths r) of
                Inl err \<Rightarrow> Inl err
              | Inr writePaths \<Rightarrow>
                  (case canonical_commands realpath (rr_commands r) of
                     Inl err \<Rightarrow> Inl err
                   | Inr commands \<Rightarrow>
                       (case rr_workingDirectory r of
                          None \<Rightarrow> Inr (q\<lparr>aq_requirements := r\<lparr>rr_readPaths := js_unique readPaths,
                            rr_writePaths := js_unique writePaths, rr_commands := commands\<rparr>\<rparr>)
                        | Some dir \<Rightarrow>
                            (case canonicalPath realpath dir of
                               Inl err \<Rightarrow> Inl err
                             | Inr wd \<Rightarrow> Inr (q\<lparr>aq_requirements := r\<lparr>rr_readPaths := js_unique readPaths,
                                 rr_writePaths := js_unique writePaths, rr_commands := commands,
                                 rr_workingDirectory := Some wd\<rparr>\<rparr>))))))"

lemma canonical_keeps:
  "canonicalizeActionRequest z realpath q = Inr q' \<Longrightarrow>
   aq_id q' = aq_id q \<and> aq_idempotencyKey q' = aq_idempotencyKey q \<and>
   aq_capability q' = aq_capability q \<and> aq_input q' = aq_input q"
  by (auto simp: canonicalizeActionRequest_def Let_def split: if_splits sum.splits option.splits)

text \<open>Where every path exists the request only names what \<open>realpath\<close> returned.\<close>

lemma canonicalPath_exists: "realpath p = RealPath q \<Longrightarrow> canonicalPath realpath p = Inr q"
  by (subst canonicalPath.simps) simp

end
