(* ===== verification/ExecutionWorld.thy ===== *)
theory ExecutionWorld
  imports ActionPaths HostChronicle
begin

text \<open>
  \<open>ExecutionWorld\<close> (\<open>execution-world.ts\<close>): the durable authorize, sandbox, verify, emit
  boundary. The sandbox and the secret broker act on a world the Chronicle does not hold
  (\<open>'w\<close>) and are parameters. \<open>execute\<close> is one step: the in-flight map of one world
  runs the calls of one key one after the other. The \<open>i\<close>-th event of a call reads
  \<open>env_uuid env i\<close> and \<open>env_now env i\<close>, the \<open>k\<close>-th append \<open>env_now env (6 + k)\<close>.
\<close>

section \<open>The ports\<close>

text \<open>
  A snapshot also carries which provider took it, one entry for each routing sandbox it came
  through: what the code keeps in a \<open>WeakMap\<close> from snapshots to providers.
\<close>

record world_snapshot =
  ws_ref :: string
  ws_capturedAt :: string
  ws_state :: "json option"
  ws_owners :: "bool list"

record 'w sandbox =
  sb_execute :: "action_request \<Rightarrow> (string, string) jsmap \<Rightarrow> 'w \<Rightarrow> 'w \<times> (string + action_result)"
  sb_snapshot :: "action_request \<Rightarrow> 'w \<Rightarrow> 'w \<times> (string + world_snapshot)"
  sb_diff :: "world_snapshot \<Rightarrow> world_snapshot \<Rightarrow> 'w \<Rightarrow> 'w \<times> (string + json)"
  sb_capabilities :: "action_request \<Rightarrow> 'w \<Rightarrow> 'w \<times> (string + capability_report)"

record 'w broker =
  bk_materialize :: "string list \<Rightarrow> action_request \<Rightarrow> 'w \<Rightarrow> 'w \<times> (string + (string, string) jsmap)"
  bk_redact :: "string \<Rightarrow> string"
  bk_release :: "string list \<Rightarrow> action_request \<Rightarrow> 'w \<Rightarrow> 'w \<times> string option"

record ('s, 'w) execution_world =
  xw_ops :: "('s, payload) chronicle_ops"
  xw_policy :: policy
  xw_sandbox :: "'w sandbox"
  xw_secrets :: "'w broker option"

datatype approval = Approved | Rejected

datatype execution_outcome =
    ResultOutcome action_result bool
  | ApprovalRequired string string string
  | Denied string
  | ReconciliationRequired string

text \<open>The Chronicle and the world outside it, which one call moves from one value to the next.\<close>

record ('s, 'w) execution_state =
  xs_store :: 's
  xs_world :: 'w

section \<open>Digests\<close>

fun actor_type_name :: "actor_type \<Rightarrow> string" where
  "actor_type_name UserActor = ''user''"
| "actor_type_name AgentActor = ''agent''"
| "actor_type_name SystemActor = ''system''"
| "actor_type_name ToolActor = ''tool''"

text \<open>
  An optional member of an object. The model identifies a member that is absent with one that
  is present and undefined, for which \<open>canonicalJson\<close> prints the word.
\<close>

definition opt_member :: "string \<Rightarrow> ('a \<Rightarrow> json) \<Rightarrow> 'a option \<Rightarrow> (string \<times> json) list" where
  "opt_member k f v = (case v of None \<Rightarrow> [] | Some x \<Rightarrow> [(k, f x)])"

definition strings_json :: "string list \<Rightarrow> json" where
  "strings_json xs = JArr (map JStr xs)"

definition completion_json :: "stdout_completion \<Rightarrow> json" where
  "completion_json c = JObj [(''kind'', JStr ''json-line-property''), (''property'', JStr (so_property c)),
     (''equals'', case so_equals c of EqualsString s \<Rightarrow> JStr s | EqualsNumber n \<Rightarrow> JNum n)]"

definition stdio_json :: "stdio_step list \<Rightarrow> json" where
  "stdio_json steps = JObj [(''kind'', JStr ''json-lines''), (''steps'', JArr (map (\<lambda>s.
     JObj ([(''input'', JStr (si_input s))] @ opt_member ''waitFor'' completion_json (si_waitFor s))) steps))]"

definition requirements_json :: "resource_requirements \<Rightarrow> json" where
  "requirements_json r = JObj ([(''readPaths'', strings_json (rr_readPaths r)),
     (''writePaths'', strings_json (rr_writePaths r)),
     (''networkTargets'', strings_json (rr_networkTargets r)),
     (''commands'', JArr (map strings_json (rr_commands r)))] @
     opt_member ''commandStdin'' JStr (rr_commandStdin r) @
     opt_member ''stdoutCompletion'' completion_json (rr_stdoutCompletion r) @
     opt_member ''commandStdio'' stdio_json (rr_commandStdio r) @
     [(''secretEnv'', JObj (map (\<lambda>(k, v). (k, JStr v)) (rr_secretEnv r)))] @
     opt_member ''workingDirectory'' JStr (rr_workingDirectory r) @
     opt_member ''timeoutMs'' JNum (rr_timeoutMs r) @
     opt_member ''maxOutputBytes'' JNum (rr_maxOutputBytes r))"

definition request_json :: "action_request \<Rightarrow> json" where
  "request_json q = JObj ([(''id'', JStr (aq_id q)), (''idempotencyKey'', JStr (aq_idempotencyKey q)),
     (''capability'', JStr (aq_capability q)),
     (''subject'', JObj [(''type'', JStr (actor_type_name (actor_type (aq_subject q)))),
       (''id'', JStr (actor_id (aq_subject q)))]),
     (''input'', aq_input q), (''requirements'', requirements_json (aq_requirements q)),
     (''expectedEffects'', strings_json (aq_expectedEffects q)),
     (''verification'', strings_json (aq_verification q)),
     (''scope'', JObj ([(''threadId'', JStr (aq_threadId q)), (''turnId'', JStr (aq_turnId q))] @
       opt_member ''itemId'' JStr (aq_itemId q)))] @
     opt_member ''structureVersion'' JStr (aq_structureVersion q))"

definition requestDigest :: "(string \<Rightarrow> string) \<Rightarrow> action_request \<Rightarrow> string" where
  "requestDigest sha256 q = ''sha256:'' @ sha256 (canonicalJson (request_json q))"

definition executionStreamId :: "(string \<Rightarrow> string) \<Rightarrow> string \<Rightarrow> string" where
  "executionStreamId sha256 key = ''execution:'' @ sha256 key"

definition approvalDetail :: "action_request \<Rightarrow> string" where
  "approvalDetail q = canonicalJson (JObj [(''capability'', JStr (aq_capability q)),
     (''input'', aq_input q), (''requirements'', requirements_json (aq_requirements q)),
     (''expectedEffects'', strings_json (aq_expectedEffects q)),
     (''verification'', strings_json (aq_verification q))])"

section \<open>Events\<close>

definition execution_event :: "string \<Rightarrow> string \<Rightarrow> action_request \<Rightarrow> execution_payload \<Rightarrow> payload new_event" where
  "execution_event uuid now q p = newChronicleEvent uuid now
     ((plain_input (execution_event_type p) (aq_subject q)
        (no_scope\<lparr>sc_thread := Some (aq_threadId q), sc_turn := Some (aq_turnId q)\<rparr>) (ExecutionP p))
      \<lparr>in_structureVersion := aq_structureVersion q\<rparr>)"

definition event_at :: "env \<Rightarrow> nat \<Rightarrow> action_request \<Rightarrow> execution_payload \<Rightarrow> payload new_event" where
  "event_at env i q p = execution_event (env_uuid env i) (env_now env i) q p"

lemma event_at_sel [simp]:
  "ev_type (event_at env i q p) = execution_event_type p"
  "ev_payload (event_at env i q p) = ExecutionP p"
  by (simp_all add: event_at_def execution_event_def newChronicleEvent_def plain_input_def Let_def)

text \<open>\<open>#append\<close>: at the tail the store has now.\<close>

definition x_append :: "('s, payload) chronicle_ops \<Rightarrow> string \<Rightarrow> string \<Rightarrow> payload new_event list \<Rightarrow>
    ('s, 'w) execution_state \<Rightarrow> ('s, 'w) execution_state \<times> chronicle_error option" where
  "x_append ops now sid evs st =
     (if evs = [] then (st, None)
      else case op_append ops now sid evs (op_latest ops sid (xs_store st) + 1) (xs_store st) of
        (s', Inl err) \<Rightarrow> (st\<lparr>xs_store := s'\<rparr>, Some err)
      | (s', Inr _) \<Rightarrow> (st\<lparr>xs_store := s'\<rparr>, None))"

definition logged :: "string \<Rightarrow> payload chronicle_event list \<Rightarrow> bool" where
  "logged et es \<longleftrightarrow> list_ex (\<lambda>e. ev_type e = et) es"

definition find_type :: "string \<Rightarrow> payload chronicle_event list \<Rightarrow> payload chronicle_event option" where
  "find_type et es = List.find (\<lambda>e. ev_type e = et) es"

text \<open>The texts of the errors of the store, as an \<open>Error\<close> carries them.\<close>

fun chronicle_message :: "chronicle_error \<Rightarrow> string" where
  "chronicle_message (UnknownChronicleEventType et) =
     ''Unknown Chronicle event type '' @ CHR 0x27 # et @ [CHR 0x27]"
| "chronicle_message (ChronicleEventValidation et m) =
     ''Event '' @ CHR 0x27 # et @ CHR 0x27 # '' failed validation: '' @ m"
| "chronicle_message (AlreadyRegistered et) =
     ''Chronicle event type '' @ CHR 0x27 # et @ CHR 0x27 # '' is already registered''"
| "chronicle_message (ChronicleSequenceConflict sid expected actual) =
     ''Chronicle stream '' @ CHR 0x27 # sid @ CHR 0x27 # '' expected next sequence '' @ int_string expected @
       '' but the next free sequence is '' @ int_string actual"
| "chronicle_message StoredEventInvalid = ''stored event does not parse''"
| "chronicle_message ConstraintViolation = ''constraint failed''"

section \<open>Before the policy: what the log already says\<close>

text \<open>
  The head of \<open>#execute\<close> on a stream where the request is: an answer, or the call goes on.
\<close>

definition logged_answer :: "string \<Rightarrow> action_request \<Rightarrow> payload chronicle_event list \<Rightarrow>
    payload chronicle_event \<Rightarrow> execution_error + execution_outcome option" where
  "logged_answer digest q existing requested =
     (case ev_payload requested of
        ExecutionP (XRequestedP q0 d) \<Rightarrow>
          if d \<noteq> digest then Inl (KeyCollision (aq_idempotencyKey q))
          else (case find_type ''execution.completed'' existing of
            Some e \<Rightarrow> (case ev_payload e of
                ExecutionP (XCompletedP _ r) \<Rightarrow> Inr (Some (ResultOutcome r True))
              | _ \<Rightarrow> Inl (MalformedExecutionPayload ''execution.completed''))
          | None \<Rightarrow>
              if logged ''execution.started'' existing
              then Inr (Some (ReconciliationRequired
                ''The action started without a durable result; automatic replay is unsafe''))
              else (case find_type ''execution.denied'' existing of
                Some e \<Rightarrow> (case ev_payload e of
                    ExecutionP (XDeniedP _ d) \<Rightarrow> Inr (Some (Denied (dc_reason d)))
                  | _ \<Rightarrow> Inl (MalformedExecutionPayload ''execution.denied''))
              | None \<Rightarrow> Inr None))
      | _ \<Rightarrow> Inl (MalformedExecutionPayload ''execution.requested''))"

section \<open>The verdict\<close>

definition REJECTED_REASON :: string where
  "REJECTED_REASON = ''The user rejected this action. Do not retry the same action.''"

definition unsupported :: "capability_report \<Rightarrow> resource_requirements \<Rightarrow> string list" where
  "unsupported c r =
     (if rr_readPaths r \<noteq> [] \<and> \<not> cr_filesystemIsolation c then [''readPaths''] else []) @
     (if rr_writePaths r \<noteq> [] \<and> \<not> cr_filesystemIsolation c then [''writePaths''] else []) @
     (if rr_networkTargets r \<noteq> [] \<and> \<not> cr_networkIsolation c then [''networkTargets''] else []) @
     (if rr_commands r \<noteq> [] \<and> \<not> cr_processIsolation c then [''commands''] else [])"

fun join_comma_space :: "string list \<Rightarrow> string" where
  "join_comma_space [] = []"
| "join_comma_space [x] = x"
| "join_comma_space (x # y # ys) = x @ '', '' @ join_comma_space (y # ys)"

datatype verdict = VDeny string | VAsk | VRun string

text \<open>The order of the checks is the code's: refusal, question, secrets, isolation.\<close>

definition verdict_of :: "decision \<Rightarrow> capability_report \<Rightarrow> bool \<Rightarrow> approval option \<Rightarrow> action_request \<Rightarrow>
    verdict" where
  "verdict_of d c hasBroker appr q =
     (if dc_decision d = Deny \<or> appr = Some Rejected
      then VDeny (if appr = Some Rejected then REJECTED_REASON else dc_reason d)
      else if dc_decision d = Ask \<and> appr \<noteq> Some Approved then VAsk
      else if rr_secretEnv (aq_requirements q) \<noteq> [] \<and> \<not> hasBroker
      then VDeny ''The action requires secrets but no SecretBroker is active''
      else if unsupported c (aq_requirements q) \<noteq> []
      then VDeny (''Sandbox '' @ CHR 0x27 # cr_provider c @ CHR 0x27 # '' cannot enforce: '' @
        join_comma_space (unsupported c (aq_requirements q)))
      else VRun (if dc_decision d = Ask then ''User approved the action'' else dc_reason d))"

text \<open>The snapshot that is logged: the policy's own, or one layer made of its decision.\<close>

definition permission_snapshot_of :: "policy \<Rightarrow> action_request \<Rightarrow> capability_report \<Rightarrow> permission_snapshot" where
  "permission_snapshot_of p q c =
     (case pl_snapshot p of
        Some f \<Rightarrow> (f q)\<lparr>pn_sandbox := Some c\<rparr>
      | None \<Rightarrow>
          let d = pl_authorize p q
          in \<lparr>pn_capability = aq_capability q, pn_decision = dc_decision d, pn_reason = dc_reason d,
              pn_layers = [\<lparr>ld_id = ''policy'', ld_decision = dc_decision d, ld_reason = dc_reason d\<rparr>],
              pn_sandbox = Some c\<rparr>)"

section \<open>Running\<close>

fun redactUnknown :: "(string \<Rightarrow> string) \<Rightarrow> json \<Rightarrow> json" where
  "redactUnknown redact (JStr s) = JStr (redact s)"
| "redactUnknown redact (JArr xs) = JArr (map (redactUnknown redact) xs)"
| "redactUnknown redact (JObj kvs) = JObj (map (\<lambda>(k, v). (k, redactUnknown redact v)) kvs)"
| "redactUnknown redact v = v"

definition safe_result :: "'w broker option \<Rightarrow> json \<Rightarrow> action_result \<Rightarrow> action_result" where
  "safe_result broker worldDiff r =
     (case broker of
        None \<Rightarrow> r\<lparr>ar_worldDiff := Some worldDiff\<rparr>
      | Some b \<Rightarrow> r\<lparr>ar_output := redactUnknown (bk_redact b) (ar_output r),
          ar_content := bk_redact b (ar_content r),
          ar_worldDiff := Some (redactUnknown (bk_redact b) worldDiff)\<rparr>)"

text \<open>The secrets the request asks for, in the order of its record.\<close>

definition secret_refs :: "action_request \<Rightarrow> string list" where
  "secret_refs q = map snd (rr_secretEnv (aq_requirements q))"

definition materialize_secrets :: "'w broker option \<Rightarrow> action_request \<Rightarrow> 'w \<Rightarrow>
    'w \<times> (string + (string, string) jsmap)" where
  "materialize_secrets broker q w =
     (case broker of None \<Rightarrow> (w, Inr []) | Some b \<Rightarrow> bk_materialize b (secret_refs q) q w)"

text \<open>The world's part of the \<open>try\<close> block: every rejection is a message.\<close>

definition run_in_sandbox :: "'w sandbox \<Rightarrow> 'w broker option \<Rightarrow> action_request \<Rightarrow> 'w \<Rightarrow>
    'w \<times> (string + action_result)" where
  "run_in_sandbox sb broker q w =
     (case materialize_secrets broker q w of
        (w1, Inl m) \<Rightarrow> (w1, Inl m)
      | (w1, Inr secrets) \<Rightarrow>
          (case sb_snapshot sb q w1 of
             (w2, Inl m) \<Rightarrow> (w2, Inl m)
           | (w2, Inr before) \<Rightarrow>
               (case sb_execute sb q secrets w2 of
                  (w3, Inl m) \<Rightarrow> (w3, Inl m)
                | (w3, Inr result) \<Rightarrow>
                    (case sb_snapshot sb q w3 of
                       (w4, Inl m) \<Rightarrow> (w4, Inl m)
                     | (w4, Inr after) \<Rightarrow>
                         (case sb_diff sb before after w4 of
                            (w5, Inl m) \<Rightarrow> (w5, Inl m)
                          | (w5, Inr worldDiff) \<Rightarrow> (w5, Inr (safe_result broker worldDiff result)))))))"

definition failed_result :: "string \<Rightarrow> action_result" where
  "failed_result message = \<lparr>ar_output = JObj [(''error'', JStr message)], ar_content = message,
     ar_isError = Some True, ar_worldDiff = None, ar_verification = []\<rparr>"

definition redact_message :: "'w broker option \<Rightarrow> string \<Rightarrow> string" where
  "redact_message broker m = (case broker of None \<Rightarrow> m | Some b \<Rightarrow> bk_redact b m)"

text \<open>The \<open>catch\<close> block.\<close>

definition run_failed :: "('s, 'w) execution_world \<Rightarrow> env \<Rightarrow> string \<Rightarrow> action_request \<Rightarrow> string \<Rightarrow>
    ('s, 'w) execution_state \<Rightarrow> ('s, 'w) execution_state \<times> (execution_error + execution_outcome)" where
  "run_failed xw env sid q raw st =
     (let message = redact_message (xw_secrets xw) raw
      in case x_append (xw_ops xw) (env_now env 10) sid
          [event_at env 5 q (XFailedP (aq_id q) (if message = [] then ''Unknown execution failure'' else message))] st of
        (st', Some err) \<Rightarrow> (st', Inl (ExecutionStoreError err))
      | (st', None) \<Rightarrow> (st', Inr (ResultOutcome (failed_result message) False)))"

text \<open>The \<open>finally\<close> block: an error of \<open>release\<close> replaces the outcome.\<close>

definition release_secrets :: "'w broker option \<Rightarrow> action_request \<Rightarrow>
    ('s, 'w) execution_state \<times> (execution_error + execution_outcome) \<Rightarrow>
    ('s, 'w) execution_state \<times> (execution_error + execution_outcome)" where
  "release_secrets broker q res =
     (case broker of
        None \<Rightarrow> res
      | Some b \<Rightarrow>
          (case bk_release b (secret_refs q) q (xs_world (fst res)) of
             (w, None) \<Rightarrow> ((fst res)\<lparr>xs_world := w\<rparr>, snd res)
           | (w, Some m) \<Rightarrow> ((fst res)\<lparr>xs_world := w\<rparr>, Inl (ReleaseFailed m))))"

text \<open>The \<open>try\<close> and \<open>catch\<close> blocks.\<close>

definition run_try :: "('s, 'w) execution_world \<Rightarrow> env \<Rightarrow> string \<Rightarrow> action_request \<Rightarrow>
    ('s, 'w) execution_state \<Rightarrow> ('s, 'w) execution_state \<times> (execution_error + execution_outcome)" where
  "run_try xw env sid q st =
     (case run_in_sandbox (xw_sandbox xw) (xw_secrets xw) q (xs_world st) of
        (w, Inl m) \<Rightarrow> run_failed xw env sid q m (st\<lparr>xs_world := w\<rparr>)
      | (w, Inr r) \<Rightarrow>
          (case x_append (xw_ops xw) (env_now env 9) sid
              [event_at env 4 q (XCompletedP (aq_id q) r)] (st\<lparr>xs_world := w\<rparr>) of
             (st', None) \<Rightarrow> (st', Inr (ResultOutcome r False))
           | (st', Some err) \<Rightarrow> run_failed xw env sid q (chronicle_message err) st'))"

definition run_action :: "('s, 'w) execution_world \<Rightarrow> env \<Rightarrow> string \<Rightarrow> action_request \<Rightarrow> string \<Rightarrow>
    ('s, 'w) execution_state \<Rightarrow> ('s, 'w) execution_state \<times> (execution_error + execution_outcome)" where
  "run_action xw env sid q reason st =
     (case x_append (xw_ops xw) (env_now env 8) sid
         [event_at env 2 q (XAuthorizedP (aq_id q) \<lparr>dc_decision = Allow, dc_reason = reason\<rparr>),
          event_at env 3 q (XStartedP (aq_id q))] st of
        (st1, Some err) \<Rightarrow> (st1, Inl (ExecutionStoreError err))
      | (st1, None) \<Rightarrow> release_secrets (xw_secrets xw) q (run_try xw env sid q st1))"

text \<open>A durable refusal.\<close>

definition deny_action :: "('s, 'w) execution_world \<Rightarrow> env \<Rightarrow> string \<Rightarrow> action_request \<Rightarrow> string \<Rightarrow>
    ('s, 'w) execution_state \<Rightarrow> ('s, 'w) execution_state \<times> (execution_error + execution_outcome)" where
  "deny_action xw env sid q reason st =
     (case x_append (xw_ops xw) (env_now env 8) sid
         [event_at env 2 q (XDeniedP (aq_id q) \<lparr>dc_decision = Deny, dc_reason = reason\<rparr>)] st of
        (st', Some err) \<Rightarrow> (st', Inl (ExecutionStoreError err))
      | (st', None) \<Rightarrow> (st', Inr (Denied reason)))"

definition ask_approval :: "('s, 'w) execution_world \<Rightarrow> env \<Rightarrow> string \<Rightarrow> action_request \<Rightarrow>
    payload chronicle_event list \<Rightarrow> ('s, 'w) execution_state \<Rightarrow>
    ('s, 'w) execution_state \<times> (execution_error + execution_outcome)" where
  "ask_approval xw env sid q existing st =
     (let title = ''Allow '' @ aq_capability q @ ''?''; detail = approvalDetail q;
          answer = ApprovalRequired (aq_id q) title detail
      in if logged ''execution.approval_required'' existing then (st, Inr answer)
         else case x_append (xw_ops xw) (env_now env 8) sid
             [event_at env 2 q (XApprovalP (aq_id q) (aq_id q) title detail)] st of
           (st', Some err) \<Rightarrow> (st', Inl (ExecutionStoreError err))
         | (st', None) \<Rightarrow> (st', Inr answer))"

section \<open>execute\<close>

text \<open>From the policy on, with the events that were there when the call began.\<close>

definition execute_authorized :: "('s, 'w) execution_world \<Rightarrow> env \<Rightarrow> string \<Rightarrow> approval option \<Rightarrow>
    action_request \<Rightarrow> payload chronicle_event list \<Rightarrow> ('s, 'w) execution_state \<Rightarrow>
    ('s, 'w) execution_state \<times> (execution_error + execution_outcome)" where
  "execute_authorized xw env sid appr q existing st =
     (case sb_capabilities (xw_sandbox xw) q (xs_world st) of
        (w, Inl m) \<Rightarrow> (st\<lparr>xs_world := w\<rparr>, Inl (CapabilitiesFailed m))
      | (w, Inr c) \<Rightarrow>
          let st1 = st\<lparr>xs_world := w\<rparr>
          in case (if logged ''execution.permission_snapshot'' existing then (st1, None)
                   else x_append (xw_ops xw) (env_now env 7) sid
                     [event_at env 1 q (XSnapshotP (aq_id q) (permission_snapshot_of (xw_policy xw) q c))] st1) of
            (st2, Some err) \<Rightarrow> (st2, Inl (ExecutionStoreError err))
          | (st2, None) \<Rightarrow>
              (case verdict_of (policy_decision (xw_policy xw) q) c (xw_secrets xw \<noteq> None) appr q of
                 VDeny reason \<Rightarrow> deny_action xw env sid q reason st2
               | VAsk \<Rightarrow> ask_approval xw env sid q existing st2
               | VRun reason \<Rightarrow> run_action xw env sid q reason st2))"

definition execute_request :: "zod \<Rightarrow> (string \<Rightarrow> string) \<Rightarrow> ('s, 'w) execution_world \<Rightarrow> env \<Rightarrow>
    approval option \<Rightarrow> action_request \<Rightarrow> ('s, 'w) execution_state \<Rightarrow>
    ('s, 'w) execution_state \<times> (execution_error + execution_outcome)" where
  "execute_request z sha256 xw env appr q st =
     (let sid = executionStreamId sha256 (aq_idempotencyKey q); digest = requestDigest sha256 q
      in case op_read (xw_ops xw) sid 0 (xs_store st) of
        (existing, Some err) \<Rightarrow> (st, Inl (ExecutionStoreError err))
      | (existing, None) \<Rightarrow>
          (case find_type ''execution.requested'' existing of
             Some requested \<Rightarrow>
               (case logged_answer digest q existing requested of
                  Inl err \<Rightarrow> (st, Inl err)
                | Inr (Some answer) \<Rightarrow> (st, Inr answer)
                | Inr None \<Rightarrow> execute_authorized xw env sid appr q existing st)
           | None \<Rightarrow>
               if \<not> (request_ok z q \<and> sha256_digest digest) then (st, Inl RequestRejected)
               else case x_append (xw_ops xw) (env_now env 6) sid
                   [event_at env 0 q (XRequestedP q digest)] st of
                 (st', Some err) \<Rightarrow> (st', Inl (ExecutionStoreError err))
               | (st', None) \<Rightarrow> execute_authorized xw env sid appr q existing st'))"

definition xw_execute :: "zod \<Rightarrow> (string \<Rightarrow> string) \<Rightarrow> (string \<Rightarrow> realpath_result) \<Rightarrow>
    ('s, 'w) execution_world \<Rightarrow> env \<Rightarrow> approval option \<Rightarrow> action_request \<Rightarrow> ('s, 'w) execution_state \<Rightarrow>
    ('s, 'w) execution_state \<times> (execution_error + execution_outcome)" where
  "xw_execute z sha256 realpath xw env appr candidate st =
     (case canonicalizeActionRequest z realpath candidate of
        Inl err \<Rightarrow> (st, Inl err)
      | Inr q \<Rightarrow> execute_request z sha256 xw env appr q st)"

end
