(* ===== verification/ToolExecution.thy ===== *)
theory ToolExecution
  imports ExecutionWorld
begin

text \<open>
  Tools behind the execution boundary (\<open>packages/runtime/src/tool-execution.ts\<close>,
  \<open>plugin.ts\<close>, \<open>RoutingSandboxProvider\<close> of \<open>platform-sandbox.ts\<close>): the layers a tool call
  must pass, the sandbox it is routed to, and the request made of a call. The tools
  themselves are parameters.
\<close>

section \<open>The permission layers\<close>

record tool_rule =
  tl_toolId :: string
  tl_decision :: decision_kind
  tl_reason :: string

text \<open>\<open>ToolExecutionPluginOptions\<close>, as far as they decide permissions.\<close>

record tool_options =
  to_persistedGrants :: "string list option"
  to_rules :: "tool_rule list"
  to_structureGrants :: "string list option"
  to_hardDenies :: "string list option"
  to_userGrants :: "string list option"
  to_pluginDeclarations :: "string list option"
  to_taskScope :: "string list option"

definition tool_capability :: "string \<Rightarrow> string" where
  "tool_capability toolId = ''tool:'' @ toolId"

definition capability_rules :: "decision_kind \<Rightarrow> string \<Rightarrow> string list \<Rightarrow> capability_rule list" where
  "capability_rules d reason capabilities =
     map (\<lambda>c. \<lparr>cp_capability = c, cp_decision = d, cp_reason = reason\<rparr>) capabilities"

text \<open>A layer that lists capabilities, by default those of all enabled tools.\<close>

definition listed_layer :: "string \<Rightarrow> string list option \<Rightarrow> tool_rule list \<Rightarrow> permission_layer" where
  "listed_layer lid configured rules =
     \<lparr>py_id = lid, py_rules = capability_rules Allow (lid @ '' includes the enabled tool'')
        (coalesce configured (map (\<lambda>r. tool_capability (tl_toolId r)) rules))\<rparr>"

definition tool_layers :: "tool_options \<Rightarrow> permission_layer list" where
  "tool_layers opts =
     [\<lparr>py_id = ''hard-safety'', py_rules =
         capability_rules Deny ''Capability is blocked by immutable hard safety'' (coalesce (to_hardDenies opts) []) @
         capability_rules Allow ''No immutable hard deny matched'' [''*'']\<rparr>,
      \<lparr>py_id = ''structure-grant'', py_rules =
         capability_rules Allow ''Capability is granted by the active Structure'' (coalesce (to_structureGrants opts) [])\<rparr>,
      listed_layer ''user-grant'' (to_userGrants opts) (to_rules opts),
      listed_layer ''plugin-declaration'' (to_pluginDeclarations opts) (to_rules opts),
      listed_layer ''task-scope'' (to_taskScope opts) (to_rules opts),
      \<lparr>py_id = ''bee-policy'', py_rules = map (\<lambda>r. \<lparr>cp_capability = tool_capability (tl_toolId r),
         cp_decision = tl_decision r, cp_reason = tl_reason r\<rparr>) (to_rules opts)\<rparr>]"

lemma tool_layers_accepted: "newIntersection (tool_layers opts) = Inr (tool_layers opts)"
  by (simp add: newIntersection_def tool_layers_def listed_layer_def)

definition tool_policy :: "tool_options \<Rightarrow> policy" where
  "tool_policy opts =
     (let p = intersection_policy (tool_layers opts)
      in case to_persistedGrants opts of
        None \<Rightarrow> p
      | Some grants \<Rightarrow> grant_policy (pl_authorize p) (intersection_snapshot (tool_layers opts)) grants)"

section \<open>The sandboxes\<close>

text \<open>\<open>RoutingSandboxProvider\<close> over two providers, the first for the requests selected.\<close>

definition routing_sandbox :: "(action_request \<Rightarrow> bool) \<Rightarrow> 'w sandbox \<Rightarrow> 'w sandbox \<Rightarrow> 'w sandbox" where
  "routing_sandbox select a b = (let provider = (\<lambda>t. if t then a else b) in
     \<lparr>sb_execute = (\<lambda>q. sb_execute (provider (select q)) q),
      sb_snapshot = (\<lambda>q w. case sb_snapshot (provider (select q)) q w of
         (w', Inl m) \<Rightarrow> (w', Inl m)
       | (w', Inr s) \<Rightarrow> (w', Inr (s\<lparr>ws_owners := select q # ws_owners s\<rparr>))),
      sb_diff = (\<lambda>x y w. case (ws_owners x, ws_owners y) of
         (t # ts, t' # ts') \<Rightarrow>
           if t \<noteq> t' then (w, Inl ''Sandbox snapshots do not belong to the same provider'')
           else sb_diff (provider t) (x\<lparr>ws_owners := ts\<rparr>) (y\<lparr>ws_owners := ts'\<rparr>) w
       | _ \<Rightarrow> (w, Inl ''Sandbox snapshots do not belong to the same provider'')),
      sb_capabilities = (\<lambda>q. sb_capabilities (provider (select q)) q)\<rparr>)"

definition requiresOsBoundary :: "action_request \<Rightarrow> bool" where
  "requiresOsBoundary q \<longleftrightarrow> (let r = aq_requirements q
     in rr_commands r \<noteq> [] \<or> rr_readPaths r \<noteq> [] \<or> rr_writePaths r \<noteq> [] \<or>
        rr_networkTargets r \<noteq> [] \<or> rr_secretEnv r \<noteq> [])"

record llm_tool_call =
  tc_callId :: string
  tc_toolId :: string
  tc_input :: json
  tc_inputError :: "string option"

record tool_descriptor =
  tde_capability :: string
  tde_requirements :: resource_requirements
  tde_expectedEffects :: "string list"
  tde_verification :: "string list"

record tool_execution_call =
  te_call :: llm_tool_call
  te_threadId :: string
  te_turnId :: string
  te_itemId :: string
  te_structureVersion :: "string option"

datatype tool_concurrency = Parallel | Exclusive

record 'w tool_executor =
  tx_describe :: "llm_tool_call \<Rightarrow> tool_descriptor"
  tx_execute :: "tool_execution_call \<Rightarrow> 'w \<Rightarrow> 'w \<times> (string + action_result)"
  tx_present :: "(action_result \<Rightarrow> llm_tool_call \<Rightarrow> action_result) option"
  tx_concurrency :: "(llm_tool_call \<Rightarrow> tool_concurrency) option"

text \<open>The call as it travels in the input of the request, and back out of it.\<close>

definition call_json :: "llm_tool_call \<Rightarrow> json" where
  "call_json c = JObj [(''call'', JObj ([(''callId'', JStr (tc_callId c)), (''toolId'', JStr (tc_toolId c)),
     (''input'', tc_input c)] @ opt_member ''inputError'' JStr (tc_inputError c)))]"

definition call_of_input :: "json \<Rightarrow> llm_tool_call option" where
  "call_of_input v = (case v of
     JObj [(k, JObj ((a, JStr callId) # (b, JStr toolId) # (c, input) # rest))] \<Rightarrow>
       if k = ''call'' \<and> a = ''callId'' \<and> b = ''toolId'' \<and> c = ''input''
       then Some \<lparr>tc_callId = callId, tc_toolId = toolId, tc_input = input,
         tc_inputError = (case rest of [(d, JStr m)] \<Rightarrow> Some m | _ \<Rightarrow> None)\<rparr> else None
   | _ \<Rightarrow> None)"

lemma call_roundtrip [simp]: "call_of_input (call_json c) = Some c"
  by (cases "tc_inputError c") (simp_all add: call_of_input_def call_json_def opt_member_def)

text \<open>
  \<open>InProcessToolSandbox\<close>; \<open>now\<close> is the clock its snapshots read. The code casts the input;
  a request that is not a tool call makes the cast value undefined, and the executor throw.
\<close>

definition in_process_sandbox :: "string \<Rightarrow> string \<Rightarrow> 'w tool_executor \<Rightarrow> 'w sandbox" where
  "in_process_sandbox millis now ex =
     \<lparr>sb_execute = (\<lambda>q secrets w. case call_of_input (aq_input q) of
        None \<Rightarrow> (w, Inl ''Cannot read properties of undefined'')
      | Some c \<Rightarrow> tx_execute ex \<lparr>te_call = c, te_threadId = aq_threadId q, te_turnId = aq_turnId q,
          te_itemId = coalesce (aq_itemId q) (aq_id q), te_structureVersion = aq_structureVersion q\<rparr> w),
      sb_snapshot = (\<lambda>q w. (w, Inr \<lparr>ws_ref = ''in-process:'' @ aq_turnId q @ '':'' @ millis,
         ws_capturedAt = now, ws_state = None, ws_owners = []\<rparr>)),
      sb_diff = (\<lambda>a b w. (w, Inr (JObj [(''kind'', JStr ''executor-reported'')]))),
      sb_capabilities = (\<lambda>q w. (w, Inr \<lparr>cr_provider = ''in-process-tool'', cr_filesystemIsolation = False,
         cr_networkIsolation = False, cr_processIsolation = False\<rparr>))\<rparr>"

text \<open>What the plugin builds: the logical sandbox, or both behind a router.\<close>

definition tool_sandbox :: "'w sandbox option \<Rightarrow> 'w sandbox \<Rightarrow> 'w sandbox" where
  "tool_sandbox os logical = (case os of
     None \<Rightarrow> logical
   | Some sb \<Rightarrow> routing_sandbox requiresOsBoundary sb logical)"

section \<open>A tool call as an action\<close>

definition action_of_call :: "tool_descriptor \<Rightarrow> tool_execution_call \<Rightarrow> action_request" where
  "action_of_call d i = \<lparr>aq_id = te_itemId i,
     aq_idempotencyKey = ''tool:'' @ te_turnId i @ '':'' @ tc_callId (te_call i),
     aq_capability = tde_capability d, aq_subject = \<lparr>actor_type = AgentActor, actor_id = ''bee''\<rparr>,
     aq_input = call_json (te_call i), aq_requirements = tde_requirements d,
     aq_expectedEffects = tde_expectedEffects d, aq_verification = tde_verification d,
     aq_threadId = te_threadId i, aq_turnId = te_turnId i, aq_itemId = Some (te_itemId i),
     aq_structureVersion = te_structureVersion i\<rparr>"

datatype tool_outcome =
    ToolResult action_result
  | ToolApprovalRequired string string string

definition refused_result :: "string \<Rightarrow> action_result" where
  "refused_result reason = failed_result reason"

text \<open>\<open>ToolExecutionService.execute\<close>: refusals become results the model can read.\<close>

definition tool_execute :: "zod \<Rightarrow> (string \<Rightarrow> string) \<Rightarrow> (string \<Rightarrow> realpath_result) \<Rightarrow>
    ('s, 'w) execution_world \<Rightarrow> 'w tool_executor \<Rightarrow> env \<Rightarrow> approval option \<Rightarrow> tool_execution_call \<Rightarrow>
    ('s, 'w) execution_state \<Rightarrow> ('s, 'w) execution_state \<times> (execution_error + tool_outcome)" where
  "tool_execute z sha256 realpath xw ex env appr i st =
     (case xw_execute z sha256 realpath xw env appr (action_of_call (tx_describe ex (te_call i)) i) st of
        (st', Inl err) \<Rightarrow> (st', Inl err)
      | (st', Inr out) \<Rightarrow> (st', Inr (case out of
            ResultOutcome r replayed \<Rightarrow>
              ToolResult (case tx_present ex of None \<Rightarrow> r | Some f \<Rightarrow> f r (te_call i))
          | ApprovalRequired aid title detail \<Rightarrow> ToolApprovalRequired aid title detail
          | Denied reason \<Rightarrow> ToolResult (refused_result reason)
          | ReconciliationRequired reason \<Rightarrow> ToolResult (refused_result reason))))"

definition tool_concurrency_of :: "'w tool_executor \<Rightarrow> llm_tool_call \<Rightarrow> tool_concurrency" where
  "tool_concurrency_of ex c = (case tx_concurrency ex of None \<Rightarrow> Exclusive | Some f \<Rightarrow> f c)"

end
