(* ===== verification/ExecutionLog.thy ===== *)
theory ExecutionLog
  imports ExecutionWorld
begin

text \<open>
  What a call of \<open>execute\<close> does to the log and to the world. To count the runs, the world is
  paired with the list of the requests the sandbox was asked to execute; the recording
  sandbox and broker behave on the first component as the given ones.
\<close>

section \<open>Recording\<close>

definition lift_world :: "('w \<Rightarrow> 'w \<times> 'r) \<Rightarrow> 'w \<times> action_request list \<Rightarrow> ('w \<times> action_request list) \<times> 'r" where
  "lift_world f x = (case f (fst x) of (w, r) \<Rightarrow> ((w, snd x), r))"

lemma lift_world_log [simp]: "snd (fst (lift_world f x)) = snd x"
  by (simp add: lift_world_def split: prod.split)

definition recording :: "'w sandbox \<Rightarrow> ('w \<times> action_request list) sandbox" where
  "recording sb =
     \<lparr>sb_execute = (\<lambda>q secrets x. case sb_execute sb q secrets (fst x) of
        (w, r) \<Rightarrow> ((w, snd x @ [q]), r)),
      sb_snapshot = (\<lambda>q. lift_world (sb_snapshot sb q)),
      sb_diff = (\<lambda>a b. lift_world (sb_diff sb a b)),
      sb_capabilities = (\<lambda>q. lift_world (sb_capabilities sb q))\<rparr>"

definition recording_broker :: "'w broker \<Rightarrow> ('w \<times> action_request list) broker" where
  "recording_broker b =
     \<lparr>bk_materialize = (\<lambda>refs q. lift_world (bk_materialize b refs q)),
      bk_redact = bk_redact b,
      bk_release = (\<lambda>refs q. lift_world (bk_release b refs q))\<rparr>"

definition observed :: "('s, 'w) execution_world \<Rightarrow> ('s, 'w \<times> action_request list) execution_world" where
  "observed xw = \<lparr>xw_ops = xw_ops xw, xw_policy = xw_policy xw, xw_sandbox = recording (xw_sandbox xw),
     xw_secrets = map_option recording_broker (xw_secrets xw)\<rparr>"

lemma observed_sel [simp]:
  "xw_ops (observed xw) = xw_ops xw"
  "xw_policy (observed xw) = xw_policy xw"
  "xw_sandbox (observed xw) = recording (xw_sandbox xw)"
  "xw_secrets (observed xw) = map_option recording_broker (xw_secrets xw)"
  by (simp_all add: observed_def)

abbreviation runs :: "('s, 'w \<times> action_request list) execution_state \<Rightarrow> action_request list" where
  "runs st \<equiv> snd (xs_world st)"

lemma lifted_log: "lift_world f x = (x', r) \<Longrightarrow> snd x' = snd x"
  using lift_world_log [of f x] by simp

lemma materialize_log:
  "materialize_secrets (map_option recording_broker b) q x = (x', r) \<Longrightarrow> snd x' = snd x"
  by (cases b) (auto simp: materialize_secrets_def recording_broker_def dest: lifted_log)

lemma run_in_sandbox_log:
  assumes "run_in_sandbox (recording sb) (map_option recording_broker b) q x = (x', r)"
  shows "snd x' = snd x \<or> snd x' = snd x @ [q]"
proof -
  let ?sb = "recording sb" and ?b = "map_option recording_broker b"
  have snap: "snd y' = snd y" if "sb_snapshot ?sb q y = (y', r')" for y y' r'
    using that by (auto simp: recording_def dest: lifted_log)
  have diff: "snd y' = snd y" if "sb_diff ?sb a c y = (y', r')" for a c y y' r'
    using that by (auto simp: recording_def dest: lifted_log)
  have exec: "snd y' = snd y @ [q]" if "sb_execute ?sb q secrets y = (y', r')" for secrets y y' r'
    using that by (auto simp: recording_def split: prod.splits)
  show ?thesis
    using assms unfolding run_in_sandbox_def
    by (auto split: prod.splits sum.splits dest!: materialize_log snap diff exec)
qed

lemma x_append_world: "xs_world (fst (x_append ops now sid evs st)) = xs_world st"
  by (auto simp: x_append_def split: prod.splits sum.splits)

lemma x_append_worldD: "x_append ops now sid evs st = (st', r) \<Longrightarrow> xs_world st' = xs_world st"
  using x_append_world [of ops now sid evs st] by simp

lemma run_failed_world: "xs_world (fst (run_failed xw env sid q m st)) = xs_world st"
  by (auto simp: run_failed_def Let_def split: prod.splits option.splits dest: x_append_worldD)

lemma release_log:
  "release_secrets (map_option recording_broker b) q res = (st', r) \<Longrightarrow> runs st' = runs (fst res)"
  by (cases b) (auto simp: release_secrets_def recording_broker_def split: prod.splits option.splits
      dest!: lifted_log)

lemma release_store: "release_secrets b q res = (st', r) \<Longrightarrow> xs_store st' = xs_store (fst res)"
  by (auto simp: release_secrets_def split: prod.splits option.splits)

lemma release_outcome:
  "release_secrets b q res = (st', Inr out) \<Longrightarrow> snd res = Inr out"
  by (auto simp: release_secrets_def split: prod.splits option.splits)

section \<open>A call with no assumption on the store\<close>

lemma run_try_log:
  "runs (fst (run_try (observed xw) env sid q st)) = runs st \<or>
   runs (fst (run_try (observed xw) env sid q st)) = runs st @ [q]"
proof -
  obtain x res where run: "run_in_sandbox (recording (xw_sandbox xw))
      (map_option recording_broker (xw_secrets xw)) q (xs_world st) = (x, res)" by fastforce
  have "xs_world (fst (run_try (observed xw) env sid q st)) = x"
  proof (cases res)
    case (Inl m)
    with run show ?thesis by (simp add: run_try_def run_failed_world)
  next
    case (Inr r)
    with run show ?thesis
      by (auto simp: run_try_def run_failed_world split: prod.split option.split dest!: x_append_worldD)
  qed
  with run_in_sandbox_log [OF run] show ?thesis by simp
qed

lemma run_action_log:
  assumes "run_action (observed xw) env sid q reason st = (st', r)"
  shows "runs st' = runs st \<or> runs st' = runs st @ [q]"
proof -
  obtain st1 e where app: "x_append (xw_ops xw) (env_now env 8) sid
      [event_at env 2 q (XAuthorizedP (aq_id q) \<lparr>dc_decision = Allow, dc_reason = reason\<rparr>),
       event_at env 3 q (XStartedP (aq_id q))] st = (st1, e)" by fastforce
  note w1 = x_append_worldD [OF app]
  show ?thesis
  proof (cases e)
    case (Some err)
    with assms app w1 show ?thesis by (simp add: run_action_def)
  next
    case None
    with assms app have "release_secrets (map_option recording_broker (xw_secrets xw)) q
        (run_try (observed xw) env sid q st1) = (st', r)" by (simp add: run_action_def)
    then have "runs st' = runs (fst (run_try (observed xw) env sid q st1))" by (rule release_log)
    with run_try_log [of xw env sid q st1] w1 show ?thesis by simp
  qed
qed

text \<open>Only a verdict to run reaches the sandbox.\<close>

lemma execute_authorized_log:
  assumes "execute_authorized (observed xw) env sid appr q existing st = (st', r)"
  shows "runs st' = runs st \<or> (runs st' = runs st @ [q] \<and> (\<exists>w c reason.
    sb_capabilities (xw_sandbox xw) q (fst (xs_world st)) = (w, Inr c) \<and>
    verdict_of (policy_decision (xw_policy xw) q) c (xw_secrets xw \<noteq> None) appr q = VRun reason))"
proof -
  obtain x cr where cap: "sb_capabilities (recording (xw_sandbox xw)) q (xs_world st) = (x, cr)" by fastforce
  then have cap': "fst (sb_capabilities (xw_sandbox xw) q (fst (xs_world st))) = fst x"
    "snd (sb_capabilities (xw_sandbox xw) q (fst (xs_world st))) = cr" and x: "snd x = runs st"
    by (auto simp: recording_def lift_world_def split: prod.splits)
  show ?thesis
  proof (cases cr)
    case (Inl m)
    with assms cap x show ?thesis by (auto simp: execute_authorized_def)
  next
    case (Inr c)
    let ?app = "if logged ''execution.permission_snapshot'' existing then (st\<lparr>xs_world := x\<rparr>, None)
      else x_append (xw_ops xw) (env_now env 7) sid
        [event_at env 1 q (XSnapshotP (aq_id q) (permission_snapshot_of (xw_policy xw) q c))] (st\<lparr>xs_world := x\<rparr>)"
    obtain st2 e where app: "?app = (st2, e)" by fastforce
    then have w2: "xs_world st2 = x" by (auto split: if_splits dest: x_append_worldD)
    have none: "map_option recording_broker (xw_secrets xw) \<noteq> None \<longleftrightarrow> xw_secrets xw \<noteq> None" by simp
    note ex = assms [unfolded execute_authorized_def observed_sel cap prod.case Inr sum.case Let_def app none]
    show ?thesis
    proof (cases e)
      case (Some err)
      with ex w2 x show ?thesis by simp
    next
      case None
      show ?thesis
      proof (cases "verdict_of (policy_decision (xw_policy xw) q) c (xw_secrets xw \<noteq> None) appr q")
        case (VDeny reason)
        with ex None w2 x show ?thesis
          by (auto simp: deny_action_def split: prod.splits option.splits dest!: x_append_worldD)
      next
        case VAsk
        with ex None w2 x show ?thesis
          by (auto simp: ask_approval_def Let_def split: prod.splits option.splits if_splits dest!: x_append_worldD)
      next
        case (VRun reason)
        with ex None have "run_action (observed xw) env sid q reason st2 = (st', r)" by simp
        from run_action_log [OF this] w2 x VRun cap' Inr show ?thesis by (auto simp: prod_eq_iff)
      qed
    qed
  qed
qed

lemma execute_request_log:
  assumes "execute_request z sha256 (observed xw) env appr q st = (st', r)"
  shows "runs st' = runs st \<or> (runs st' = runs st @ [q] \<and> (\<exists>w c reason.
    sb_capabilities (xw_sandbox xw) q (fst (xs_world st)) = (w, Inr c) \<and>
    verdict_of (policy_decision (xw_policy xw) q) c (xw_secrets xw \<noteq> None) appr q = VRun reason))"
  using assms unfolding execute_request_def Let_def
  by (auto split: prod.splits option.splits sum.splits if_splits
      dest!: execute_authorized_log x_append_worldD)

section \<open>A call on a Chronicle\<close>

lemma executionStreamId_nonempty [simp]: "executionStreamId sha256 k \<noteq> []"
  by (simp add: executionStreamId_def)

lemma logged_append [simp]: "logged et (xs @ ys) \<longleftrightarrow> logged et xs \<or> logged et ys"
  by (simp add: logged_def)

lemma logged_prefix: "prefix xs ys \<Longrightarrow> logged et xs \<Longrightarrow> logged et ys"
  by (auto simp: prefix_def)

lemma logged_find: "logged et es \<longleftrightarrow> find_type et es \<noteq> None"
  by (auto simp: logged_def find_type_def find_None_iff list_ex_iff)

lemma logged_Cons [simp]: "logged et (e # es) \<longleftrightarrow> ev_type e = et \<or> logged et es"
  "\<not> logged et []"
  by (simp_all add: logged_def)

text \<open>\<open>sid\<close>'s stream is only extended, the others are left alone.\<close>

definition extends :: "string \<Rightarrow> payload streams \<Rightarrow> payload streams \<Rightarrow> bool" where
  "extends sid v v' \<longleftrightarrow> (\<exists>es. v' = v(sid := v sid @ es))"

lemma extends_refl [simp]: "extends sid v v"
  unfolding extends_def by (rule exI [of _ "[]"]) simp

lemma extends_upd [simp]: "extends sid v (v(sid := v sid @ es))"
  unfolding extends_def by blast

lemma extends_trans [trans]: "extends sid u v \<Longrightarrow> extends sid v w \<Longrightarrow> extends sid u w"
  by (auto simp: extends_def)

lemma extends_prefix: "extends sid v v' \<Longrightarrow> prefix (v s) (v' s)"
  by (auto simp: extends_def)

lemma find_type_append:
  "find_type et (xs @ ys) = (case find_type et xs of Some e \<Rightarrow> Some e | None \<Rightarrow> find_type et ys)"
  by (induction xs) (simp_all add: find_type_def)

lemma find_type_Cons: "find_type et (e # es) = (if ev_type e = et then Some e else find_type et es)"
  "find_type et [] = None"
  by (simp_all add: find_type_def)

lemma find_type_extends:
  "extends sid v v' \<Longrightarrow> find_type et (v s) = Some e \<Longrightarrow> find_type et (v' s) = Some e"
  by (auto simp: extends_def find_type_append)

definition result_on_record :: "payload chronicle_event list \<Rightarrow> action_result \<Rightarrow> bool" where
  "result_on_record es r \<longleftrightarrow>
     (case find_type ''execution.completed'' es of
        None \<Rightarrow> ar_isError r = Some True
      | Some e \<Rightarrow> (case ev_payload e of ExecutionP (XCompletedP _ r') \<Rightarrow> r' = r | _ \<Rightarrow> False))"

lemma started_answers:
  assumes "logged ''execution.started'' es"
  shows "logged_answer digest q es requested \<noteq> Inr None"
  using assms unfolding logged_answer_def
  by (auto split: payload.splits execution_payload.splits option.splits if_splits)

context host_chronicle
begin

lemma x_append_view:
  assumes "inv (xs_store st)" and "z_datetime z now" and "sid \<noteq> []" and "evs \<noteq> []"
    and "x_append ops now sid evs st = (st', r)"
  shows "inv (xs_store st') \<and> extends sid (view (xs_store st)) (view (xs_store st')) \<and>
    (case r of
       None \<Rightarrow> view (xs_store st') sid = view (xs_store st) sid @
         stamp sid now (int (length (view (xs_store st) sid)) + 1) evs
     | Some err \<Rightarrow> view (xs_store st') = view (xs_store st))"
proof -
  let ?s = "xs_store st"
  obtain s' res where app: "op_append ops now sid evs (int (length (view ?s sid)) + 1) ?s = (s', res)"
    by fastforce
  have "inv s'" using append_refines [OF assms(1-3) app] by simp
  with append_next [OF assms(1-4) app] app assms(4,5) latest_view [OF assms(1), of sid]
  show ?thesis by (auto simp: x_append_def split: sum.splits)
qed

text \<open>Everything after the head of the method only extends the stream.\<close>

lemma x_append_grows:
  assumes "inv (xs_store st)" and "z_datetime z now" and "sid \<noteq> []" and "x_append ops now sid evs st = (st', r)"
  shows "inv (xs_store st') \<and> extends sid (view (xs_store st)) (view (xs_store st'))"
proof (cases "evs = []")
  case True
  with assms show ?thesis by (simp add: x_append_def)
next
  case False
  from x_append_view [OF assms(1-3) this assms(4)] show ?thesis by blast
qed

lemma run_failed_grows:
  assumes "inv (xs_store st)" and "clock_ok z env" and "sid \<noteq> []" and "xw_ops xw = ops"
    and "run_failed xw env sid q m st = (st', r)"
  shows "inv (xs_store st') \<and> extends sid (view (xs_store st)) (view (xs_store st'))"
  using assms(5) unfolding run_failed_def Let_def assms(4)
  by (auto split: prod.splits option.splits dest: x_append_grows [OF assms(1) clock_okD [OF assms(2)] assms(3)])

lemma run_try_grows:
  assumes "inv (xs_store st)" and "clock_ok z env" and "sid \<noteq> []" and "xw_ops xw = ops"
    and "run_try xw env sid q st = (st', r)"
  shows "inv (xs_store st') \<and> extends sid (view (xs_store st)) (view (xs_store st'))"
proof -
  obtain w res where run: "run_in_sandbox (xw_sandbox xw) (xw_secrets xw) q (xs_world st) = (w, res)" by fastforce
  let ?st = "st\<lparr>xs_world := w\<rparr>"
  have inv: "inv (xs_store ?st)" using assms(1) by simp
  show ?thesis
  proof (cases res)
    case (Inl m)
    with assms(5) run have "run_failed xw env sid q m ?st = (st', r)" by (simp add: run_try_def)
    from run_failed_grows [OF inv assms(2-4) this] show ?thesis by simp
  next
    case (Inr res')
    obtain st2 e where app: "x_append ops (env_now env 9) sid [event_at env 4 q (XCompletedP (aq_id q) res')] ?st = (st2, e)"
      by fastforce
    from x_append_grows [OF inv clock_okD [OF assms(2)] assms(3) app]
    have st2: "inv (xs_store st2)" "extends sid (view (xs_store st)) (view (xs_store st2))" by simp_all
    show ?thesis
    proof (cases e)
      case None
      with assms(4,5) run Inr app st2 show ?thesis by (simp add: run_try_def)
    next
      case (Some err)
      with assms(4,5) run Inr app have "run_failed xw env sid q (chronicle_message err) st2 = (st', r)"
        by (simp add: run_try_def)
      from run_failed_grows [OF st2(1) assms(2-4) this] st2(2) show ?thesis by (auto intro: extends_trans)
    qed
  qed
qed

text \<open>A run has logged that it started.\<close>

lemma run_action_grows:
  assumes "inv (xs_store st)" and "clock_ok z env" and "sid \<noteq> []" and "xw_ops xw = ops"
    and "run_action xw env sid q reason st = (st', r)"
  shows "inv (xs_store st') \<and> extends sid (view (xs_store st)) (view (xs_store st')) \<and>
    (logged ''execution.started'' (view (xs_store st') sid) \<or> xs_world st' = xs_world st)"
proof -
  let ?evs = "[event_at env 2 q (XAuthorizedP (aq_id q) \<lparr>dc_decision = Allow, dc_reason = reason\<rparr>),
     event_at env 3 q (XStartedP (aq_id q))]"
  obtain st1 e where app: "x_append ops (env_now env 8) sid ?evs st = (st1, e)" by fastforce
  have "?evs \<noteq> []" by simp
  note v1 = x_append_view [OF assms(1) clock_okD [OF assms(2)] assms(3) this app]
  show ?thesis
  proof (cases e)
    case (Some err)
    with assms(4,5) app v1 x_append_worldD [OF app] show ?thesis by (auto simp: run_action_def)
  next
    case None
    with v1 have started: "logged ''execution.started'' (view (xs_store st1) sid)" by simp
    obtain st2 r2 where tr: "run_try xw env sid q st1 = (st2, r2)" by fastforce
    from None assms(4,5) app tr have rel: "release_secrets (xw_secrets xw) q (st2, r2) = (st', r)"
      by (simp add: run_action_def)
    from run_try_grows [OF _ assms(2-4) tr] v1
    have "inv (xs_store st2)" and ext: "extends sid (view (xs_store st1)) (view (xs_store st2))" by simp_all
    moreover have "logged ''execution.started'' (view (xs_store st2) sid)"
      using logged_prefix [OF extends_prefix [OF ext] started] .
    moreover have "extends sid (view (xs_store st)) (view (xs_store st2))"
      using v1 ext by (auto intro: extends_trans)
    ultimately show ?thesis using release_store [OF rel] by simp
  qed
qed

lemma execute_authorized_grows:
  assumes "inv (xs_store st)" and "clock_ok z env" and "sid \<noteq> []" and "xw_ops xw = ops"
    and "execute_authorized (observed xw) env sid appr q existing st = (st', r)"
  shows "inv (xs_store st') \<and> extends sid (view (xs_store st)) (view (xs_store st')) \<and>
    (logged ''execution.started'' (view (xs_store st') sid) \<or> runs st' = runs st)"
proof -
  obtain x cr where cap: "sb_capabilities (recording (xw_sandbox xw)) q (xs_world st) = (x, cr)" by fastforce
  then have x: "snd x = runs st" by (auto simp: recording_def dest: lifted_log)
  let ?st = "st\<lparr>xs_world := x\<rparr>"
  show ?thesis
  proof (cases cr)
    case (Inl m)
    with assms(1,5) cap x show ?thesis by (auto simp: execute_authorized_def)
  next
    case (Inr c)
    let ?app = "if logged ''execution.permission_snapshot'' existing then (?st, None)
      else x_append ops (env_now env 7) sid
        [event_at env 1 q (XSnapshotP (aq_id q) (permission_snapshot_of (xw_policy xw) q c))] ?st"
    obtain st2 e where app: "?app = (st2, e)" by fastforce
    have w2: "xs_world st2 = x" using app by (auto split: if_splits dest: x_append_worldD)
    have g2: "inv (xs_store st2)" "extends sid (view (xs_store st)) (view (xs_store st2))"
      using app assms(1) x_append_grows [of ?st, OF _ clock_okD [OF assms(2)] assms(3)]
      by (auto split: if_splits)
    note ex = assms(5) [unfolded execute_authorized_def observed_sel cap prod.case Inr sum.case Let_def
        assms(4) app]
    let ?v = "verdict_of (policy_decision (xw_policy xw) q) c (map_option recording_broker (xw_secrets xw) \<noteq> None) appr q"
    have ops': "xw_ops (observed xw) = ops" using assms(4) by simp
    show ?thesis
    proof (cases e)
      case (Some err)
      with ex g2 w2 x show ?thesis by auto
    next
      case None
      note ex' = ex [unfolded None prod.case option.case]
      have more: "inv (xs_store st3) \<and> extends sid (view (xs_store st)) (view (xs_store st3)) \<and> xs_world st3 = x"
        if "x_append ops (env_now env k) sid evs st2 = (st3, e3)" for k evs st3 e3
        using x_append_grows [OF g2(1) clock_okD [OF assms(2)] assms(3) that] g2(2) x_append_worldD [OF that] w2
        by (auto intro: extends_trans)
      show ?thesis
      proof (cases ?v)
        case (VDeny reason)
        with ex' have "deny_action (observed xw) env sid q reason st2 = (st', r)" by simp
        with w2 x show ?thesis
          by (auto simp: deny_action_def assms(4) split: prod.splits option.splits dest!: more)
      next
        case VAsk
        with ex' have "ask_approval (observed xw) env sid q existing st2 = (st', r)" by simp
        with w2 x g2 show ?thesis
          by (auto simp: ask_approval_def assms(4) Let_def split: prod.splits option.splits if_splits
              dest!: more)
      next
        case (VRun reason)
        with ex' have "run_action (observed xw) env sid q reason st2 = (st', r)" by simp
        from run_action_grows [OF g2(1) assms(2,3) ops' this] g2(2) w2 x show ?thesis
          by (auto intro: extends_trans)
      qed
    qed
  qed
qed

text \<open>What a run leaves in the log under \<open>execution.completed\<close>: its result, or nothing.\<close>

lemma run_failed_completed:
  assumes "inv (xs_store st)" and "clock_ok z env" and "sid \<noteq> []" and "xw_ops xw = ops"
    and "run_failed xw env sid q m st = (st', r)"
  shows "find_type ''execution.completed'' (view (xs_store st') sid) =
    find_type ''execution.completed'' (view (xs_store st) sid)"
proof -
  let ?evs = "[event_at env 5 q (XFailedP (aq_id q) (if redact_message (xw_secrets xw) m = []
    then ''Unknown execution failure'' else redact_message (xw_secrets xw) m))]"
  obtain st1 e where app: "x_append ops (env_now env 10) sid ?evs st = (st1, e)" by fastforce
  then have "st1 = st'" using assms(5) by (cases e) (simp_all add: run_failed_def Let_def assms(4))
  moreover have "?evs \<noteq> []" by simp
  note x_append_view [OF assms(1) clock_okD [OF assms(2)] assms(3) this app]
  ultimately show ?thesis by (cases e) (simp_all add: find_type_append find_type_Cons split: option.split)
qed

lemma run_failed_result:
  "run_failed xw env sid q m st = (st', Inr (ResultOutcome r b)) \<Longrightarrow> ar_isError r = Some True"
  by (auto simp: run_failed_def Let_def failed_result_def split: prod.splits option.splits)

lemma run_try_completed:
  assumes "inv (xs_store st)" and "clock_ok z env" and "sid \<noteq> []" and "xw_ops xw = ops"
    and "run_try xw env sid q st = (st', Inr (ResultOutcome r False))"
    and "find_type ''execution.completed'' (view (xs_store st) sid) = None"
  shows "result_on_record (view (xs_store st') sid) r"
proof -
  obtain w res where run: "run_in_sandbox (xw_sandbox xw) (xw_secrets xw) q (xs_world st) = (w, res)" by fastforce
  let ?st = "st\<lparr>xs_world := w\<rparr>"
  have inv: "inv (xs_store ?st)" using assms(1) by simp
  show ?thesis
  proof (cases res)
    case (Inl m)
    with assms(5) run have "run_failed xw env sid q m ?st = (st', Inr (ResultOutcome r False))" by (simp add: run_try_def)
    from run_failed_completed [OF inv assms(2-4) this] run_failed_result [OF this] assms(6)
    show ?thesis by (simp add: result_on_record_def)
  next
    case (Inr res')
    let ?evs = "[event_at env 4 q (XCompletedP (aq_id q) res')]"
    obtain st2 e where app: "x_append ops (env_now env 9) sid ?evs ?st = (st2, e)" by fastforce
    have "?evs \<noteq> []" by simp
    note v2 = x_append_view [OF inv clock_okD [OF assms(2)] assms(3) this app]
    show ?thesis
    proof (cases e)
      case None
      with assms(4,5) run Inr app have "st' = st2" "r = res'" by (simp_all add: run_try_def)
      with v2 None assms(6) show ?thesis
        by (simp add: result_on_record_def find_type_append find_type_Cons)
    next
      case (Some err)
      with assms(4,5) run Inr app have "run_failed xw env sid q (chronicle_message err) st2 = (st', Inr (ResultOutcome r False))"
        by (simp add: run_try_def)
      from run_failed_completed [OF _ assms(2-4) this] run_failed_result [OF this] v2 Some assms(6) show ?thesis
        by (simp add: result_on_record_def)
    qed
  qed
qed

lemma run_action_completed:
  assumes "inv (xs_store st)" and "clock_ok z env" and "sid \<noteq> []" and "xw_ops xw = ops"
    and "run_action xw env sid q reason st = (st', Inr (ResultOutcome r False))"
    and "find_type ''execution.completed'' (view (xs_store st) sid) = None"
  shows "result_on_record (view (xs_store st') sid) r \<and> logged ''execution.started'' (view (xs_store st') sid)"
proof -
  let ?evs = "[event_at env 2 q (XAuthorizedP (aq_id q) \<lparr>dc_decision = Allow, dc_reason = reason\<rparr>),
     event_at env 3 q (XStartedP (aq_id q))]"
  obtain st1 e where app: "x_append ops (env_now env 8) sid ?evs st = (st1, e)" by fastforce
  have "?evs \<noteq> []" by simp
  note v1 = x_append_view [OF assms(1) clock_okD [OF assms(2)] assms(3) this app]
  have e: "e = None" using assms(4,5) app by (cases e) (simp_all add: run_action_def)
  obtain st2 r2 where tr: "run_try xw env sid q st1 = (st2, r2)" by fastforce
  from e assms(4,5) app tr
  have rel: "release_secrets (xw_secrets xw) q (st2, r2) = (st', Inr (ResultOutcome r False))"
    by (simp add: run_action_def)
  from release_outcome [OF rel] have r2: "r2 = Inr (ResultOutcome r False)" by simp
  from v1 e assms(6) have "find_type ''execution.completed'' (view (xs_store st1) sid) = None"
    by (simp add: find_type_append find_type_Cons)
  from run_try_completed [OF _ assms(2-4) tr [unfolded r2] this] v1
  have "result_on_record (view (xs_store st2) sid) r" by simp
  moreover have "logged ''execution.started'' (view (xs_store st1) sid)" using v1 e by simp
  then have "logged ''execution.started'' (view (xs_store st2) sid)"
    using run_try_grows [OF _ assms(2-4) tr] v1 by (auto intro: logged_prefix [OF extends_prefix])
  ultimately show ?thesis using release_store [OF rel] by simp
qed

lemma execute_authorized_completed:
  assumes "inv (xs_store st)" and "clock_ok z env" and "sid \<noteq> []" and "xw_ops xw = ops"
    and "execute_authorized xw env sid appr q existing st = (st', Inr (ResultOutcome r False))"
    and "find_type ''execution.completed'' (view (xs_store st) sid) = None"
  shows "result_on_record (view (xs_store st') sid) r \<and> logged ''execution.started'' (view (xs_store st') sid)"
proof -
  obtain w cr where cap: "sb_capabilities (xw_sandbox xw) q (xs_world st) = (w, cr)" by fastforce
  let ?st = "st\<lparr>xs_world := w\<rparr>"
  obtain c where c: "cr = Inr c" using assms(5) cap by (cases cr) (simp_all add: execute_authorized_def)
  let ?evs = "[event_at env 1 q (XSnapshotP (aq_id q) (permission_snapshot_of (xw_policy xw) q c))]"
  let ?app = "if logged ''execution.permission_snapshot'' existing then (?st, None)
    else x_append ops (env_now env 7) sid ?evs ?st"
  obtain st2 e where app: "?app = (st2, e)" by fastforce
  note ex = assms(5) [unfolded execute_authorized_def cap prod.case c sum.case Let_def assms(4) app]
  have e: "e = None" using ex by (cases e) simp_all
  have ne: "?evs \<noteq> []" by simp
  have st2: "inv (xs_store st2) \<and> find_type ''execution.completed'' (view (xs_store st2) sid) = None"
  proof (cases "logged ''execution.permission_snapshot'' existing")
    case True
    with app assms(1,6) show ?thesis by auto
  next
    case False
    with app have "x_append ops (env_now env 7) sid ?evs ?st = (st2, e)" by simp
    from x_append_view [OF _ clock_okD [OF assms(2)] assms(3) ne this] assms(1,6) e show ?thesis
      by (simp add: find_type_append find_type_Cons)
  qed
  from ex e obtain reason where "run_action xw env sid q reason st2 = (st', Inr (ResultOutcome r False))"
    by (auto simp: deny_action_def ask_approval_def Let_def split: verdict.splits prod.splits option.splits if_splits)
  from run_action_completed [OF _ assms(2-4) this] st2 show ?thesis by simp
qed

end

end
