(* ===== verification/ExecutionSafety.thy ===== *)
theory ExecutionSafety
  imports ExecutionLog Samples
begin

text \<open>
  The promises of the execution boundary: an action runs at most once whatever the worlds,
  the restarts and the approvals, it runs only when the policy and the sandbox allow it, and
  what was answered is answered again.
\<close>

section \<open>Histories\<close>

text \<open>
  One call of \<open>execute\<close> by some world (its policy, sandbox and broker) over the one Chronicle.
  A restart or a new structure generation is a call by another world.
\<close>

record ('s, 'w) execution_call =
  xc_world :: "('s, 'w) execution_world"
  xc_env :: env
  xc_approval :: "approval option"
  xc_realpath :: "string \<Rightarrow> realpath_result"
  xc_request :: action_request

definition call_execute :: "zod \<Rightarrow> (string \<Rightarrow> string) \<Rightarrow> ('s, 'w) execution_call \<Rightarrow>
    ('s, 'w \<times> action_request list) execution_state \<Rightarrow> ('s, 'w \<times> action_request list) execution_state" where
  "call_execute z sha256 c st = fst (xw_execute z sha256 (xc_realpath c) (observed (xc_world c))
     (xc_env c) (xc_approval c) (xc_request c) st)"

definition run_calls :: "zod \<Rightarrow> (string \<Rightarrow> string) \<Rightarrow> ('s, 'w) execution_call list \<Rightarrow>
    ('s, 'w \<times> action_request list) execution_state \<Rightarrow> ('s, 'w \<times> action_request list) execution_state" where
  "run_calls z sha256 calls st = fold (call_execute z sha256) calls st"

definition call_ok :: "zod \<Rightarrow> ('s, payload) chronicle_ops \<Rightarrow> ('s, 'w) execution_call \<Rightarrow> bool" where
  "call_ok z ops c \<longleftrightarrow> clock_ok z (xc_env c) \<and> xw_ops (xc_world c) = ops"

text \<open>Every run is on record in its stream, and there is one for each key.\<close>

definition run_logged :: "(string \<Rightarrow> string) \<Rightarrow> payload streams \<Rightarrow> action_request \<Rightarrow> bool" where
  "run_logged sha256 v q \<longleftrightarrow>
     logged ''execution.requested'' (v (executionStreamId sha256 (aq_idempotencyKey q))) \<and>
     logged ''execution.started'' (v (executionStreamId sha256 (aq_idempotencyKey q)))"

definition runs_ok :: "(string \<Rightarrow> string) \<Rightarrow> payload streams \<Rightarrow> action_request list \<Rightarrow> bool" where
  "runs_ok sha256 v log \<longleftrightarrow> distinct (map aq_idempotencyKey log) \<and> list_all (run_logged sha256 v) log"

lemma run_logged_extends:
  "extends sid v v' \<Longrightarrow> run_logged sha256 v q \<Longrightarrow> run_logged sha256 v' q"
  by (auto simp: run_logged_def intro: logged_prefix [OF extends_prefix])

lemma runs_ok_extends:
  "extends sid v v' \<Longrightarrow> runs_ok sha256 v log \<Longrightarrow> runs_ok sha256 v' log"
  by (auto simp: runs_ok_def list_all_iff intro: run_logged_extends)

text \<open>Every stream of a key begins with its request.\<close>

definition opened :: "payload chronicle_event list \<Rightarrow> bool" where
  "opened es \<longleftrightarrow> es = [] \<or> logged ''execution.requested'' es"

definition all_opened :: "(string \<Rightarrow> string) \<Rightarrow> payload streams \<Rightarrow> bool" where
  "all_opened sha256 v \<longleftrightarrow> (\<forall>k. opened (v (executionStreamId sha256 k)))"

lemma all_openedD: "all_opened sha256 v \<Longrightarrow> opened (v (executionStreamId sha256 k))"
  unfolding all_opened_def by blast

lemma all_opened_extends:
  assumes "extends sid v v'" and "v' = v \<or> logged ''execution.requested'' (v' sid)" and "all_opened sha256 v"
  shows "all_opened sha256 v'"
proof -
  have "opened (v' (executionStreamId sha256 k))" for k
    using assms(1,2) all_openedD [OF assms(3), of k]
    by (cases "executionStreamId sha256 k = sid") (auto simp: extends_def opened_def)
  then show ?thesis unfolding all_opened_def by blast
qed

context host_chronicle
begin

lemma execute_request_step:
  assumes "inv (xs_store st)" and "clock_ok z env" and "xw_ops xw = ops"
    and "execute_request z sha256 (observed xw) env appr q st = (st', r)"
    and "sid = executionStreamId sha256 (aq_idempotencyKey q)"
  shows "inv (xs_store st') \<and> extends sid (view (xs_store st)) (view (xs_store st')) \<and>
    (runs st' = runs st \<or> (runs st' = runs st @ [q] \<and> \<not> run_logged sha256 (view (xs_store st)) q \<and>
       run_logged sha256 (view (xs_store st')) q)) \<and>
    (view (xs_store st') = view (xs_store st) \<or> logged ''execution.requested'' (view (xs_store st') sid))"
proof -
  let ?es = "view (xs_store st) sid" and ?digest = "requestDigest sha256 q"
  have sid: "sid \<noteq> []" using assms(5) by simp
  note ex = assms(4) [unfolded execute_request_def Let_def assms(5) [symmetric] observed_sel assms(3)
      read_all [OF assms(1)] prod.case option.case]
  have grows: "inv (xs_store st') \<and> extends sid (view (xs_store st1)) (view (xs_store st')) \<and>
      (logged ''execution.started'' (view (xs_store st') sid) \<or> runs st' = runs st1) \<and>
      (runs st' = runs st1 \<or> runs st' = runs st1 @ [q])"
    if "execute_authorized (observed xw) env sid appr q es st1 = (st', r)" "inv (xs_store st1)" for es st1
    using execute_authorized_grows [OF that(2) assms(2) sid assms(3) that(1)]
      execute_authorized_log [OF that(1)] by blast
  show ?thesis
  proof (cases "find_type ''execution.requested'' ?es")
    case (Some requested)
    then have req: "logged ''execution.requested'' ?es" by (simp add: logged_find)
    show ?thesis
    proof (cases "logged_answer ?digest q ?es requested")
      case (Inl err)
      with ex Some assms(1) show ?thesis by simp
    next
      case (Inr ans)
      show ?thesis
      proof (cases ans)
        case (Some a)
        with ex \<open>find_type _ _ = _\<close> Inr assms(1) show ?thesis by simp
      next
        case None
        with ex Some Inr have au: "execute_authorized (observed xw) env sid appr q ?es st = (st', r)" by simp
        have "\<not> logged ''execution.started'' ?es"
          using started_answers [of ?es ?digest q requested] Inr None by blast
        moreover from grows [OF au assms(1)] have g: "extends sid (view (xs_store st)) (view (xs_store st'))" by blast
        moreover have "logged ''execution.requested'' (view (xs_store st') sid)"
          using logged_prefix [OF extends_prefix [OF g] req] .
        ultimately show ?thesis using grows [OF au assms(1)]
          by (auto simp: run_logged_def assms(5) [symmetric])
      qed
    qed
  next
    case None
    then have req: "\<not> logged ''execution.requested'' ?es" by (simp add: logged_find)
    show ?thesis
    proof (cases "request_ok z q \<and> sha256_digest ?digest")
      case False
      with ex None assms(1) show ?thesis by auto
    next
      case True
      let ?evs = "[event_at env 0 q (XRequestedP q ?digest)]"
      obtain st1 e where app: "x_append ops (env_now env 6) sid ?evs st = (st1, e)" by fastforce
      have "?evs \<noteq> []" by simp
      note v1 = x_append_view [OF assms(1) clock_okD [OF assms(2)] sid this app]
      note w1 = x_append_worldD [OF app]
      show ?thesis
      proof (cases e)
        case (Some err)
        with ex None True app v1 w1 show ?thesis by auto
      next
        case no: None
        with v1 have requested: "logged ''execution.requested'' (view (xs_store st1) sid)" by simp
        from ex None True app no have au: "execute_authorized (observed xw) env sid appr q ?es st1 = (st', r)"
          by simp
        from grows [OF au] v1 have g: "extends sid (view (xs_store st1)) (view (xs_store st'))" by blast
        have "logged ''execution.requested'' (view (xs_store st') sid)"
          using logged_prefix [OF extends_prefix [OF g] requested] .
        with grows [OF au] v1 w1 req extends_trans [OF _ g] show ?thesis
          by (auto simp: run_logged_def assms(5) [symmetric])
      qed
    qed
  qed
qed

lemma call_step:
  assumes "call_ok z ops c" and "inv (xs_store st)" and "runs_ok sha256 (view (xs_store st)) (runs st)"
  shows "inv (xs_store (call_execute z sha256 c st)) \<and>
    runs_ok sha256 (view (xs_store (call_execute z sha256 c st))) (runs (call_execute z sha256 c st)) \<and>
    (all_opened sha256 (view (xs_store st)) \<longrightarrow>
      all_opened sha256 (view (xs_store (call_execute z sha256 c st))))"
proof (cases "canonicalizeActionRequest z (xc_realpath c) (xc_request c)")
  case (Inl err)
  with assms show ?thesis by (simp add: call_execute_def xw_execute_def)
next
  case (Inr q)
  obtain st' r where ex: "execute_request z sha256 (observed (xc_world c)) (xc_env c) (xc_approval c) q st = (st', r)"
    by fastforce
  have st': "call_execute z sha256 c st = st'"
    using Inr ex by (simp add: call_execute_def xw_execute_def)
  from execute_request_step [OF assms(2) _ _ ex refl] assms(1)
  have step: "inv (xs_store st')" "extends (executionStreamId sha256 (aq_idempotencyKey q)) (view (xs_store st)) (view (xs_store st'))"
    "runs st' = runs st \<or> (runs st' = runs st @ [q] \<and> \<not> run_logged sha256 (view (xs_store st)) q \<and>
       run_logged sha256 (view (xs_store st')) q)"
    "view (xs_store st') = view (xs_store st) \<or>
      logged ''execution.requested'' (view (xs_store st') (executionStreamId sha256 (aq_idempotencyKey q)))"
    by (simp_all add: call_ok_def)
  note old = runs_ok_extends [OF step(2) assms(3)]
  have fresh: "aq_idempotencyKey q \<notin> aq_idempotencyKey ` set (runs st)" if "\<not> run_logged sha256 (view (xs_store st)) q"
    using that assms(3) by (auto simp: runs_ok_def list_all_iff run_logged_def)
  have "runs_ok sha256 (view (xs_store st')) (runs st')"
    using step(3) old fresh by (auto simp: runs_ok_def)
  with step(1) all_opened_extends [OF step(2,4)] show ?thesis unfolding st' by blast
qed

lemma run_calls_ok:
  assumes "list_all (call_ok z ops) calls" and "inv (xs_store st)" and "runs_ok sha256 (view (xs_store st)) (runs st)"
  shows "inv (xs_store (run_calls z sha256 calls st)) \<and>
    runs_ok sha256 (view (xs_store (run_calls z sha256 calls st))) (runs (run_calls z sha256 calls st)) \<and>
    (all_opened sha256 (view (xs_store st)) \<longrightarrow>
      all_opened sha256 (view (xs_store (run_calls z sha256 calls st))))"
  using assms
proof (induction calls arbitrary: st)
  case (Cons c calls)
  then show ?case using call_step [of c st sha256] by (simp add: run_calls_def)
qed (simp add: run_calls_def)

end

section \<open>At most once\<close>


section \<open>Only what is allowed\<close>

text \<open>What a request may touch is something the sandbox isolates.\<close>

definition enforceable :: "capability_report \<Rightarrow> resource_requirements \<Rightarrow> bool" where
  "enforceable c r \<longleftrightarrow>
     (rr_readPaths r = [] \<and> rr_writePaths r = [] \<or> cr_filesystemIsolation c) \<and>
     (rr_networkTargets r = [] \<or> cr_networkIsolation c) \<and>
     (rr_commands r = [] \<or> cr_processIsolation c)"

lemma unsupported_none: "unsupported c r = [] \<longleftrightarrow> enforceable c r"
  by (auto simp: unsupported_def enforceable_def)

lemma verdict_run:
  "verdict_of d c broker appr q = VRun reason \<Longrightarrow>
   dc_decision d \<noteq> Deny \<and> appr \<noteq> Some Rejected \<and> (dc_decision d = Ask \<longrightarrow> appr = Some Approved) \<and>
   (rr_secretEnv (aq_requirements q) = [] \<or> broker) \<and> enforceable c (aq_requirements q)"
  by (auto simp: verdict_of_def unsupported_none split: if_splits)

text \<open>
  C6: Only an authorized action reaches the sandbox. When a call of \<open>execute\<close> makes the
  sandbox execute anything, it is the canonical form of the request and nothing else, the
  policy did not deny it, the user did not reject it and approved it if the policy asked, the
  secrets it needs have a broker, and the sandbox isolates every kind of resource it declares.
  Nothing is assumed of the Chronicle.
\<close>

theorem runs_only_authorized:
  assumes "xw_execute z sha256 realpath (observed xw) env appr candidate st = (st', r)"
    and "runs st' \<noteq> runs st"
  shows "\<exists>q w c. canonicalizeActionRequest z realpath candidate = Inr q \<and> runs st' = runs st @ [q] \<and>
    dc_decision (policy_decision (xw_policy xw) q) \<noteq> Deny \<and> appr \<noteq> Some Rejected \<and>
    (dc_decision (policy_decision (xw_policy xw) q) = Ask \<longrightarrow> appr = Some Approved) \<and>
    (rr_secretEnv (aq_requirements q) = [] \<or> xw_secrets xw \<noteq> None) \<and>
    sb_capabilities (xw_sandbox xw) q (fst (xs_world st)) = (w, Inr c) \<and>
    enforceable c (aq_requirements q)"
proof (cases "canonicalizeActionRequest z realpath candidate")
  case (Inl err)
  with assms show ?thesis by (simp add: xw_execute_def)
next
  case (Inr q)
  with assms(1) have "execute_request z sha256 (observed xw) env appr q st = (st', r)"
    by (simp add: xw_execute_def)
  from execute_request_log [OF this] assms(2) Inr show ?thesis
    by (auto dest!: verdict_run)
qed

section \<open>Answers are settled\<close>

text \<open>The first request of a stream carries this digest.\<close>

definition requested_as :: "string \<Rightarrow> payload chronicle_event list \<Rightarrow> bool" where
  "requested_as digest es \<longleftrightarrow> (\<exists>e q. find_type ''execution.requested'' es = Some e \<and>
     ev_payload e = ExecutionP (XRequestedP q digest))"

lemma requested_as_extends:
  "extends sid v v' \<Longrightarrow> requested_as digest (v s) \<Longrightarrow> requested_as digest (v' s)"
proof -
  assume ext: "extends sid v v'" and "requested_as digest (v s)"
  then obtain e q where "find_type ''execution.requested'' (v s) = Some e"
    "ev_payload e = ExecutionP (XRequestedP q digest)" unfolding requested_as_def by blast
  with find_type_extends [OF ext] show ?thesis unfolding requested_as_def by blast
qed

lemma logged_answer_continues:
  assumes "logged_answer digest q es requested = Inr None"
  shows "(\<exists>q. ev_payload requested = ExecutionP (XRequestedP q digest)) \<and>
    find_type ''execution.completed'' es = None \<and> find_type ''execution.denied'' es = None"
  using assms unfolding logged_answer_def
  by (auto split: payload.splits execution_payload.splits option.splits if_splits)

lemma settled_answer:
  assumes "requested_as digest es" and "logged ''execution.started'' es" and "result_on_record es r"
  shows "\<exists>e. find_type ''execution.requested'' es = Some e \<and> (logged_answer digest q es e = Inr (Some (ResultOutcome r True)) \<or>
    ar_isError r = Some True \<and> logged_answer digest q es e = Inr (Some (ReconciliationRequired
      ''The action started without a durable result; automatic replay is unsafe'')))"
proof -
  from assms(1) obtain e q0 where e: "find_type ''execution.requested'' es = Some e"
    "ev_payload e = ExecutionP (XRequestedP q0 digest)" by (auto simp: requested_as_def)
  show ?thesis
  proof (cases "find_type ''execution.completed'' es")
    case None
    then have "ar_isError r = Some True" using assms(3) by (simp add: result_on_record_def)
    moreover have "logged_answer digest q es e = Inr (Some (ReconciliationRequired
        ''The action started without a durable result; automatic replay is unsafe''))"
      unfolding logged_answer_def e(2) None using assms(2)
      by (simp only: payload.case execution_payload.case option.case if_True if_False simp_thms)
    ultimately show ?thesis using e(1) by blast
  next
    case (Some c)
    then obtain i where "ev_payload c = ExecutionP (XCompletedP i r)"
      using assms(3) by (auto simp: result_on_record_def split: payload.splits execution_payload.splits)
    then have "logged_answer digest q es e = Inr (Some (ResultOutcome r True))"
      unfolding logged_answer_def e(2) Some
      by (simp only: payload.case execution_payload.case option.case if_False simp_thms)
    with e(1) show ?thesis by blast
  qed
qed

context host_chronicle
begin

lemma execute_request_result:
  assumes "inv (xs_store st)" and "clock_ok z env" and "xw_ops xw = ops"
    and "execute_request z sha256 (observed xw) env appr q st = (st', Inr (ResultOutcome r False))"
    and "sid = executionStreamId sha256 (aq_idempotencyKey q)" and "opened (view (xs_store st) sid)"
    and grows: "extends sid (view (xs_store st)) (view (xs_store st'))"
  shows "requested_as (requestDigest sha256 q) (view (xs_store st') sid) \<and>
    logged ''execution.started'' (view (xs_store st') sid) \<and> result_on_record (view (xs_store st') sid) r"
proof -
  let ?es = "view (xs_store st) sid" and ?digest = "requestDigest sha256 q"
  have sid: "sid \<noteq> []" using assms(5) by simp
  note ex = assms(4) [unfolded execute_request_def Let_def assms(5) [symmetric] observed_sel assms(3)
      read_all [OF assms(1)] prod.case option.case]
  have obs: "xw_ops (observed xw) = ops" using assms(3) by simp
  show ?thesis
  proof (cases "find_type ''execution.requested'' ?es")
    case (Some requested)
    have ans: "logged_answer ?digest q ?es requested = Inr None"
    proof (cases "logged_answer ?digest q ?es requested")
      case (Inr a)
      show ?thesis
      proof (cases a)
        case (Some out)
        with ex \<open>find_type _ _ = _\<close> Inr have "logged_answer ?digest q ?es requested = Inr (Some (ResultOutcome r False))"
          by simp
        then show ?thesis unfolding logged_answer_def
          by (auto split: payload.splits execution_payload.splits option.splits if_splits)
      qed (use Inr in simp)
    qed (use ex Some in simp)
    note c = logged_answer_continues [OF ans]
    have "requested_as ?digest ?es" using Some c by (auto simp: requested_as_def)
    moreover from ex Some ans have "execute_authorized (observed xw) env sid appr q ?es st = (st', Inr (ResultOutcome r False))" by simp
    from execute_authorized_completed [OF assms(1,2) sid obs this] c
    have "result_on_record (view (xs_store st') sid) r \<and> logged ''execution.started'' (view (xs_store st') sid)" by simp
    ultimately show ?thesis using requested_as_extends [OF grows] by blast
  next
    case None
    then have es: "?es = []" using assms(6) by (simp add: opened_def logged_find)
    have ok: "request_ok z q \<and> sha256_digest ?digest" using ex None by (auto split: if_splits)
    let ?evs = "[event_at env 0 q (XRequestedP q ?digest)]"
    obtain st1 e where app: "x_append ops (env_now env 6) sid ?evs st = (st1, e)" by fastforce
    have "?evs \<noteq> []" by simp
    note v1 = x_append_view [OF assms(1) clock_okD [OF assms(2)] sid this app]
    have e: "e = None" using ex None ok app by (cases e) simp_all
    with v1 es have v: "view (xs_store st1) sid = [stored_event sid 1 (env_now env 6) (hd ?evs)]" by simp
    from ex None ok app e have au: "execute_authorized (observed xw) env sid appr q ?es st1 = (st', Inr (ResultOutcome r False))"
      by simp
    have "find_type ''execution.completed'' (view (xs_store st1) sid) = None" unfolding v
      by (simp add: find_type_Cons)
    from execute_authorized_completed [OF _ assms(2) sid obs au this] v1
    have "result_on_record (view (xs_store st') sid) r \<and> logged ''execution.started'' (view (xs_store st') sid)" by simp
    moreover have "requested_as ?digest (view (xs_store st1) sid)" unfolding v
      by (simp add: requested_as_def find_type_Cons)
    moreover have "extends sid (view (xs_store st1)) (view (xs_store st'))"
      using execute_authorized_grows [OF _ assms(2) sid assms(3) au] v1 by simp
    ultimately show ?thesis using requested_as_extends by blast
  qed
qed

end

text \<open>
  C15: What was answered is answered again. After any history on a new Chronicle, let a call
  of \<open>execute\<close> return a result. Then the same request, to any world with any policy and any
  approval, changes nothing and returns that result as a replay; only a run that failed, whose
  result is an error, is answered with the need to reconcile it instead.
\<close>

theorem results_replay:
  assumes "list_all (call_ok z (host_sqlite z)) calls"
    and "st = run_calls z sha256 calls \<lparr>xs_store = sqlite_new, xs_world = (w, [])\<rparr>"
    and "clock_ok z env" and "xw_ops xw = host_sqlite z" and "xw_ops xw' = host_sqlite z"
    and "xw_execute z sha256 realpath (observed xw) env appr q st = (st1, Inr (ResultOutcome r False))"
  shows "\<exists>answer. xw_execute z sha256 realpath (observed xw') env' appr' q st1 = (st1, Inr answer) \<and>
    (answer = ResultOutcome r True \<or> ar_isError r = Some True \<and> answer = ReconciliationRequired
      ''The action started without a durable result; automatic replay is unsafe'')"
proof -
  let ?st0 = "\<lparr>xs_store = sqlite_new, xs_world = (w, [])\<rparr> :: (payload sqlite_db, _) execution_state"
  have new: "sqlite_inv z (host_registry z) (xs_store ?st0)" "runs_ok sha256 (sqlite_view (xs_store ?st0)) (runs ?st0)"
    "all_opened sha256 (sqlite_view (xs_store ?st0))"
    by (simp_all add: runs_ok_def all_opened_def opened_def sqlite_new_view)
  from sqlite_host.run_calls_ok [OF assms(1) new(1,2)] new(3)
  have inv: "sqlite_inv z (host_registry z) (xs_store st)" and op: "all_opened sha256 (sqlite_view (xs_store st))"
    unfolding assms(2) by blast+
  obtain q' where q': "canonicalizeActionRequest z realpath q = Inr q'"
    using assms(6) by (cases "canonicalizeActionRequest z realpath q") (simp_all add: xw_execute_def)
  with assms(6) have ex: "execute_request z sha256 (observed xw) env appr q' st = (st1, Inr (ResultOutcome r False))"
    by (simp add: xw_execute_def)
  let ?sid = "executionStreamId sha256 (aq_idempotencyKey q')"
  note step = sqlite_host.execute_request_step [OF inv assms(3,4) ex refl]
  then have inv1: "sqlite_inv z (host_registry z) (xs_store st1)" by blast
  from step have "extends ?sid (sqlite_view (xs_store st)) (sqlite_view (xs_store st1))" by blast
  from sqlite_host.execute_request_result [OF inv assms(3,4) ex refl all_openedD [OF op] this]
  obtain e where "find_type ''execution.requested'' (sqlite_view (xs_store st1) ?sid) = Some e"
    and "logged_answer (requestDigest sha256 q') q' (sqlite_view (xs_store st1) ?sid) e =
        Inr (Some (ResultOutcome r True)) \<or>
      ar_isError r = Some True \<and> logged_answer (requestDigest sha256 q') q' (sqlite_view (xs_store st1) ?sid) e =
        Inr (Some (ReconciliationRequired
          ''The action started without a durable result; automatic replay is unsafe''))"
    using settled_answer by blast
  then show ?thesis
    using q' by (auto simp: xw_execute_def execute_request_def Let_def assms(5) sqlite.read_all [OF inv1, unfolded sqlite_ops_sel])
qed

section \<open>Samples\<close>

definition no_requirements :: resource_requirements where
  "no_requirements = \<lparr>rr_readPaths = [], rr_writePaths = [], rr_networkTargets = [], rr_commands = [],
     rr_commandStdin = None, rr_stdoutCompletion = None, rr_commandStdio = None, rr_secretEnv = [],
     rr_workingDirectory = None, rr_timeoutMs = None, rr_maxOutputBytes = None\<rparr>"

definition sample_request :: action_request where
  "sample_request = \<lparr>aq_id = ''r'', aq_idempotencyKey = ''k'', aq_capability = ''tool:t'',
     aq_subject = \<lparr>actor_type = AgentActor, actor_id = ''bee''\<rparr>, aq_input = JNull,
     aq_requirements = no_requirements, aq_expectedEffects = [], aq_verification = [],
     aq_threadId = ''th'', aq_turnId = ''tu'', aq_itemId = None, aq_structureVersion = None\<rparr>"

definition sample_result :: action_result where
  "sample_result = \<lparr>ar_output = JNull, ar_content = ''done'', ar_isError = None, ar_worldDiff = None,
     ar_verification = []\<rparr>"

text \<open>A sandbox that counts and isolates everything.\<close>

definition counting_sandbox :: "nat sandbox" where
  "counting_sandbox = \<lparr>sb_execute = (\<lambda>q secrets w. (Suc w, Inr sample_result)),
     sb_snapshot = (\<lambda>q w. (w, Inr \<lparr>ws_ref = [], ws_capturedAt = [], ws_state = None, ws_owners = []\<rparr>)),
     sb_diff = (\<lambda>a b w. (w, Inr JNull)),
     sb_capabilities = (\<lambda>q w. (w, Inr \<lparr>cr_provider = ''count'', cr_filesystemIsolation = True,
       cr_networkIsolation = True, cr_processIsolation = True\<rparr>))\<rparr>"

definition sample_world :: "(payload sqlite_db, nat) execution_world" where
  "sample_world = \<lparr>xw_ops = host_sqlite any_zod,
     xw_policy = static_policy [\<lparr>cp_capability = ''tool:t'', cp_decision = Allow, cp_reason = ''yes''\<rparr>],
     xw_sandbox = counting_sandbox, xw_secrets = None\<rparr>"

definition sample_sha256 :: "string \<Rightarrow> string" where
  "sample_sha256 s = replicate 64 (CHR ''a'')"


definition sample_start :: "(payload sqlite_db, nat \<times> action_request list) execution_state" where
  "sample_start = \<lparr>xs_store = sqlite_new, xs_world = (0, [])\<rparr>"


definition sample_execute :: "approval option \<Rightarrow> (payload sqlite_db, nat \<times> action_request list) execution_state \<Rightarrow>
    (payload sqlite_db, nat \<times> action_request list) execution_state \<times> (execution_error + execution_outcome)" where
  "sample_execute appr st = xw_execute any_zod sample_sha256 RealPath (observed sample_world)
     (iso_env ''u'' midnight) appr sample_request st"

lemma sample_answer:
  "(case sample_execute None sample_start of (st, r) \<Rightarrow> (runs st, r)) =
     ([sample_request], Inr (ResultOutcome (sample_result\<lparr>ar_worldDiff := Some JNull\<rparr>) False))"
  by code_simp

lemma sample_first: "snd (sample_execute None sample_start) =
    Inr (ResultOutcome (sample_result\<lparr>ar_worldDiff := Some JNull\<rparr>) False)"
  and sample_first_runs: "runs (fst (sample_execute None sample_start)) = [sample_request]"
  using sample_answer by (auto split: prod.splits)


theorem runs_only_authorized_witness:
  "\<exists>q. canonicalizeActionRequest any_zod RealPath sample_request = Inr q \<and>
     dc_decision (policy_decision (xw_policy sample_world) q) \<noteq> Deny"
proof -
  obtain st' r where x: "sample_execute None sample_start = (st', r)" by fastforce
  with sample_first_runs have "runs st' \<noteq> runs sample_start" by (simp add: sample_start_def)
  from runs_only_authorized [OF x [unfolded sample_execute_def] this] show ?thesis by blast
qed

theorem results_replay_witness:
  "\<exists>st answer. sample_execute (Some Rejected) (fst (sample_execute None sample_start)) = (st, Inr answer) \<and>
     answer = ResultOutcome (sample_result\<lparr>ar_worldDiff := Some JNull\<rparr>) True"
proof -
  let ?r = "sample_result\<lparr>ar_worldDiff := Some JNull\<rparr>"
  obtain st1 r where x: "sample_execute None sample_start = (st1, r)" by fastforce
  with sample_first have r: "r = Inr (ResultOutcome ?r False)" by simp
  have "clock_ok any_zod (iso_env ''u'' midnight)" "xw_ops sample_world = host_sqlite any_zod"
    "sample_start = run_calls any_zod sample_sha256 ([] :: (payload sqlite_db, nat) execution_call list)
       \<lparr>xs_store = sqlite_new, xs_world = (0, [])\<rparr>"
    by (simp_all add: clock_ok_def iso_env_def any_zod_def sample_world_def run_calls_def sample_start_def)
  from results_replay [OF _ this(3) this(1) this(2) this(2) x [unfolded sample_execute_def r],
      where env' = "iso_env ''u'' midnight" and appr' = "Some Rejected"]
  have "\<exists>answer. sample_execute (Some Rejected) st1 = (st1, Inr answer) \<and> answer = ResultOutcome ?r True"
    by (auto simp: sample_execute_def sample_result_def)
  with x show ?thesis by auto
qed

end
