(* ===== verification/ToolPermissions.thy ===== *)
theory ToolPermissions
  imports ToolExecution ExecutionSafety
begin

text \<open>
  What a tool call needs to run: the six layers of the plugin put together with the user's
  remembered grants, and their effect at the execution boundary.
\<close>

section \<open>The layers in one formula\<close>

text \<open>A list of capabilities covers one it contains; the star covers all.\<close>

definition covers :: "string list \<Rightarrow> string \<Rightarrow> bool" where
  "covers caps c \<longleftrightarrow> c \<in> set caps \<or> ''*'' \<in> set caps"

definition enabled_tools :: "tool_options \<Rightarrow> string list" where
  "enabled_tools opts = map (\<lambda>r. tool_capability (tl_toolId r)) (to_rules opts)"

definition tool_rules_for :: "tool_options \<Rightarrow> string \<Rightarrow> tool_rule set" where
  "tool_rules_for opts c = {r \<in> set (to_rules opts). tool_capability (tl_toolId r) = c}"

definition tool_denied :: "tool_options \<Rightarrow> string \<Rightarrow> bool" where
  "tool_denied opts c \<longleftrightarrow> covers (coalesce (to_hardDenies opts) []) c \<or>
     \<not> covers (coalesce (to_structureGrants opts) []) c \<or>
     \<not> covers (coalesce (to_userGrants opts) (enabled_tools opts)) c \<or>
     \<not> covers (coalesce (to_pluginDeclarations opts) (enabled_tools opts)) c \<or>
     \<not> covers (coalesce (to_taskScope opts) (enabled_tools opts)) c \<or>
     tool_rules_for opts c = {} \<or> (\<exists>r\<in>tool_rules_for opts c. tl_decision r = Deny)"

definition tool_asked :: "tool_options \<Rightarrow> string \<Rightarrow> bool" where
  "tool_asked opts c \<longleftrightarrow> (\<exists>r\<in>tool_rules_for opts c. tl_decision r = Ask)"

lemma rule_matches_caps:
  "rule_matches c \<lparr>cp_capability = x, cp_decision = d, cp_reason = m\<rparr> \<longleftrightarrow> x = c \<or> x = ''*''"
  by (simp add: rule_matches_def)

lemma allow_layer:
  "denies c (capability_rules Allow m caps) \<longleftrightarrow> \<not> covers caps c"
  "\<not> asks c (capability_rules Allow m caps)"
  by (auto simp: denies_def asks_def capability_rules_def rule_matches_caps covers_def)

lemma hard_layer:
  "denies c (capability_rules Deny m caps @ capability_rules Allow m' [''*'']) \<longleftrightarrow> covers caps c"
  "\<not> asks c (capability_rules Deny m caps @ capability_rules Allow m' [''*''])"
  by (auto simp: denies_def asks_def capability_rules_def rule_matches_caps covers_def)

lemma tool_capability_star [simp]: "tool_capability t \<noteq> ''*''"
  by (simp add: tool_capability_def)

lemma bee_layer:
  fixes opts :: tool_options and c :: string
  defines "rules \<equiv> map (\<lambda>r. \<lparr>cp_capability = tool_capability (tl_toolId r), cp_decision = tl_decision r,
    cp_reason = tl_reason r\<rparr>) (to_rules opts)"
  shows "denies c rules \<longleftrightarrow> tool_rules_for opts c = {} \<or> (\<exists>r\<in>tool_rules_for opts c. tl_decision r = Deny)"
    and "asks c rules \<longleftrightarrow> tool_asked opts c"
  by (auto simp: rules_def denies_def asks_def rule_matches_caps tool_rules_for_def tool_asked_def)

lemma layers_deny:
  "(\<exists>l\<in>set (tool_layers opts). denies c (py_rules l)) \<longleftrightarrow> tool_denied opts c"
  unfolding tool_layers_def listed_layer_def tool_denied_def enabled_tools_def
  by (simp add: allow_layer hard_layer bee_layer)

lemma layers_ask:
  "(\<exists>l\<in>set (tool_layers opts). asks c (py_rules l)) \<longleftrightarrow> tool_asked opts c"
  unfolding tool_layers_def listed_layer_def
  by (simp add: allow_layer hard_layer bee_layer)

lemma tool_policy_kind:
  "dc_decision (policy_decision (tool_policy opts) q) =
     (if tool_denied opts (aq_capability q) then Deny
      else if tool_asked opts (aq_capability q) \<and>
        \<not> List.member (coalesce (to_persistedGrants opts) []) (aq_capability q) then Ask
      else Allow)"
  by (cases "to_persistedGrants opts")
     (simp_all add: policy_decision_def tool_policy_def Let_def intersection_policy_def grant_policy_def
       snapshot_decision_def intersection_kind layers_deny layers_ask grant_kind)

text \<open>
  C10: What a tool needs to run. The policy of the tool plugin denies a capability exactly
  when immutable safety lists it, or the active structure, the user's list, the plugin
  declarations or the task scope do not cover it, or Bee's own rules have none for it or one
  that denies. Otherwise it asks exactly when one of Bee's rules asks and the user has no
  remembered grant; a remembered grant never turns a refusal into anything else.
\<close>

theorem tool_permission:
  "dc_decision (policy_decision (tool_policy opts) q) =
     (if tool_denied opts (aq_capability q) then Deny
      else if tool_asked opts (aq_capability q) \<and>
        \<not> List.member (coalesce (to_persistedGrants opts) []) (aq_capability q) then Ask
      else Allow)"
  by (rule tool_policy_kind)

text \<open>
  C14: A denied tool never runs. Whatever the Chronicle says, whatever the approval and
  whatever grants are remembered, a tool call whose capability one layer denies does not make
  the sandbox execute anything.
\<close>

theorem denied_tool_never_runs:
  assumes "xw_policy xw = tool_policy opts"
    and "tool_denied opts (tde_capability (tx_describe ex (te_call i)))"
    and "tool_execute z sha256 realpath (observed xw) ex env appr i st = (st', r)"
  shows "runs st' = runs st"
proof -
  let ?q = "action_of_call (tx_describe ex (te_call i)) i"
  obtain r' where x: "xw_execute z sha256 realpath (observed xw) env appr ?q st = (st', r')"
    using assms(3) by (auto simp: tool_execute_def split: prod.splits sum.splits)
  show ?thesis
  proof (cases "canonicalizeActionRequest z realpath ?q")
    case (Inl err)
    with x show ?thesis by (simp add: xw_execute_def)
  next
    case (Inr q)
    with x have "execute_request z sha256 (observed xw) env appr q st = (st', r')" by (simp add: xw_execute_def)
    moreover have "aq_capability q = tde_capability (tx_describe ex (te_call i))"
      using canonical_keeps [OF Inr] by (simp add: action_of_call_def)
    then have "dc_decision (policy_decision (xw_policy xw) q) = Deny"
      using assms(1,2) by (simp add: tool_policy_kind)
    ultimately show ?thesis by (auto dest!: execute_request_log simp: verdict_of_def)
  qed
qed

section \<open>Samples\<close>

definition blocked_options :: tool_options where
  "blocked_options = \<lparr>to_persistedGrants = Some [''tool:t''],
     to_rules = [\<lparr>tl_toolId = ''t'', tl_decision = Allow, tl_reason = ''yes''\<rparr>],
     to_structureGrants = Some [''tool:t''], to_hardDenies = Some [''tool:t''], to_userGrants = None,
     to_pluginDeclarations = None, to_taskScope = None\<rparr>"

definition sample_tool :: "'w tool_executor" where
  "sample_tool = \<lparr>tx_describe = (\<lambda>c. \<lparr>tde_capability = ''tool:t'', tde_requirements = no_requirements,
       tde_expectedEffects = [], tde_verification = []\<rparr>),
     tx_execute = (\<lambda>i w. (w, Inr sample_result)), tx_present = None, tx_concurrency = None\<rparr>"

definition blocked_world :: "(payload sqlite_db, nat) execution_world" where
  "blocked_world = sample_world\<lparr>xw_policy := tool_policy blocked_options\<rparr>"

definition sample_tool_call :: tool_execution_call where
  "sample_tool_call = \<lparr>te_call = \<lparr>tc_callId = ''c'', tc_toolId = ''t'', tc_input = JNull, tc_inputError = None\<rparr>,
     te_threadId = ''th'', te_turnId = ''tu'', te_itemId = ''i'', te_structureVersion = None\<rparr>"

theorem denied_tool_never_runs_witness:
  "runs (fst (tool_execute any_zod sample_sha256 RealPath (observed blocked_world) sample_tool
     (iso_env ''u'' midnight) (Some Approved) sample_tool_call sample_start)) = runs sample_start"
proof -
  obtain st' r where x: "tool_execute any_zod sample_sha256 RealPath (observed blocked_world) sample_tool
     (iso_env ''u'' midnight) (Some Approved) sample_tool_call sample_start = (st', r)" by fastforce
  have "runs st' = runs sample_start"
    by (rule denied_tool_never_runs [OF _ _ x, where opts = blocked_options])
       (simp_all add: blocked_world_def tool_denied_def blocked_options_def sample_tool_def covers_def)
  with x show ?thesis by simp
qed

end
