(* ===== verification/GrantStore.thy ===== *)
theory GrantStore
  imports HostChronicle Samples
begin

text \<open>
  The durable user grants (\<open>packages/runtime/src/grant-store.ts\<close>, events in
  \<open>packages/execution/src/grant-events.ts\<close>): the set of remembered capabilities in memory and
  the \<open>grants\<close> stream it is rebuilt from.
\<close>

section \<open>Events\<close>

definition GRANT_ACTOR :: chronicle_actor where
  "GRANT_ACTOR = \<lparr>actor_type = UserActor, actor_id = ''host''\<rparr>"

definition grant_fact_of :: "string \<Rightarrow> string option \<Rightarrow> string option \<Rightarrow> string \<Rightarrow> grant_fact" where
  "grant_fact_of capability reason by_whom at =
     \<lparr>gf_capability = capability, gf_reason = reason, gf_by = coalesce by_whom ''user'', gf_at = at\<rparr>"

text \<open>The two builders; the parse of the payload may throw.\<close>

definition grant_event :: "zod \<Rightarrow> string \<Rightarrow> string \<Rightarrow> chronicle_actor option \<Rightarrow> grant_payload \<Rightarrow>
    payload new_event option" where
  "grant_event z uuid now actor p =
     (if grant_payload_ok z p
      then Some (newChronicleEvent uuid now
        (plain_input (grant_event_type p) (coalesce actor GRANT_ACTOR) no_scope (GrantP p)))
      else None)"

definition grantRecordedEvent :: "zod \<Rightarrow> env \<Rightarrow> string \<Rightarrow> string option \<Rightarrow> string option \<Rightarrow>
    payload new_event option" where
  "grantRecordedEvent z env capability reason by_whom =
     grant_event z (env_uuid env 0) (env_now env 1) None
       (GRecordedP (grant_fact_of capability reason by_whom (env_now env 0)))"

definition grantRevokedEvent :: "zod \<Rightarrow> env \<Rightarrow> string \<Rightarrow> string option \<Rightarrow> string option \<Rightarrow>
    payload new_event option" where
  "grantRevokedEvent z env capability reason by_whom =
     grant_event z (env_uuid env 0) (env_now env 1) None
       (GRevokedP (grant_fact_of capability reason by_whom (env_now env 0)))"

section \<open>The store\<close>

record granted_capability =
  gd_capability :: string
  gd_reason :: "string option"
  gd_by :: string
  gd_at :: string

record 's user_grants =
  ug_store :: 's
  ug_granted :: "string list"
  ug_details :: "(string, granted_capability) jsmap"

datatype grant_error = GrantRejected | GrantStoreError chronicle_error

definition ug_new :: "'s \<Rightarrow> 's user_grants" where
  "ug_new s = \<lparr>ug_store = s, ug_granted = [], ug_details = []\<rparr>"

definition ug_list :: "'s user_grants \<Rightarrow> granted_capability list" where
  "ug_list g = jsmap_values (ug_details g)"

definition ug_has :: "string \<Rightarrow> 's user_grants \<Rightarrow> bool" where
  "ug_has capability g \<longleftrightarrow> List.member (ug_granted g) capability"

definition remember :: "granted_capability \<Rightarrow> 's user_grants \<Rightarrow> 's user_grants" where
  "remember d g = g\<lparr>ug_granted := js_set_add (gd_capability d) (ug_granted g),
     ug_details := jsmap_set (gd_capability d) d (ug_details g)\<rparr>"

definition forget :: "string \<Rightarrow> 's user_grants \<Rightarrow> 's user_grants" where
  "forget capability g = g\<lparr>ug_granted := js_set_delete capability (ug_granted g),
     ug_details := jsmap_delete capability (ug_details g)\<rparr>"

text \<open>One step of \<open>rebuild\<close>: a payload without a capability is skipped.\<close>

definition fold_grant :: "payload chronicle_event \<Rightarrow> 's user_grants \<Rightarrow> 's user_grants" where
  "fold_grant e g =
     (case ev_payload e of
        GrantP p \<Rightarrow>
          (let f = (case p of GRecordedP f \<Rightarrow> f | GRevokedP f \<Rightarrow> f)
           in if ev_type e = ''grant.recorded'' then
                remember \<lparr>gd_capability = gf_capability f, gd_reason = gf_reason f, gd_by = gf_by f,
                  gd_at = gf_at f\<rparr> g
              else if ev_type e = ''grant.revoked'' then forget (gf_capability f) g
              else g)
      | _ \<Rightarrow> g)"

definition ug_rebuild :: "('s, payload) chronicle_ops \<Rightarrow> 's user_grants \<Rightarrow>
    's user_grants \<times> chronicle_error option" where
  "ug_rebuild ops g =
     (case op_read ops GRANTS_STREAM_ID 0 (ug_store g) of
        (es, err) \<Rightarrow> (fold fold_grant es (ug_new (ug_store g)), err))"

text \<open>
  \<open>#append\<close>: two attempts at the tail. The bare \<open>catch\<close> takes every error for a lost race,
  and after the second the method returns as if it had written.
\<close>

definition append_once :: "('s, 'p) chronicle_ops \<Rightarrow> string \<Rightarrow> 'p new_event \<Rightarrow> 's \<Rightarrow> 's \<times> bool" where
  "append_once ops now e s =
     (case op_append ops now GRANTS_STREAM_ID [e] (op_latest ops GRANTS_STREAM_ID s + 1) s of
        (s', Inl err) \<Rightarrow> (s', False)
      | (s', Inr _) \<Rightarrow> (s', True))"

definition ug_append :: "('s, 'p) chronicle_ops \<Rightarrow> env \<Rightarrow> 'p new_event \<Rightarrow> 's \<Rightarrow> 's" where
  "ug_append ops env e s =
     (case append_once ops (env_now env 2) e s of
        (s', True) \<Rightarrow> s'
      | (s', False) \<Rightarrow> fst (append_once ops (env_now env 3) e s'))"

definition ug_record :: "zod \<Rightarrow> ('s, payload) chronicle_ops \<Rightarrow> env \<Rightarrow> string \<Rightarrow> string option \<Rightarrow>
    string option \<Rightarrow> 's user_grants \<Rightarrow> 's user_grants \<times> grant_error option" where
  "ug_record z ops env capability reason by_whom g =
     (case grantRecordedEvent z env capability reason by_whom of
        None \<Rightarrow> (g, Some GrantRejected)
      | Some e \<Rightarrow>
          (remember \<lparr>gd_capability = capability, gd_reason = reason, gd_by = coalesce by_whom ''user'',
             gd_at = env_now env 4\<rparr> (g\<lparr>ug_store := ug_append ops env e (ug_store g)\<rparr>), None))"

definition ug_revoke :: "zod \<Rightarrow> ('s, payload) chronicle_ops \<Rightarrow> env \<Rightarrow> string \<Rightarrow> string option \<Rightarrow>
    's user_grants \<Rightarrow> 's user_grants \<times> grant_error option" where
  "ug_revoke z ops env capability reason g =
     (case grantRevokedEvent z env capability reason None of
        None \<Rightarrow> (g, Some GrantRejected)
      | Some e \<Rightarrow> (forget capability (g\<lparr>ug_store := ug_append ops env e (ug_store g)\<rparr>), None))"

section \<open>The set follows the log, where the log takes the events\<close>

datatype grant_op =
    RecordGrant env string "string option" "string option"
  | RevokeGrant env string "string option"

fun grant_step :: "zod \<Rightarrow> ('s, payload) chronicle_ops \<Rightarrow> grant_op \<Rightarrow> 's user_grants \<Rightarrow> 's user_grants" where
  "grant_step z ops (RecordGrant env c reason by_whom) g = fst (ug_record z ops env c reason by_whom g)"
| "grant_step z ops (RevokeGrant env c reason) g = fst (ug_revoke z ops env c reason g)"

fun grant_op_ok :: "zod \<Rightarrow> grant_op \<Rightarrow> bool" where
  "grant_op_ok z (RecordGrant env c reason by_whom) \<longleftrightarrow> clock_ok z env \<and> z_uuid z (env_uuid env 0)"
| "grant_op_ok z (RevokeGrant env c reason) \<longleftrightarrow> clock_ok z env \<and> z_uuid z (env_uuid env 0)"

definition grant_run :: "zod \<Rightarrow> ('s, payload) chronicle_ops \<Rightarrow> grant_op list \<Rightarrow> 's user_grants \<Rightarrow> 's user_grants" where
  "grant_run z ops ps g = fold (grant_step z ops) ps g"

text \<open>The set a stream stands for.\<close>

definition grants_of :: "payload chronicle_event list \<Rightarrow> string set" where
  "grants_of es = set (ug_granted (fold fold_grant es (ug_new ())))"

lemma fold_grant_granted:
  "ug_granted g = ug_granted h \<Longrightarrow> ug_granted (fold_grant e g) = ug_granted (fold_grant e h)"
  by (auto simp: fold_grant_def remember_def forget_def Let_def split: payload.split grant_payload.split)

lemma folds_granted:
  "ug_granted g = ug_granted h \<Longrightarrow> ug_granted (fold fold_grant es g) = ug_granted (fold fold_grant es h)"
proof (induction es arbitrary: g h)
  case (Cons e es)
  then show ?case using fold_grant_granted [of g h e] by simp
qed simp

lemma ug_rebuild_granted:
  "op_read ops GRANTS_STREAM_ID 0 (ug_store g) = (es, err) \<Longrightarrow>
   set (ug_granted (fst (ug_rebuild ops g))) = grants_of es"
  using folds_granted [of "ug_new (ug_store g)" "ug_new ()" es]
  by (simp add: ug_rebuild_def grants_of_def ug_new_def)

lemma grants_of_snoc:
  "ev_payload e = GrantP p \<Longrightarrow> ev_type e = grant_event_type p \<Longrightarrow>
   grants_of (es @ [e]) = (case p of GRecordedP f \<Rightarrow> insert (gf_capability f) (grants_of es)
     | GRevokedP f \<Rightarrow> grants_of es - {gf_capability f})"
  by (cases p) (simp_all add: grants_of_def fold_grant_def remember_def forget_def)

lemma grant_event_SomeD:
  "grant_event z uuid now actor p = Some e \<Longrightarrow> grant_payload_ok z p \<and> ev_payload e = GrantP p \<and>
   ev_type e = grant_event_type p \<and> ev_id e = uuid"
  by (auto simp: grant_event_def split: if_splits)

definition grant_registry :: "zod \<Rightarrow> payload registry" where
  "grant_registry z = host_registry z @ map (\<lambda>et. schema_entry (et, grant_schema z et)) GRANT_EVENT_TYPES"

lemma grant_registry_built: "registerGrantChronicleEvents z (host_registry z) = Inr (grant_registry z)"
proof -
  let ?ps = "map (\<lambda>et. (et, grant_schema z et)) GRANT_EVENT_TYPES"
  have "fst x \<notin> fst ` set (host_registry z)" if "x \<in> set ?ps" for x
  proof -
    have "fst x \<in> set GRANT_EVENT_TYPES" using that by auto
    then have "map_of (host_registry z) (fst x) = None" by (rule host_registry_grant)
    then show ?thesis by (simp add: map_of_eq_None_iff)
  qed
  then have "register_all ?ps (host_registry z) = Inr (host_registry z @ map schema_entry ?ps)"
    by (intro register_all_fresh) (simp_all add: GRANT_EVENT_TYPES_def list_all_iff)
  then show ?thesis by (simp add: registerGrantChronicleEvents_def grant_registry_def o_def)
qed

lemma grant_event_type_listed: "grant_event_type p \<in> set GRANT_EVENT_TYPES"
  by (cases p) (simp_all add: GRANT_EVENT_TYPES_def)

lemma grant_registry_grant:
  "map_of (grant_registry z) (grant_event_type p) =
     Some \<lparr>reg_eventType = grant_event_type p, reg_payload = grant_schema z (grant_event_type p), reg_ignorable = False\<rparr>"
  using host_registry_grant [OF grant_event_type_listed [of p], of z]
  by (cases p) (simp_all add: grant_registry_def map_add_def GRANT_EVENT_TYPES_def schema_entry_def)

lemma GRANTS_STREAM_ID_nonempty [simp]: "GRANTS_STREAM_ID \<noteq> []"
  by (simp add: GRANTS_STREAM_ID_def)

context chronicle_store
begin

lemma ug_append_view:
  assumes "inv s" and "clock_ok z env" and "reg = r"
  shows "inv (ug_append ops env e s) \<and> (\<forall>sid. sid \<noteq> GRANTS_STREAM_ID \<longrightarrow>
      view (ug_append ops env e s) sid = view s sid) \<and>
    (if event_accepted z r e
     then \<exists>k now. view (ug_append ops env e s) GRANTS_STREAM_ID =
       view s GRANTS_STREAM_ID @ [stored_event GRANTS_STREAM_ID k now e]
     else view (ug_append ops env e s) = view s)"
proof -
  obtain s1 r1 where one: "op_append ops (env_now env 2) GRANTS_STREAM_ID [e]
      (op_latest ops GRANTS_STREAM_ID s + 1) s = (s1, r1)" by fastforce
  note a1 = append_attempt [OF assms(1) clock_okD [OF assms(2)] GRANTS_STREAM_ID_nonempty one]
  show ?thesis
  proof (cases r1)
    case (Inr es)
    with one have "ug_append ops env e s = s1" by (simp add: ug_append_def append_once_def)
    with a1 Inr assms(3) show ?thesis by auto blast
  next
    case (Inl err)
    obtain s2 r2 where two: "op_append ops (env_now env 3) GRANTS_STREAM_ID [e]
        (op_latest ops GRANTS_STREAM_ID s1 + 1) s1 = (s2, r2)" by fastforce
    have inv1: "inv s1" using a1 by blast
    note a2 = append_attempt [OF inv1 clock_okD [OF assms(2)] GRANTS_STREAM_ID_nonempty two]
    from one two Inl have "ug_append ops env e s = s2"
      by (cases r2) (simp_all add: ug_append_def append_once_def)
    moreover obtain err2 where "r2 = Inl err2" using a1 a2 Inl by (cases r2) auto
    ultimately show ?thesis using a1 a2 Inl assms(3) by auto
  qed
qed

end

definition grants_agree :: "('s \<Rightarrow> payload streams) \<Rightarrow> 's user_grants \<Rightarrow> bool" where
  "grants_agree view g \<longleftrightarrow> set (ug_granted g) = grants_of (view (ug_store g) GRANTS_STREAM_ID)"

lemma ug_sel [simp]:
  "ug_store (remember d g) = ug_store g" "ug_store (forget c g) = ug_store g"
  "set (ug_granted (remember d g)) = insert (gd_capability d) (set (ug_granted g))"
  "set (ug_granted (forget c g)) = set (ug_granted g) - {c}"
  by (simp_all add: remember_def forget_def)

lemma grant_accepted:
  assumes "grant_event z uuid now actor p = Some e" and "z_uuid z uuid" and "z_datetime z now"
    and "actor_ok (coalesce actor GRANT_ACTOR)"
  shows "event_accepted z (grant_registry z) e"
proof -
  have e: "e = newChronicleEvent uuid now (plain_input (grant_event_type p) (coalesce actor GRANT_ACTOR) no_scope (GrantP p))"
    and ok: "grant_payload_ok z p" using assms(1) by (auto simp: grant_event_def split: if_splits)
  have "grant_event_type p \<noteq> []" by (cases p) simp_all
  with assms have "new_event_ok z e" unfolding e
    by (intro newChronicleEvent_plain_ok) (simp_all add: scope_ok_def no_scope_def)
  with ok show ?thesis unfolding event_accepted_def e
    by (simp add: grant_registry_grant grant_schema_def)
qed

lemma GRANT_ACTOR_ok [simp]: "actor_ok GRANT_ACTOR"
  by (simp add: actor_ok_def GRANT_ACTOR_def)

lemma grant_step_agrees:
  fixes g :: "payload sqlite_db user_grants"
  assumes "sqlite_inv z (grant_registry z) (ug_store g)" and "grant_op_ok z p" and "grants_agree sqlite_view g"
  shows "sqlite_inv z (grant_registry z) (ug_store (grant_step z (sqlite_ops z (grant_registry z)) p g)) \<and>
    grants_agree sqlite_view (grant_step z (sqlite_ops z (grant_registry z)) p g)"
proof (cases p)
  case (RecordGrant env c reason by_whom)
  then have env: "clock_ok z env" "z_uuid z (env_uuid env 0)" using assms(2) by simp_all
  show ?thesis
  proof (cases "grantRecordedEvent z env c reason by_whom")
    case None
    with RecordGrant assms show ?thesis by (simp add: ug_record_def)
  next
    case (Some e)
    note ev = grant_event_SomeD [OF Some [unfolded grantRecordedEvent_def]]
    have "event_accepted z (grant_registry z) e"
      using grant_accepted [OF Some [unfolded grantRecordedEvent_def] env(2) clock_okD [OF env(1)]] by simp
    with sqlite.ug_append_view [OF assms(1) env(1) refl, of e] Some RecordGrant ev assms(3) show ?thesis
      by (auto simp: ug_record_def grants_agree_def grants_of_snoc grant_fact_of_def)
  qed
next
  case (RevokeGrant env c reason)
  then have env: "clock_ok z env" "z_uuid z (env_uuid env 0)" using assms(2) by simp_all
  show ?thesis
  proof (cases "grantRevokedEvent z env c reason None")
    case None
    with RevokeGrant assms show ?thesis by (simp add: ug_revoke_def)
  next
    case (Some e)
    note ev = grant_event_SomeD [OF Some [unfolded grantRevokedEvent_def]]
    have "event_accepted z (grant_registry z) e"
      using grant_accepted [OF Some [unfolded grantRevokedEvent_def] env(2) clock_okD [OF env(1)]] by simp
    with sqlite.ug_append_view [OF assms(1) env(1) refl, of e] Some RevokeGrant ev assms(3) show ?thesis
      by (auto simp: ug_revoke_def grants_agree_def grants_of_snoc grant_fact_of_def)
  qed
qed

lemma grant_run_agrees:
  assumes "sqlite_inv z (grant_registry z) (ug_store g)" and "list_all (grant_op_ok z) ps" and "grants_agree sqlite_view g"
  shows "sqlite_inv z (grant_registry z) (ug_store (grant_run z (sqlite_ops z (grant_registry z)) ps g)) \<and>
    grants_agree sqlite_view (grant_run z (sqlite_ops z (grant_registry z)) ps g)"
  using assms
proof (induction ps arbitrary: g)
  case (Cons p ps)
  then show ?case using grant_step_agrees [of z g p] by (simp add: grant_run_def)
qed (simp add: grant_run_def)

text \<open>
  C20: Grants follow the log. Where the grant events are registered, after any history of
  grants and revocations on a new Chronicle a restart that rebuilds the store from the
  \<open>grants\<close> stream finds exactly the capabilities that were granted, the last fact on each
  deciding.
\<close>

theorem grants_follow_log:
  assumes "list_all (grant_op_ok z) ps"
    and "g = grant_run z (sqlite_ops z (grant_registry z)) ps (ug_new sqlite_new)"
    and "ug_rebuild (sqlite_ops z (grant_registry z)) (ug_new (ug_store g)) = (g', err)"
  shows "err = None \<and> set (ug_granted g') = set (ug_granted g)"
proof -
  have new: "sqlite_inv z (grant_registry z) (ug_store (ug_new sqlite_new))"
    "grants_agree sqlite_view (ug_new sqlite_new)"
    by (simp_all add: ug_new_def grants_agree_def sqlite_new_view grants_of_def)
  from grant_run_agrees [OF new(1) assms(1) new(2)]
  have inv: "sqlite_inv z (grant_registry z) (ug_store g)" and agree: "grants_agree sqlite_view g"
    unfolding assms(2) by blast+
  have read: "op_read (sqlite_ops z (grant_registry z)) GRANTS_STREAM_ID 0 (ug_store (ug_new (ug_store g))) =
      (sqlite_view (ug_store g) GRANTS_STREAM_ID, None)"
    using sqlite.read_all [OF inv] by (simp add: ug_new_def)
  from ug_rebuild_granted [OF read] read assms(3) agree show ?thesis
    by (auto simp: ug_rebuild_def grants_agree_def)
qed

section \<open>The Host does not register them\<close>

text \<open>
  C22: On the Host a grant does not survive. The registry that the Host starts with has no
  grant events, so the Chronicle refuses each of them and the store takes the refusal for a
  lost race: every accepted \<open>record\<close> makes the capability count as granted and writes
  nothing, and after a restart no capability is granted, whatever the Chronicle holds.
\<close>

theorem host_forgets_grants:
  assumes "sqlite_inv z (host_registry z) (ug_store g)" and "clock_ok z env"
    and "ug_record z (host_sqlite z) env c reason by_whom g = (g', None)"
    and "ug_rebuild (host_sqlite z) (ug_new (ug_store g')) = (g'', err)"
  shows "ug_has c g' \<and> sqlite_view (ug_store g') = sqlite_view (ug_store g) \<and> ug_granted g'' = []"
proof -
  obtain e where e: "grantRecordedEvent z env c reason by_whom = Some e"
    using assms(3) by (auto simp: ug_record_def split: option.splits)
  note ev = grant_event_SomeD [OF e [unfolded grantRecordedEvent_def]]
  have "\<not> event_accepted z (host_registry z) e"
    using ev host_registry_grant [of "''grant.recorded''" z] by (simp add: event_accepted_def GRANT_EVENT_TYPES_def)
  with sqlite.ug_append_view [OF assms(1,2) refl, of e] assms(3) e
  have g': "sqlite_inv z (host_registry z) (ug_store g')" "sqlite_view (ug_store g') = sqlite_view (ug_store g)"
    by (auto simp: ug_record_def)
  have skip: "fold_grant x h = h" if "x \<in> set (sqlite_view (ug_store g') GRANTS_STREAM_ID)" for x and h :: "payload sqlite_db user_grants"
  proof -
    have "event_accepted z (host_registry z) x"
      using sqlite.view_ok [OF g'(1), of GRANTS_STREAM_ID] that by (auto simp: stream_ok_def list_all_iff)
    then have "ev_type x \<notin> set GRANT_EVENT_TYPES"
      using host_registry_grant [of "ev_type x" z] by (auto simp: event_accepted_def)
    then show ?thesis
      by (simp add: fold_grant_def Let_def GRANT_EVENT_TYPES_def split: payload.split)
  qed
  have "fold fold_grant es h = h" if "set es \<subseteq> set (sqlite_view (ug_store g') GRANTS_STREAM_ID)"
    for es and h :: "payload sqlite_db user_grants"
    using that by (induction es) (simp_all add: skip)
  then have "g'' = ug_new (ug_store g')"
    using assms(4) sqlite.read_all [OF g'(1), of GRANTS_STREAM_ID] by (simp add: ug_rebuild_def ug_new_def)
  moreover have "ug_has c g'" using assms(3) e by (auto simp: ug_record_def ug_has_def remember_def js_set_add_def)
  ultimately show ?thesis using g' by (simp add: ug_new_def)
qed

section \<open>Samples\<close>

definition sample_grants :: "grant_op list" where
  "sample_grants = [RecordGrant (iso_env ''a'' midnight) ''net'' None None,
     RecordGrant (iso_env ''b'' midnight) ''fs'' (Some ''r'') None,
     RevokeGrant (iso_env ''c'' later) ''net'' None]"

lemma sample_grants_ok: "list_all (grant_op_ok any_zod) sample_grants"
  by (simp add: sample_grants_def clock_ok_def iso_env_def any_zod_def)

lemma sample_grants_run:
  "set (ug_granted (grant_run any_zod ops sample_grants (ug_new s))) = {''fs''}"
  by (auto simp: sample_grants_def grant_run_def ug_record_def ug_revoke_def grantRecordedEvent_def
      grantRevokedEvent_def grant_event_def grant_fact_ok_def grant_fact_of_def any_zod_def iso_env_def ug_new_def)

theorem grants_follow_log_witness:
  "\<exists>g. ug_rebuild (sqlite_ops any_zod (grant_registry any_zod)) (ug_new (ug_store
      (grant_run any_zod (sqlite_ops any_zod (grant_registry any_zod)) sample_grants (ug_new sqlite_new)))) = (g, None) \<and>
    set (ug_granted g) = {''fs''}"
  using grants_follow_log [OF sample_grants_ok refl prod.collapse [symmetric]] sample_grants_run
  by (metis prod.collapse)

theorem host_forgets_grants_witness:
  "ug_has ''net'' (fst (ug_record any_zod (host_sqlite any_zod) (iso_env ''a'' midnight) ''net'' None None
      (ug_new sqlite_new))) \<and>
   ug_granted (fst (ug_rebuild (host_sqlite any_zod) (ug_new (ug_store (fst (ug_record any_zod (host_sqlite any_zod)
      (iso_env ''a'' midnight) ''net'' None None (ug_new sqlite_new))))))) = []"
proof -
  let ?r = "ug_record any_zod (host_sqlite any_zod) (iso_env ''a'' midnight) ''net'' None None (ug_new sqlite_new)"
  have inv: "sqlite_inv any_zod (host_registry any_zod) (ug_store (ug_new sqlite_new))" by (simp add: ug_new_def)
  have clock: "clock_ok any_zod (iso_env ''a'' midnight)" by (simp add: clock_ok_def iso_env_def any_zod_def)
  have "snd ?r = None"
    by (simp add: ug_record_def grantRecordedEvent_def grant_event_def grant_fact_ok_def grant_fact_of_def
        any_zod_def iso_env_def)
  then have r: "?r = (fst ?r, None)" by (metis prod.collapse)
  from host_forgets_grants [OF inv clock r prod.collapse [symmetric]] show ?thesis by blast
qed

end
