(* ===== verification/PluginGraph.thy ===== *)
theory PluginGraph
  imports CanonicalJson
begin

text \<open>
  The desired plugin graph (\<open>packages/kernel/src/kernel.ts\<close>): the order in which the plugins
  of a graph are activated, and the plan that leads from one graph to the next. What a plugin
  does when it is applied is not part of the graph.
\<close>

section \<open>Plugins\<close>

datatype replacement_tier = TierA | TierB | TierC

record runtime_plugin =
  rp_id :: string
  rp_version :: string
  rp_config :: "json option"
  rp_inject :: "string list option"
  rp_provides :: "string list option"
  rp_tier :: "replacement_tier option"

datatype kernel_error =
    DuplicatePlugin string
  | DuplicateServiceProvider string "string list"
  | MissingPluginDependency string string
  | PluginDependencyCycle "string list"
  | StructureVersionCollision string
  | PluginActivation string
  | NoActiveStructureGeneration
  | RestrictedServiceAccess string
  | GenerationState string
  | LiveUpdateIneligible string
  | LifecycleEventFailed

definition injected :: "runtime_plugin \<Rightarrow> string list" where
  "injected p = coalesce (rp_inject p) []"

definition provided :: "runtime_plugin \<Rightarrow> string list" where
  "provided p = coalesce (rp_provides p) []"

section \<open>validateAndOrder\<close>

text \<open>The first loop: every id once, every service from one plugin.\<close>

fun index_services :: "string \<Rightarrow> string list \<Rightarrow> (string, string) jsmap \<Rightarrow>
    kernel_error + (string, string) jsmap" where
  "index_services pid [] providers = Inr providers"
| "index_services pid (s # ss) providers =
     (case map_of providers s of
        Some existing \<Rightarrow> Inl (DuplicateServiceProvider s [existing, pid])
      | None \<Rightarrow> index_services pid ss (jsmap_set s pid providers))"

fun index_plugins :: "runtime_plugin list \<Rightarrow> (string, runtime_plugin) jsmap \<Rightarrow> (string, string) jsmap \<Rightarrow>
    kernel_error + (string, runtime_plugin) jsmap \<times> (string, string) jsmap" where
  "index_plugins [] byId providers = Inr (byId, providers)"
| "index_plugins (p # ps) byId providers =
     (if map_of byId (rp_id p) \<noteq> None then Inl (DuplicatePlugin (rp_id p))
      else case index_services (rp_id p) (provided p) providers of
        Inl err \<Rightarrow> Inl err
      | Inr providers' \<Rightarrow> index_plugins ps (jsmap_set (rp_id p) p byId) providers')"

text \<open>The second loop: an edge to the provider of every injected service.\<close>

fun edges_of :: "string \<Rightarrow> (string, string) jsmap \<Rightarrow> string list \<Rightarrow> string list \<Rightarrow> string list \<Rightarrow>
    kernel_error + string list" where
  "edges_of pid providers bootstrap [] edges = Inr edges"
| "edges_of pid providers bootstrap (s # ss) edges =
     (case map_of providers s of
        Some q \<Rightarrow> edges_of pid providers bootstrap ss (js_set_add q edges)
      | None \<Rightarrow>
          if List.member bootstrap s then edges_of pid providers bootstrap ss edges
          else Inl (MissingPluginDependency pid s))"

fun dependencies_of :: "(string, string) jsmap \<Rightarrow> string list \<Rightarrow> runtime_plugin list \<Rightarrow>
    (string, string list) jsmap \<Rightarrow> kernel_error + (string, string list) jsmap" where
  "dependencies_of providers bootstrap [] deps = Inr deps"
| "dependencies_of providers bootstrap (p # ps) deps =
     (case edges_of (rp_id p) providers bootstrap (injected p) [] of
        Inl err \<Rightarrow> Inl err
      | Inr edges \<Rightarrow> dependencies_of providers bootstrap ps (jsmap_set (rp_id p) edges deps))"

text \<open>The third loop: depth-first search with a set of open and a set of closed plugins.\<close>

record dfs_state =
  df_temporary :: "string list"
  df_permanent :: "string list"
  df_ordered :: "runtime_plugin list"

text \<open>A loop whose body may throw, or run out of fuel.\<close>

fun each_until :: "('a \<Rightarrow> 's \<Rightarrow> ('e + 's) option) \<Rightarrow> 'a list \<Rightarrow> 's \<Rightarrow> ('e + 's) option" where
  "each_until f [] s = Some (Inr s)"
| "each_until f (x # xs) s =
     (case f x s of
        None \<Rightarrow> None
      | Some (Inl err) \<Rightarrow> Some (Inl err)
      | Some (Inr s') \<Rightarrow> each_until f xs s')"

text \<open>The path from the first occurrence of \<open>x\<close> on: \<open>path.slice(path.indexOf(x))\<close>.\<close>

definition path_from :: "'a \<Rightarrow> 'a list \<Rightarrow> 'a list" where
  "path_from x path = dropWhile (\<lambda>y. y \<noteq> x) path"

primrec dfs_visit :: "nat \<Rightarrow> (string, string list) jsmap \<Rightarrow> (string, runtime_plugin) jsmap \<Rightarrow> string \<Rightarrow>
    string list \<Rightarrow> dfs_state \<Rightarrow> (kernel_error + dfs_state) option" where
  "dfs_visit 0 deps byId x path d = None"
| "dfs_visit (Suc n) deps byId x path d =
     (if List.member (df_permanent d) x then Some (Inr d)
      else if List.member (df_temporary d) x
      then Some (Inl (PluginDependencyCycle (path_from x path @ [x])))
      else case each_until (\<lambda>y. dfs_visit n deps byId y (path @ [x])) (coalesce (map_of deps x) [])
          (d\<lparr>df_temporary := js_set_add x (df_temporary d)\<rparr>) of
        None \<Rightarrow> None
      | Some (Inl err) \<Rightarrow> Some (Inl err)
      | Some (Inr d') \<Rightarrow> Some (Inr (d'\<lparr>df_temporary := js_set_delete x (df_temporary d'),
          df_permanent := js_set_add x (df_permanent d'),
          df_ordered := df_ordered d' @ (case map_of byId x of None \<Rightarrow> [] | Some p \<Rightarrow> [p])\<rparr>)))"

definition dfs_start :: dfs_state where
  "dfs_start = \<lparr>df_temporary = [], df_permanent = [], df_ordered = []\<rparr>"

text \<open>
  The whole function. The path never repeats a plugin, so fuel above the number of plugins is
  enough; \<open>None\<close> is the answer when it is not.
\<close>

definition order_with :: "nat \<Rightarrow> runtime_plugin list \<Rightarrow> string list \<Rightarrow>
    (kernel_error + runtime_plugin list) option" where
  "order_with fuel specs bootstrap =
     (case index_plugins specs [] [] of
        Inl err \<Rightarrow> Some (Inl err)
      | Inr (byId, providers) \<Rightarrow>
          (case dependencies_of providers bootstrap specs [] of
             Inl err \<Rightarrow> Some (Inl err)
           | Inr deps \<Rightarrow>
               map_option (map_sum id df_ordered)
                 (each_until (\<lambda>p. dfs_visit fuel deps byId (rp_id p) []) specs dfs_start)))"

definition validateAndOrder :: "runtime_plugin list \<Rightarrow> string list \<Rightarrow> kernel_error + runtime_plugin list" where
  "validateAndOrder specs bootstrap =
     (case order_with (Suc (length specs)) specs bootstrap of
        None \<Rightarrow> Inl (PluginDependencyCycle [])
      | Some r \<Rightarrow> r)"

section \<open>The search\<close>

definition deps_first :: "(string \<Rightarrow> string list) \<Rightarrow> string list \<Rightarrow> bool" where
  "deps_first needs xs \<longleftrightarrow> (\<forall>ys x zs. xs = ys @ x # zs \<longrightarrow> set (needs x) \<subseteq> set ys)"

definition dependency_cycle :: "(string \<Rightarrow> string list) \<Rightarrow> string list \<Rightarrow> bool" where
  "dependency_cycle needs c \<longleftrightarrow> 2 \<le> length c \<and> hd c = last c \<and> successively (\<lambda>x y. y \<in> set (needs x)) c"

lemma deps_first_Nil [simp]: "deps_first needs []"
  by (simp add: deps_first_def)

lemma deps_first_snoc [simp]:
  "deps_first needs (xs @ [x]) \<longleftrightarrow> deps_first needs xs \<and> set (needs x) \<subseteq> set xs"
proof
  assume *: "deps_first needs (xs @ [x])"
  have "set (needs y) \<subseteq> set ys" if "xs = ys @ y # zs" for ys y zs
    using * that unfolding deps_first_def by (metis append.assoc append_Cons)
  with * show "deps_first needs xs \<and> set (needs x) \<subseteq> set xs"
    unfolding deps_first_def by blast
next
  assume *: "deps_first needs xs \<and> set (needs x) \<subseteq> set xs"
  have "set (needs y) \<subseteq> set ys" if "xs @ [x] = ys @ y # zs" for ys y zs
    using that * by (cases zs rule: rev_cases) (auto simp: deps_first_def)
  then show "deps_first needs (xs @ [x])" unfolding deps_first_def by blast
qed

lemma cycle_of_path:
  assumes "successively (\<lambda>x y. y \<in> set (needs x)) path" and "x \<in> set path" and "x \<in> set (needs (last path))"
  shows "dependency_cycle needs (path_from x path @ [x])"
proof -
  from assms(2) obtain zs where p: "path_from x path = x # zs"
    unfolding path_from_def by (metis (mono_tags, lifting) dropWhile_eq_Nil_conv hd_dropWhile list.collapse)
  obtain ys where ys: "path = ys @ path_from x path"
    unfolding path_from_def by (metis takeWhile_dropWhile_id)
  with assms(1) have "successively (\<lambda>x y. y \<in> set (needs x)) (path_from x path)"
    by (metis successively_append_iff)
  moreover have "last path = last (x # zs)" using ys p by (metis last_appendR list.discI)
  ultimately have "successively (\<lambda>x y. y \<in> set (needs x)) ((x # zs) @ [x])"
    using p assms(3) unfolding successively_append_iff by simp
  then show ?thesis using p by (simp add: dependency_cycle_def)
qed

lemma each_until_rule:
  assumes "P s"
    and "\<And>x s. x \<in> set xs \<Longrightarrow> P s \<Longrightarrow>
      \<exists>r. f x s = Some r \<and> (case r of Inl e \<Rightarrow> Q e | Inr s' \<Rightarrow> P s' \<and> g x \<in> S s' \<and> S s \<subseteq> S s')"
  shows "\<exists>r. each_until f xs s = Some r \<and>
      (case r of Inl e \<Rightarrow> Q e | Inr s' \<Rightarrow> P s' \<and> g ` set xs \<subseteq> S s' \<and> S s \<subseteq> S s')"
  using assms
proof (induction xs arbitrary: s)
  case (Cons x xs)
  obtain r where r: "f x s = Some r"
    "case r of Inl e \<Rightarrow> Q e | Inr s' \<Rightarrow> P s' \<and> g x \<in> S s' \<and> S s \<subseteq> S s'"
    using Cons.prems(2) [OF _ Cons.prems(1), of x] by auto
  show ?case
  proof (cases r)
    case (Inr s1)
    with r have s1: "P s1" "g x \<in> S s1" "S s \<subseteq> S s1" by simp_all
    from Cons.IH [OF s1(1) Cons.prems(2)] obtain r' where "each_until f xs s1 = Some r'"
      "case r' of Inl e \<Rightarrow> Q e | Inr s' \<Rightarrow> P s' \<and> g ` set xs \<subseteq> S s' \<and> S s1 \<subseteq> S s'" by auto
    with r Inr s1 show ?thesis by (auto split: sum.splits)
  qed (use r in simp)
qed simp

definition needs_of :: "(string, string list) jsmap \<Rightarrow> string \<Rightarrow> string list" where
  "needs_of deps x = coalesce (map_of deps x) []"

text \<open>What the search keeps: the open plugins are the path, the closed ones are ordered.\<close>

definition dfs_inv :: "(string, string list) jsmap \<Rightarrow> (string, runtime_plugin) jsmap \<Rightarrow> string list \<Rightarrow>
    dfs_state \<Rightarrow> bool" where
  "dfs_inv deps byId path d \<longleftrightarrow>
     set (df_temporary d) = set path \<and> distinct path \<and> set path \<subseteq> set (map fst byId) \<and>
     successively (\<lambda>x y. y \<in> set (needs_of deps x)) path \<and>
     set (df_permanent d) = rp_id ` set (df_ordered d) \<and> set (df_permanent d) \<inter> set path = {} \<and>
     distinct (map rp_id (df_ordered d)) \<and> deps_first (needs_of deps) (map rp_id (df_ordered d)) \<and>
     list_all (\<lambda>p. map_of byId (rp_id p) = Some p) (df_ordered d)"

definition graph_ok :: "(string, string list) jsmap \<Rightarrow> (string, runtime_plugin) jsmap \<Rightarrow> bool" where
  "graph_ok deps byId \<longleftrightarrow> (\<forall>x p. map_of byId x = Some p \<longrightarrow> rp_id p = x \<and>
     set (needs_of deps x) \<subseteq> set (map fst byId))"

lemma dfs_visit_correct:
  assumes "graph_ok deps byId" and "dfs_inv deps byId path d" and "x \<in> set (map fst byId)"
    and "path = [] \<or> x \<in> set (needs_of deps (last path))"
    and "card (set (map fst byId)) < n + length path"
  shows "\<exists>r. dfs_visit n deps byId x path d = Some r \<and> (case r of
      Inl e \<Rightarrow> \<exists>c. e = PluginDependencyCycle c \<and> dependency_cycle (needs_of deps) c
    | Inr d' \<Rightarrow> dfs_inv deps byId path d' \<and> x \<in> set (df_permanent d') \<and>
        set (df_permanent d) \<subseteq> set (df_permanent d'))"
  using assms(2-5)
proof (induction n arbitrary: x path d)
  case 0
  have "length path = card (set path)" using 0 by (simp add: dfs_inv_def distinct_card)
  also have "\<dots> \<le> card (set (map fst byId))" using 0 by (intro card_mono) (simp_all add: dfs_inv_def)
  finally show ?case using 0 by simp
next
  case (Suc n)
  note inv = Suc.prems(1)
  consider (closed) "x \<in> set (df_permanent d)" | (seen) "x \<notin> set (df_permanent d)" "x \<in> set path"
    | (new) "x \<notin> set (df_permanent d)" "x \<notin> set path" by blast
  then show ?case
  proof cases
    case closed
    with inv show ?thesis by simp
  next
    case seen
    with inv Suc.prems(3) have "dependency_cycle (needs_of deps) (path_from x path @ [x])"
      by (intro cycle_of_path) (auto simp: dfs_inv_def)
    with seen inv show ?thesis by (simp add: dfs_inv_def)
  next
    case new
    let ?d = "d\<lparr>df_temporary := js_set_add x (df_temporary d)\<rparr>" and ?path = "path @ [x]"
    let ?f = "\<lambda>y. dfs_visit n deps byId y ?path"
    have inv': "dfs_inv deps byId ?path ?d" using inv new Suc.prems(2,3)
      by (auto simp: dfs_inv_def successively_append_iff)
    from Suc.prems(2) obtain p where p: "map_of byId x = Some p"
      by (metis map_of_eq_None_iff not_None_eq set_map)
    with assms(1) have id: "rp_id p = x" and in_graph: "set (needs_of deps x) \<subseteq> set (map fst byId)"
      by (auto simp: graph_ok_def)
    have "\<exists>r. each_until ?f (needs_of deps x) ?d = Some r \<and> (case r of
        Inl e \<Rightarrow> \<exists>c. e = PluginDependencyCycle c \<and> dependency_cycle (needs_of deps) c
      | Inr d' \<Rightarrow> dfs_inv deps byId ?path d' \<and> id ` set (needs_of deps x) \<subseteq> set (df_permanent d') \<and>
          set (df_permanent ?d) \<subseteq> set (df_permanent d'))"
      using inv'
    proof (rule each_until_rule)
      fix y s assume y: "y \<in> set (needs_of deps x)" "dfs_inv deps byId ?path s"
      then have "y \<in> set (map fst byId)" using in_graph by blast
      with y show "\<exists>r. ?f y s = Some r \<and> (case r of
          Inl e \<Rightarrow> \<exists>c. e = PluginDependencyCycle c \<and> dependency_cycle (needs_of deps) c
        | Inr d' \<Rightarrow> dfs_inv deps byId ?path d' \<and> id y \<in> set (df_permanent d') \<and>
            set (df_permanent s) \<subseteq> set (df_permanent d'))"
        unfolding id_apply using Suc.IH [of ?path s y] Suc.prems(4) by simp
    qed
    then obtain r where r: "each_until ?f (needs_of deps x) ?d = Some r" and post: "case r of
        Inl e \<Rightarrow> \<exists>c. e = PluginDependencyCycle c \<and> dependency_cycle (needs_of deps) c
      | Inr d' \<Rightarrow> dfs_inv deps byId ?path d' \<and> id ` set (needs_of deps x) \<subseteq> set (df_permanent d') \<and>
          set (df_permanent ?d) \<subseteq> set (df_permanent d')" by blast
    show ?thesis
    proof (cases r)
      case (Inl e)
      with r post new inv show ?thesis by (simp add: dfs_inv_def needs_of_def)
    next
      case (Inr d')
      let ?e = "d'\<lparr>df_temporary := js_set_delete x (df_temporary d'),
          df_permanent := js_set_add x (df_permanent d'), df_ordered := df_ordered d' @ [p]\<rparr>"
      from Inr post have d': "dfs_inv deps byId ?path d'" "set (needs_of deps x) \<subseteq> set (df_permanent d')"
        "set (df_permanent d) \<subseteq> set (df_permanent d')" by simp_all
      have "dfs_visit (Suc n) deps byId x path d = Some (Inr ?e)"
        using r new inv p by (simp add: Inr dfs_inv_def needs_of_def)
      moreover have "dfs_inv deps byId path ?e" using d' p id new
        by (auto simp: dfs_inv_def successively_append_iff)
      ultimately show ?thesis using d'(3) by auto
    qed
  qed
qed

section \<open>Indexing the graph\<close>

definition provider_in :: "runtime_plugin list \<Rightarrow> string \<Rightarrow> string \<Rightarrow> bool" where
  "provider_in ps s q \<longleftrightarrow> (\<exists>p\<in>set ps. rp_id p = q \<and> s \<in> set (provided p))"

lemma index_services_Inr:
  "index_services pid ss m = Inr m' \<Longrightarrow>
   map_of m' s = (if s \<in> set ss then Some pid else map_of m s)"
  by (induction pid ss m rule: index_services.induct) (auto split: option.splits if_splits)

lemma index_services_Inl:
  "index_services pid ss m = Inl e \<Longrightarrow>
   \<exists>s existing. e = DuplicateServiceProvider s [existing, pid] \<and> s \<in> set ss \<and>
     (map_of m s = Some existing \<or> existing = pid \<and> \<not> distinct ss)"
  by (induction pid ss m rule: index_services.induct) (auto split: option.splits if_splits)

lemma index_plugins_Inr:
  "index_plugins ps byId providers = Inr (byId', providers') \<Longrightarrow>
   byId' = byId @ map (\<lambda>p. (rp_id p, p)) ps \<and> (distinct (map fst byId) \<longrightarrow> distinct (map fst byId')) \<and>
   (\<forall>s q. map_of providers' s = Some q \<longrightarrow> map_of providers s = Some q \<or> provider_in ps s q) \<and>
   (\<forall>s. map_of providers s \<noteq> None \<or> (\<exists>p\<in>set ps. s \<in> set (provided p)) \<longrightarrow> map_of providers' s \<noteq> None)"
proof (induction ps byId providers rule: index_plugins.induct)
  case (2 p ps byId providers)
  from "2.prems" have new: "map_of byId (rp_id p) = None" by (auto split: if_splits)
  with "2.prems" obtain m where m: "index_services (rp_id p) (provided p) providers = Inr m"
    and rest: "index_plugins ps (jsmap_set (rp_id p) p byId) m = Inr (byId', providers')"
    by (auto split: if_splits sum.splits)
  note IH = "2.IH" [OF _ m rest] and step = index_services_Inr [OF m]
  from IH new have "byId' = byId @ map (\<lambda>p. (rp_id p, p)) (p # ps)" by (simp add: jsmap_set_new)
  moreover from IH new have "distinct (map fst byId) \<longrightarrow> distinct (map fst byId')"
    using distinct_update [of byId "rp_id p" p] by blast
  moreover have "map_of providers s = Some q \<or> provider_in (p # ps) s q" if "map_of providers' s = Some q" for s q
  proof -
    from IH new that have "map_of m s = Some q \<or> provider_in ps s q" by blast
    with step [of s] show ?thesis by (auto simp: provider_in_def split: if_splits)
  qed
  moreover have "map_of providers' s \<noteq> None"
    if "map_of providers s \<noteq> None \<or> (\<exists>p\<in>set (p # ps). s \<in> set (provided p))" for s
  proof -
    have "map_of m s \<noteq> None \<or> (\<exists>p\<in>set ps. s \<in> set (provided p))" using that step [of s] by auto
    with IH new show ?thesis by blast
  qed
  ultimately show ?case by blast
qed simp

lemma edges_of_Inr:
  "edges_of pid providers bootstrap ss acc = Inr es \<Longrightarrow>
   set es = set acc \<union> {q. \<exists>s\<in>set ss. map_of providers s = Some q} \<and>
   (\<forall>s\<in>set ss. map_of providers s \<noteq> None \<or> s \<in> set bootstrap)"
  by (induction pid providers bootstrap ss acc rule: edges_of.induct) (auto split: option.splits if_splits)

lemma edges_of_Inl:
  "edges_of pid providers bootstrap ss acc = Inl e \<Longrightarrow>
   \<exists>s\<in>set ss. e = MissingPluginDependency pid s \<and> map_of providers s = None \<and> s \<notin> set bootstrap"
  by (induction pid providers bootstrap ss acc rule: edges_of.induct) (auto split: option.splits if_splits)

lemma dependencies_of_Inr:
  "dependencies_of providers bootstrap ps deps = Inr deps' \<Longrightarrow> distinct (map rp_id ps) \<Longrightarrow>
   (\<forall>x. x \<notin> rp_id ` set ps \<longrightarrow> map_of deps' x = map_of deps x) \<and>
   (\<forall>p\<in>set ps. \<exists>es. map_of deps' (rp_id p) = Some es \<and>
      edges_of (rp_id p) providers bootstrap (injected p) [] = Inr es)"
proof (induction providers bootstrap ps deps rule: dependencies_of.induct)
  case (2 providers bootstrap p ps deps)
  from "2.prems" obtain es where es: "edges_of (rp_id p) providers bootstrap (injected p) [] = Inr es"
    and rest: "dependencies_of providers bootstrap ps (jsmap_set (rp_id p) es deps) = Inr deps'"
    by (auto split: sum.splits)
  from "2.IH" [OF es rest] "2.prems"(2) es show ?case by auto
qed simp

lemma dependencies_of_Inl:
  "dependencies_of providers bootstrap ps deps = Inl e \<Longrightarrow>
   \<exists>p\<in>set ps. \<exists>s\<in>set (injected p). e = MissingPluginDependency (rp_id p) s \<and>
     map_of providers s = None \<and> s \<notin> set bootstrap"
  by (induction providers bootstrap ps deps rule: dependencies_of.induct)
     (auto split: sum.splits dest!: edges_of_Inl)

text \<open>One plugin needs another when the other provides a service that it injects.\<close>

definition depends_on :: "runtime_plugin list \<Rightarrow> string \<Rightarrow> string \<Rightarrow> bool" where
  "depends_on specs x y \<longleftrightarrow> (\<exists>p\<in>set specs. rp_id p = x \<and> (\<exists>s\<in>set (injected p). provider_in specs s y))"

text \<open>The reason an error gives, as a fact about the graph.\<close>

fun refusal_justified :: "runtime_plugin list \<Rightarrow> string list \<Rightarrow> kernel_error \<Rightarrow> bool" where
  "refusal_justified specs bootstrap (DuplicatePlugin x) \<longleftrightarrow>
     1 < length (filter (\<lambda>p. rp_id p = x) specs)"
| "refusal_justified specs bootstrap (DuplicateServiceProvider s qs) \<longleftrightarrow>
     (\<exists>a b. qs = [a, b] \<and> provider_in specs s a \<and> provider_in specs s b \<and>
       (a \<noteq> b \<or> (\<exists>p\<in>set specs. rp_id p = a \<and> \<not> distinct (provided p))))"
| "refusal_justified specs bootstrap (MissingPluginDependency x s) \<longleftrightarrow>
     s \<notin> set bootstrap \<and> (\<forall>q. \<not> provider_in specs s q) \<and> (\<exists>p\<in>set specs. rp_id p = x \<and> s \<in> set (injected p))"
| "refusal_justified specs bootstrap (PluginDependencyCycle c) \<longleftrightarrow>
     2 \<le> length c \<and> hd c = last c \<and> successively (depends_on specs) c"
| "refusal_justified specs bootstrap _ \<longleftrightarrow> False"

lemma index_plugins_Inl:
  "index_plugins ps byId providers = Inl e \<Longrightarrow> byId = map (\<lambda>p. (rp_id p, p)) before \<Longrightarrow>
   distinct (map rp_id before) \<Longrightarrow> \<forall>s q. map_of providers s = Some q \<longrightarrow> provider_in before s q \<Longrightarrow>
   refusal_justified (before @ ps) bootstrap e"
proof (induction ps byId providers arbitrary: before rule: index_plugins.induct)
  case (2 p ps byId providers)
  show ?case
  proof (cases "map_of byId (rp_id p)")
    case (Some q)
    then obtain d where "d \<in> set before" "rp_id d = rp_id p"
      using "2.prems"(2) by (auto dest!: map_of_SomeD)
    then have "0 < length (filter (\<lambda>q. rp_id q = rp_id p) before)"
      by (auto simp: filter_empty_conv)
    with Some "2.prems"(1) show ?thesis by auto
  next
    case None
    show ?thesis
    proof (cases "index_services (rp_id p) (provided p) providers")
      case (Inl err)
      with None "2.prems"(1) have e: "e = err" by simp
      from index_services_Inl [OF Inl] obtain s a where err: "err = DuplicateServiceProvider s [a, rp_id p]"
        "s \<in> set (provided p)" "map_of providers s = Some a \<or> a = rp_id p \<and> \<not> distinct (provided p)" by blast
      have pin: "provider_in (before @ p # ps) s (rp_id p)" using err(2) by (auto simp: provider_in_def)
      from err(3) show ?thesis
      proof
        assume "map_of providers s = Some a"
        with "2.prems"(4) have before: "provider_in before s a" by blast
        then have "a \<in> rp_id ` set before" by (auto simp: provider_in_def)
        moreover have "rp_id p \<notin> rp_id ` set before" using None "2.prems"(2)
          by (auto simp: map_of_eq_None_iff image_image)
        ultimately have "a \<noteq> rp_id p" by blast
        with before pin e err(1) show ?thesis by (auto simp: provider_in_def)
      qed (use pin e err(1) in auto)
    next
      case (Inr m)
      have "refusal_justified ((before @ [p]) @ ps) bootstrap e"
      proof (rule "2.IH" [OF _ Inr])
        show "\<not> map_of byId (rp_id p) \<noteq> None" using None by simp
        show "index_plugins ps (jsmap_set (rp_id p) p byId) m = Inl e" using None Inr "2.prems"(1) by simp
        show "jsmap_set (rp_id p) p byId = map (\<lambda>p. (rp_id p, p)) (before @ [p])"
          using None "2.prems"(2) by (simp add: jsmap_set_new)
        show "distinct (map rp_id (before @ [p]))" using None "2.prems"(2,3)
          by (auto simp: map_of_eq_None_iff image_image)
        show "\<forall>s q. map_of m s = Some q \<longrightarrow> provider_in (before @ [p]) s q"
          using index_services_Inr [OF Inr] "2.prems"(4) by (auto simp: provider_in_def)
      qed
      then show ?thesis by simp
    qed
  qed
qed simp

definition providers_before :: "runtime_plugin list \<Rightarrow> string list \<Rightarrow> runtime_plugin list \<Rightarrow> bool" where
  "providers_before specs bootstrap ordered \<longleftrightarrow> (\<forall>ys p zs. ordered = ys @ p # zs \<longrightarrow>
     (\<forall>s\<in>set (injected p). if \<exists>q. provider_in specs s q then \<exists>q\<in>set ys. s \<in> set (provided q)
       else s \<in> set bootstrap))"

lemma order_with_result:
  "\<exists>r. order_with (Suc (length specs)) specs bootstrap = Some r \<and> (case r of
      Inl e \<Rightarrow> refusal_justified specs bootstrap e
    | Inr ordered \<Rightarrow> mset ordered = mset specs \<and> distinct (map rp_id specs) \<and>
        providers_before specs bootstrap ordered)"
proof (cases "index_plugins specs [] []")
  case (Inl e)
  from index_plugins_Inl [OF Inl, of "[]"] Inl show ?thesis by (simp add: order_with_def)
next
  case (Inr indexed)
  obtain byId providers where ix: "indexed = (byId, providers)" by fastforce
  note index = index_plugins_Inr [OF Inr [unfolded ix]]
  from index have byId: "byId = map (\<lambda>p. (rp_id p, p)) specs" by simp
  from index have "distinct (map fst byId)" by (metis distinct.simps(1) list.map(1))
  then have ids: "distinct (map rp_id specs)" by (simp add: byId o_def)
  have prov: "provider_in specs s q" if "map_of providers s = Some q" for s q
    using index that by auto
  have unprov: "\<not> provider_in specs s q" if "map_of providers s = None" for s q
    using index that by (auto simp: provider_in_def)
  have keys: "set (map fst byId) = rp_id ` set specs" by (simp add: byId image_image)
  have find: "map_of byId (rp_id p) = Some p" if "p \<in> set specs" for p
    using that ids by (simp add: byId map_of_eq_Some_iff o_def)
  show ?thesis
  proof (cases "dependencies_of providers bootstrap specs []")
    case err: (Inl e)
    from dependencies_of_Inl [OF err] unprov Inr err show ?thesis
      by (auto simp: order_with_def ix)
  next
    case deps: (Inr deps)
    have needs: "set (needs_of deps (rp_id p)) = {q. \<exists>s\<in>set (injected p). map_of providers s = Some q} \<and>
        (\<forall>s\<in>set (injected p). map_of providers s \<noteq> None \<or> s \<in> set bootstrap)" if "p \<in> set specs" for p
    proof -
      from dependencies_of_Inr [OF deps ids] that obtain es where "map_of deps (rp_id p) = Some es"
        "edges_of (rp_id p) providers bootstrap (injected p) [] = Inr es" by blast
      then show ?thesis using edges_of_Inr [of "rp_id p" providers bootstrap "injected p" "[]" es]
        by (simp add: needs_of_def)
    qed
    have sub: "set (needs_of deps (rp_id p)) \<subseteq> rp_id ` set specs" if "p \<in> set specs" for p
      using needs [OF that] prov by (auto simp: provider_in_def)
    have dep: "depends_on specs x y" if "y \<in> set (needs_of deps x)" "x \<in> rp_id ` set specs" for x y
    proof -
      from that(2) obtain p where p: "p \<in> set specs" "rp_id p = x" by blast
      with needs [OF p(1)] that(1) obtain s where "s \<in> set (injected p)" "map_of providers s = Some y" by auto
      with p prov show ?thesis unfolding depends_on_def by blast
    qed
    have none: "needs_of deps x = []" if "x \<notin> rp_id ` set specs" for x
      using dependencies_of_Inr [OF deps ids] that by (simp add: needs_of_def)
    have graph: "graph_ok deps byId"
      unfolding graph_ok_def keys
    proof (intro allI impI)
      fix x p assume "map_of byId x = Some p"
      then have "p \<in> set specs" "rp_id p = x" using map_of_SomeD [of byId x p] by (auto simp: byId)
      then show "rp_id p = x \<and> set (needs_of deps x) \<subseteq> rp_id ` set specs" using sub by blast
    qed
    let ?f = "\<lambda>p. dfs_visit (Suc (length specs)) deps byId (rp_id p) []"
    have start: "dfs_inv deps byId [] dfs_start" by (simp add: dfs_inv_def dfs_start_def)
    have card: "card (set (map fst byId)) < Suc (length specs)"
      unfolding keys using card_image_le [of "set specs" rp_id] card_length [of specs] by simp
    have "\<exists>r. each_until ?f specs dfs_start = Some r \<and> (case r of
        Inl e \<Rightarrow> \<exists>c. e = PluginDependencyCycle c \<and> dependency_cycle (needs_of deps) c
      | Inr d \<Rightarrow> dfs_inv deps byId [] d \<and> rp_id ` set specs \<subseteq> set (df_permanent d) \<and>
          set (df_permanent dfs_start) \<subseteq> set (df_permanent d))"
      using start
    proof (rule each_until_rule)
      fix p s assume "p \<in> set specs" "dfs_inv deps byId [] s"
      then show "\<exists>r. ?f p s = Some r \<and> (case r of
          Inl e \<Rightarrow> \<exists>c. e = PluginDependencyCycle c \<and> dependency_cycle (needs_of deps) c
        | Inr d \<Rightarrow> dfs_inv deps byId [] d \<and> rp_id p \<in> set (df_permanent d) \<and>
            set (df_permanent s) \<subseteq> set (df_permanent d))"
        using dfs_visit_correct [OF graph, of "[]" s "rp_id p" "Suc (length specs)"] card
        unfolding keys by simp
    qed
    then obtain r where r: "each_until ?f specs dfs_start = Some r" and post: "case r of
        Inl e \<Rightarrow> \<exists>c. e = PluginDependencyCycle c \<and> dependency_cycle (needs_of deps) c
      | Inr d \<Rightarrow> dfs_inv deps byId [] d \<and> rp_id ` set specs \<subseteq> set (df_permanent d) \<and>
          set (df_permanent dfs_start) \<subseteq> set (df_permanent d)" by blast
    have run: "order_with (Suc (length specs)) specs bootstrap = Some (map_sum id df_ordered r)"
      using Inr deps r by (simp add: order_with_def ix)
    show ?thesis
    proof (cases r)
      case err: (Inl e)
      with post obtain c where c: "e = PluginDependencyCycle c" "dependency_cycle (needs_of deps) c" by auto
      have "successively (depends_on specs) c"
        using c(2) unfolding dependency_cycle_def
        by (auto elim!: successively_mono intro: dep simp: dest: ccontr) (metis dep empty_iff empty_set none)
      with c run err show ?thesis by (simp add: dependency_cycle_def)
    next
      case ok: (Inr d)
      with post have inv: "dfs_inv deps byId [] d" and all: "rp_id ` set specs \<subseteq> set (df_permanent d)" by simp_all
      let ?o = "df_ordered d"
      have mem: "p \<in> set ?o \<longleftrightarrow> p \<in> set specs" for p
      proof
        assume "p \<in> set ?o"
        with inv have "map_of byId (rp_id p) = Some p" by (auto simp: dfs_inv_def list_all_iff)
        then show "p \<in> set specs" using map_of_SomeD [of byId] by (auto simp: byId)
      next
        assume p: "p \<in> set specs"
        with all inv obtain q where q: "q \<in> set ?o" "rp_id q = rp_id p" by (auto simp: dfs_inv_def)
        with inv have "map_of byId (rp_id p) = Some q" by (auto simp: dfs_inv_def list_all_iff)
        with find [OF p] q show "p \<in> set ?o" by simp
      qed
      have "distinct ?o" using inv by (auto simp: dfs_inv_def distinct_map)
      moreover have "distinct specs" using ids by (simp add: distinct_map)
      ultimately have "mset ?o = mset specs" using mem by (simp add: set_eq_iff_mset_eq_distinct [symmetric] set_eq_iff)
      moreover have "providers_before specs bootstrap ?o"
        unfolding providers_before_def
      proof (intro allI impI ballI)
        fix ys p zs s assume split: "?o = ys @ p # zs" and s: "s \<in> set (injected p)"
        then have p: "p \<in> set specs" using mem [of p] by simp
        have "map rp_id ?o = map rp_id ys @ rp_id p # map rp_id zs" by (simp add: split)
        with inv have first: "set (needs_of deps (rp_id p)) \<subseteq> rp_id ` set ys"
          unfolding dfs_inv_def deps_first_def by (metis list.set_map)
        show "if \<exists>q. provider_in specs s q then \<exists>q\<in>set ys. s \<in> set (provided q) else s \<in> set bootstrap"
        proof (cases "map_of providers s")
          case None
          with unprov needs [OF p] s show ?thesis by auto
        next
          case (Some q)
          with needs [OF p] s first obtain y where y: "y \<in> set ys" "rp_id y = q" by blast
          from prov [OF Some] obtain q' where q': "q' \<in> set specs" "rp_id q' = q" "s \<in> set (provided q')"
            by (auto simp: provider_in_def)
          have "y \<in> set specs" using y split mem [of y] by simp
          with find y q' have "y = q'" by (metis option.inject)
          with y q' prov [OF Some] show ?thesis by auto
        qed
      qed
      ultimately show ?thesis using run ok ids by simp
    qed
  qed
qed

text \<open>
  C19: A plugin is activated after every plugin it needs. The order of an accepted graph is a
  permutation of its plugins, all with different ids; before each plugin comes one that
  provides each service it injects, and a service that no plugin provides is one of the
  bootstrap services.
\<close>

theorem order_puts_providers_first:
  assumes "validateAndOrder specs bootstrap = Inr ordered"
  shows "mset ordered = mset specs \<and> distinct (map rp_id specs) \<and> providers_before specs bootstrap ordered"
  using order_with_result [of specs bootstrap] assms by (auto simp: validateAndOrder_def)

text \<open>
  C23: A graph is refused only for the reason given. The search always ends with the fuel it is
  given, and the error of a refused graph is a fact about it: an id that occurs twice, a
  service with two providers, a service that a plugin injects and nothing provides, or a cycle
  of plugins each of which injects a service of the next.
\<close>

theorem refused_for_cause:
  "order_with (Suc (length specs)) specs bootstrap \<noteq> None \<and>
   (\<forall>e. validateAndOrder specs bootstrap = Inl e \<longrightarrow> refusal_justified specs bootstrap e)"
  using order_with_result [of specs bootstrap] by (auto simp: validateAndOrder_def)

section \<open>Plans\<close>

text \<open>
  A descriptor is an object whose members may be \<open>undefined\<close>: \<open>canonicalJson\<close> prints
  \<open>JSON.stringify(undefined)\<close>, which is not a string, as \<open>undefined\<close>.
\<close>

definition or_undefined :: "('a \<Rightarrow> json) \<Rightarrow> 'a option \<Rightarrow> string" where
  "or_undefined f v = (case v of None \<Rightarrow> ''undefined'' | Some x \<Rightarrow> canonicalJson (f x))"

definition object_text :: "(string \<times> string) list \<Rightarrow> string" where
  "object_text members = CHR ''{'' # join_comma (map (\<lambda>(k, t). json_string k @ CHR '':'' # t)
     (sort_members members)) @ ''}''"

definition strings :: "string list \<Rightarrow> json" where
  "strings xs = JArr (map JStr xs)"

fun tier_json :: "replacement_tier \<Rightarrow> json" where
  "tier_json TierA = JStr ''a''"
| "tier_json TierB = JStr ''b''"
| "tier_json TierC = JStr ''c''"

definition pluginDescriptor :: "runtime_plugin \<Rightarrow> string" where
  "pluginDescriptor p = object_text
     [(''id'', json_string (rp_id p)), (''version'', json_string (rp_version p)),
      (''config'', or_undefined id (rp_config p)), (''inject'', or_undefined strings (rp_inject p)),
      (''provides'', or_undefined strings (rp_provides p)),
      (''replacementTier'', or_undefined tier_json (rp_tier p))]"

definition pluginDescriptorDigest :: "(string \<Rightarrow> string) \<Rightarrow> runtime_plugin \<Rightarrow> string" where
  "pluginDescriptorDigest sha256 p = ''sha256:'' @ sha256 (pluginDescriptor p)"

definition pluginGraphDigest :: "(string \<Rightarrow> string) \<Rightarrow> runtime_plugin list \<Rightarrow> string" where
  "pluginGraphDigest sha256 ps =
     ''sha256:'' @ sha256 (CHR ''['' # join_comma (map pluginDescriptor ps) @ '']'')"

definition topologyDescriptor :: "runtime_plugin \<Rightarrow> string" where
  "topologyDescriptor p = object_text
     [(''id'', json_string (rp_id p)), (''version'', json_string (rp_version p)),
      (''inject'', or_undefined strings (rp_inject p)), (''provides'', or_undefined strings (rp_provides p))]"

definition replacementTier :: "runtime_plugin option \<Rightarrow> runtime_plugin option \<Rightarrow> replacement_tier" where
  "replacementTier before after =
     (let tier_of = (\<lambda>p. coalesce (Option.bind p rp_tier) TierB); tiers = [tier_of before, tier_of after]
      in if List.member tiers TierC then TierC else if List.member tiers TierB then TierB else TierA)"

datatype change_kind = Added | Removed | Configured | Replaced

record plugin_change =
  pc_pluginId :: string
  pc_kind :: change_kind
  pc_tier :: replacement_tier

datatype plan_kind = PlanUnchanged | PlanLiveUpdate | PlanGenerationSwap | PlanRestartRequired

record reconcile_plan =
  pl_kind :: plan_kind
  pl_changes :: "plugin_change list"

text \<open>A \<open>Map\<close> built from entries: the last value of a key, in the place of its first.\<close>

definition map_by_id :: "runtime_plugin list \<Rightarrow> (string, runtime_plugin) jsmap" where
  "map_by_id ps = fold (\<lambda>p. jsmap_set (rp_id p) p) ps []"

text \<open>The change of one plugin, if it changed.\<close>

definition change_of :: "(string \<Rightarrow> string) \<Rightarrow> string \<Rightarrow> runtime_plugin option \<Rightarrow> runtime_plugin option \<Rightarrow>
    plugin_change option" where
  "change_of sha256 pid before after =
     (let kind = (case (before, after) of
          (None, _) \<Rightarrow> Added
        | (Some b, None) \<Rightarrow> Removed
        | (Some b, Some a) \<Rightarrow> if topologyDescriptor b = topologyDescriptor a then Configured else Replaced);
        tier = replacementTier before after;
        tier' = (if kind \<noteq> Configured \<and> tier = TierA then TierB else tier);
        same = (case (before, after) of
          (Some b, Some a) \<Rightarrow> pluginDescriptorDigest sha256 b = pluginDescriptorDigest sha256 a | _ \<Rightarrow> False)
      in if same then None else Some \<lparr>pc_pluginId = pid, pc_kind = kind, pc_tier = tier'\<rparr>)"

definition createReconcilePlan :: "(string \<Rightarrow> string) \<Rightarrow> runtime_plugin list \<Rightarrow> runtime_plugin list \<Rightarrow>
    reconcile_plan" where
  "createReconcilePlan sha256 current incoming =
     (let before = map_by_id current; after = map_by_id incoming;
        ids = fold js_set_add (jsmap_keys before @ jsmap_keys after) [];
        changes = List.map_filter (\<lambda>i. change_of sha256 i (map_of before i) (map_of after i)) ids
      in \<lparr>pl_kind = (if changes = [] then PlanUnchanged
           else if list_ex (\<lambda>c. pc_tier c = TierC) changes then PlanRestartRequired
           else if list_all (\<lambda>c. pc_tier c = TierA \<and> pc_kind c = Configured) changes then PlanLiveUpdate
           else PlanGenerationSwap),
         pl_changes = changes\<rparr>)"

text \<open>The topology text determines the version and the two lists of services.\<close>

lemma canonical_strings: "canonicalJson (strings xs) = print_json (strings xs)"
  by (simp add: strings_def o_def)

lemma strings_inject [simp]: "strings xs = strings ys \<longleftrightarrow> xs = ys"
  by (auto simp: strings_def inj_map_eq_map inj_def)

lemma strings_text:
  "print_json (strings xs) @ r = print_json (strings ys) @ r' \<Longrightarrow> delim r \<Longrightarrow> delim r' \<Longrightarrow> xs = ys \<and> r = r'"
  "print_json (strings xs) @ r \<noteq> ''undefined'' @ r'"
  using print_inject [of "strings xs" r "strings ys" r'] by (simp, simp add: strings_def)

lemma or_undefined_simps [simp]:
  "or_undefined f None = ''undefined''" "or_undefined strings (Some xs) = print_json (strings xs)"
  by (simp_all add: or_undefined_def canonical_strings)

lemma or_undefined_inject:
  "or_undefined strings v @ r = or_undefined strings w @ r' \<Longrightarrow> delim r \<Longrightarrow> delim r' \<Longrightarrow> v = w \<and> r = r'"
  using strings_text(2) [of _ r r'] strings_text(2) [of _ r' r]
  by (cases v; cases w) (auto dest: strings_text(1) sym)

lemma topology_text:
  "topologyDescriptor p = CHR ''{'' # json_string ''id'' @ CHR '':'' # json_string (rp_id p) @ CHR '','' #
     json_string ''inject'' @ CHR '':'' # or_undefined strings (rp_inject p) @ CHR '','' #
     json_string ''provides'' @ CHR '':'' # or_undefined strings (rp_provides p) @ CHR '','' #
     json_string ''version'' @ CHR '':'' # json_string (rp_version p) @ ''}''"
  by (simp add: topologyDescriptor_def object_text_def sort_members_def code_unit_compare_def)

lemma topology_inject:
  assumes "topologyDescriptor p = topologyDescriptor q"
  shows "rp_version p = rp_version q \<and> rp_inject p = rp_inject q \<and> rp_provides p = rp_provides q"
proof -
  note eq = assms [unfolded topology_text, simplified]
  from json_string_inject [OF eq] have 1: "or_undefined strings (rp_inject p) @ CHR '','' #
     json_string ''provides'' @ CHR '':'' # or_undefined strings (rp_provides p) @ CHR '','' #
     json_string ''version'' @ CHR '':'' # json_string (rp_version p) @ ''}'' =
     or_undefined strings (rp_inject q) @ CHR '','' #
     json_string ''provides'' @ CHR '':'' # or_undefined strings (rp_provides q) @ CHR '','' #
     json_string ''version'' @ CHR '':'' # json_string (rp_version q) @ ''}''" by simp
  from or_undefined_inject [OF 1] have 2: "rp_inject p = rp_inject q"
    "or_undefined strings (rp_provides p) @ CHR '','' #
     json_string ''version'' @ CHR '':'' # json_string (rp_version p) @ ''}'' =
     or_undefined strings (rp_provides q) @ CHR '','' #
     json_string ''version'' @ CHR '':'' # json_string (rp_version q) @ ''}''" by simp_all
  from or_undefined_inject [OF 2(2)] have 3: "rp_provides p = rp_provides q"
    "json_string (rp_version p) @ ''}'' = json_string (rp_version q) @ ''}''" by simp_all
  from json_string_inject [OF 3(2)] 2(1) 3(1) show ?thesis by simp
qed

lemma topology_eq_iff:
  "rp_id p = rp_id q \<Longrightarrow> topologyDescriptor p = topologyDescriptor q \<longleftrightarrow>
   rp_version p = rp_version q \<and> rp_inject p = rp_inject q \<and> rp_provides p = rp_provides q"
  using topology_inject [of p q] by (auto simp: topology_text)

text \<open>The plugin of an id, and whether it changed.\<close>

definition plugin_of :: "string \<Rightarrow> runtime_plugin list \<Rightarrow> runtime_plugin option" where
  "plugin_of i ps = map_of (map (\<lambda>p. (rp_id p, p)) ps) i"

definition plugin_changed :: "(string \<Rightarrow> string) \<Rightarrow> runtime_plugin list \<Rightarrow> runtime_plugin list \<Rightarrow> string \<Rightarrow> bool" where
  "plugin_changed sha256 current incoming i \<longleftrightarrow> (case (plugin_of i current, plugin_of i incoming) of
     (None, None) \<Rightarrow> False
   | (Some p, Some q) \<Rightarrow> pluginDescriptorDigest sha256 p \<noteq> pluginDescriptorDigest sha256 q
   | _ \<Rightarrow> True)"

lemma map_by_id_distinct:
  assumes "distinct (map rp_id ps)"
  shows "map_by_id ps = map (\<lambda>p. (rp_id p, p)) ps"
proof -
  have "fold (\<lambda>p. jsmap_set (rp_id p) p) ps m = m @ map (\<lambda>p. (rp_id p, p)) ps"
    if "distinct (map rp_id ps)" "rp_id ` set ps \<inter> fst ` set m = {}" for m
    using that
  proof (induction ps arbitrary: m)
    case (Cons p ps)
    then have "map_of m (rp_id p) = None" by (auto simp: map_of_eq_None_iff)
    then have "jsmap_set (rp_id p) p m = m @ [(rp_id p, p)]" by (rule jsmap_set_new)
    with Cons.IH [of "m @ [(rp_id p, p)]"] Cons.prems show ?case by auto
  qed simp
  from this [of "[]"] assms show ?thesis by (simp add: map_by_id_def)
qed

lemma set_fold_add [simp]: "set (fold js_set_add xs acc) = set xs \<union> set acc"
  by (induction xs arbitrary: acc) auto

lemma plugin_of_None: "plugin_of i ps = None \<longleftrightarrow> i \<notin> rp_id ` set ps"
  by (simp add: plugin_of_def map_of_eq_None_iff image_image)

lemma changed_iff:
  "i \<in> rp_id ` set current \<union> rp_id ` set incoming \<and>
     change_of sha256 i (plugin_of i current) (plugin_of i incoming) \<noteq> None \<longleftrightarrow>
   plugin_changed sha256 current incoming i"
  using plugin_of_None [of i current] plugin_of_None [of i incoming]
  by (cases "plugin_of i current"; cases "plugin_of i incoming")
     (simp_all add: plugin_changed_def change_of_def Let_def)

lemma plan_changes:
  assumes "distinct (map rp_id current)" and "distinct (map rp_id incoming)"
  shows "c \<in> set (pl_changes (createReconcilePlan sha256 current incoming)) \<longleftrightarrow>
    (\<exists>i. plugin_changed sha256 current incoming i \<and>
      change_of sha256 i (plugin_of i current) (plugin_of i incoming) = Some c)"
  unfolding createReconcilePlan_def Let_def map_by_id_distinct [OF assms(1)] map_by_id_distinct [OF assms(2)]
    changed_iff [symmetric] plugin_of_def
  by (force simp: List.map_filter_def image_image)

definition tier_at :: "runtime_plugin list \<Rightarrow> string \<Rightarrow> replacement_tier" where
  "tier_at ps i = coalesce (Option.bind (plugin_of i ps) rp_tier) TierB"

definition live_updatable :: "runtime_plugin list \<Rightarrow> runtime_plugin list \<Rightarrow> string \<Rightarrow> bool" where
  "live_updatable current incoming i \<longleftrightarrow> (\<exists>p q. plugin_of i current = Some p \<and> plugin_of i incoming = Some q \<and>
     rp_tier p = Some TierA \<and> rp_tier q = Some TierA \<and> rp_version p = rp_version q \<and>
     rp_inject p = rp_inject q \<and> rp_provides p = rp_provides q)"

lemma plugin_of_id: "plugin_of i ps = Some p \<Longrightarrow> rp_id p = i"
  by (auto simp: plugin_of_def dest!: map_of_SomeD)

lemma replacementTier_C: "replacementTier b a = TierC \<longleftrightarrow>
    coalesce (Option.bind b rp_tier) TierB = TierC \<or> coalesce (Option.bind a rp_tier) TierB = TierC"
  by (auto simp: replacementTier_def Let_def)

lemma replacementTier_A: "replacementTier b a = TierA \<longleftrightarrow>
    coalesce (Option.bind b rp_tier) TierB = TierA \<and> coalesce (Option.bind a rp_tier) TierB = TierA"
  by (cases "coalesce (Option.bind b rp_tier) TierB"; cases "coalesce (Option.bind a rp_tier) TierB")
     (simp_all add: replacementTier_def Let_def)

lemma tier_A_iff: "coalesce t TierB = TierA \<longleftrightarrow> t = Some TierA"
  by (auto simp: coalesce_def split: option.splits)

lemma change_of_facts:
  assumes "change_of sha256 i (plugin_of i current) (plugin_of i incoming) = Some c"
  shows "pc_tier c = TierC \<longleftrightarrow> tier_at current i = TierC \<or> tier_at incoming i = TierC"
    and "pc_tier c = TierA \<and> pc_kind c = Configured \<longleftrightarrow> live_updatable current incoming i"
proof -
  let ?b = "plugin_of i current" and ?a = "plugin_of i incoming"
  show "pc_tier c = TierC \<longleftrightarrow> tier_at current i = TierC \<or> tier_at incoming i = TierC"
    using assms by (auto simp: change_of_def Let_def tier_at_def replacementTier_C [symmetric] split: if_splits)
  show "pc_tier c = TierA \<and> pc_kind c = Configured \<longleftrightarrow> live_updatable current incoming i"
  proof (cases ?b)
    case (Some p)
    show ?thesis
    proof (cases ?a)
      case a: (Some q)
      have "rp_id p = rp_id q" using plugin_of_id Some a by metis
      then show ?thesis using assms Some a
        by (auto simp: change_of_def Let_def live_updatable_def replacementTier_A tier_A_iff topology_eq_iff
            split: if_splits)
    qed (use assms Some in \<open>auto simp: change_of_def Let_def live_updatable_def split: if_splits\<close>)
  qed (use assms in \<open>auto simp: change_of_def Let_def live_updatable_def split: if_splits\<close>)
qed

text \<open>
  C21: The plan follows from what changed. Between two graphs that list each id once the plan is
  to do nothing when no plugin's descriptor digest changed; to demand a restart exactly when a
  plugin of tier C changed, appeared or went; and to update in place exactly when something
  changed and every changed plugin has tier A before and after and differs in its
  configuration only: same version, same injected and same provided services.
\<close>

theorem plan_follows_changes:
  assumes "distinct (map rp_id current)" and "distinct (map rp_id incoming)"
    and "plan = createReconcilePlan sha256 current incoming"
  shows "(pl_kind plan = PlanUnchanged \<longleftrightarrow> (\<forall>i. \<not> plugin_changed sha256 current incoming i)) \<and>
    (pl_kind plan = PlanRestartRequired \<longleftrightarrow> (\<exists>i. plugin_changed sha256 current incoming i \<and>
       (tier_at current i = TierC \<or> tier_at incoming i = TierC))) \<and>
    (pl_kind plan = PlanLiveUpdate \<longleftrightarrow> (\<exists>i. plugin_changed sha256 current incoming i) \<and>
       (\<forall>i. plugin_changed sha256 current incoming i \<longrightarrow> live_updatable current incoming i))"
proof -
  let ?changed = "plugin_changed sha256 current incoming" and ?cs = "pl_changes plan"
  let ?of = "\<lambda>i. change_of sha256 i (plugin_of i current) (plugin_of i incoming)"
  note mem = plan_changes [OF assms(1,2), of _ sha256, folded assms(3)]
  have some: "\<exists>c\<in>set ?cs. ?of i = Some c" if "?changed i" for i
    using that mem changed_iff [of i current incoming sha256] by (metis not_None_eq)
  have kind: "pl_kind plan = (if ?cs = [] then PlanUnchanged
      else if list_ex (\<lambda>c. pc_tier c = TierC) ?cs then PlanRestartRequired
      else if list_all (\<lambda>c. pc_tier c = TierA \<and> pc_kind c = Configured) ?cs then PlanLiveUpdate
      else PlanGenerationSwap)"
    unfolding assms(3) createReconcilePlan_def Let_def by simp
  have empty: "?cs = [] \<longleftrightarrow> (\<forall>i. \<not> ?changed i)"
    using some mem by (metis list.set_intros(1) neq_Nil_conv empty_iff empty_set)
  have c: "list_ex (\<lambda>c. pc_tier c = TierC) ?cs \<longleftrightarrow>
      (\<exists>i. ?changed i \<and> (tier_at current i = TierC \<or> tier_at incoming i = TierC))"
    unfolding list_ex_iff using some mem change_of_facts(1) by metis
  have a: "list_all (\<lambda>c. pc_tier c = TierA \<and> pc_kind c = Configured) ?cs \<longleftrightarrow>
      (\<forall>i. ?changed i \<longrightarrow> live_updatable current incoming i)"
    unfolding list_all_iff using some mem change_of_facts(2) by metis
  have ac: "\<not> (\<forall>i. ?changed i \<longrightarrow> live_updatable current incoming i) \<or>
      \<not> (\<exists>i. ?changed i \<and> (tier_at current i = TierC \<or> tier_at incoming i = TierC))"
    by (auto simp: live_updatable_def tier_at_def)
  show ?thesis unfolding kind empty c a using ac by (auto split: if_splits)
qed

section \<open>Samples\<close>

definition sample_plugin :: "string \<Rightarrow> string list \<Rightarrow> string list \<Rightarrow> int \<Rightarrow> runtime_plugin" where
  "sample_plugin i needs gives n = \<lparr>rp_id = i, rp_version = ''1'', rp_config = Some (JNum n), rp_inject = Some needs,
     rp_provides = Some gives, rp_tier = Some TierA\<rparr>"

lemma order_puts_providers_first_witness:
  "\<exists>ordered. validateAndOrder [sample_plugin ''loop'' [''tools'', ''log''] [] 0, sample_plugin ''tools'' [] [''tools''] 0] [''log''] =
     Inr ordered \<and> map rp_id ordered = [''tools'', ''loop'']"
proof -
  let ?specs = "[sample_plugin ''loop'' [''tools'', ''log''] [] 0, sample_plugin ''tools'' [] [''tools''] 0]"
  have run: "validateAndOrder ?specs [''log''] = Inr (rev ?specs)" by code_simp
  from order_puts_providers_first [OF run] run show ?thesis by (simp add: sample_plugin_def)
qed

lemma refused_for_cause_witness:
  "refusal_justified [sample_plugin ''a'' [''t''] [''s''] 0, sample_plugin ''b'' [''s''] [''t''] 0] []
     (PluginDependencyCycle [''a'', ''b'', ''a''])"
proof -
  let ?specs = "[sample_plugin ''a'' [''t''] [''s''] 0, sample_plugin ''b'' [''s''] [''t''] 0]"
  have "validateAndOrder ?specs [] = Inl (PluginDependencyCycle [''a'', ''b'', ''a''])" by code_simp
  with refused_for_cause [of ?specs "[]"] show ?thesis by blast
qed

lemma plan_follows_changes_witness:
  "pl_kind (createReconcilePlan id [sample_plugin ''a'' [] [] 1] [sample_plugin ''a'' [] [] 2]) = PlanLiveUpdate"
proof -
  let ?p = "sample_plugin ''a'' [] [] 1" and ?q = "sample_plugin ''a'' [] [] 2"
  have "pluginDescriptorDigest id ?p \<noteq> pluginDescriptorDigest id ?q" by code_simp
  then have "plugin_changed id [?p] [?q] i \<longleftrightarrow> i = ''a''" "live_updatable [?p] [?q] ''a''" for i
    by (auto simp: plugin_changed_def plugin_of_def sample_plugin_def live_updatable_def)
  with plan_follows_changes [of "[?p]" "[?q]" _ id] show ?thesis by simp
qed

end
