(* ===== verification/PluginCatalog.thy ===== *)
theory PluginCatalog
  imports PluginGraph Structure
begin

text \<open>
  Where the plugins of a graph come from: the catalog of installed packages
  (\<open>packages/kernel/src/plugin-catalog.ts\<close>, \<open>plugin.ts\<close>), the factories that turn a structure
  into a graph (\<open>PluginFactoryRegistry\<close> of \<open>packages/runtime/src/structure-reconciler.ts\<close>), and
  the policy that says which services a scope may see (\<open>ContextPolicy\<close> and \<open>ContextScope\<close> of
  \<open>kernel.ts\<close>). The factories are parameters; a promise that rejects is \<open>None\<close>.
\<close>

section \<open>Manifests\<close>

record plugin_capability =
  cb_type :: string
  cb_name :: string

record plugin_manifest =
  mf_id :: string
  mf_name :: string
  mf_version :: string
  mf_pluginApi :: string
  mf_requires :: "string list"
  mf_capabilities :: "plugin_capability list"
  mf_permissions :: "string list"
  mf_replacementTier :: replacement_tier
  mf_integrity :: "string option"
  mf_entry :: string

definition manifest_ok :: "plugin_manifest \<Rightarrow> bool" where
  "manifest_ok m \<longleftrightarrow> min1 (mf_id m) \<and> min1 (mf_name m) \<and> min1 (mf_version m) \<and> min1 (mf_pluginApi m) \<and>
     opt_ok sha256_digest (mf_integrity m) \<and> min1 (mf_entry m)"

definition BEE_PLUGIN_API_VERSION :: string where
  "BEE_PLUGIN_API_VERSION = ''1''"

section \<open>The catalog\<close>

type_synonym plugin_create = "effective_plugin \<Rightarrow> effective_structure \<Rightarrow> runtime_plugin option"

text \<open>A registration is an object: \<open>rg_object\<close> tells two of them apart.\<close>

record catalog_registration =
  rg_object :: nat
  rg_manifest :: plugin_manifest
  rg_create :: plugin_create

type_synonym plugin_catalog = "(string, catalog_registration) jsmap"

datatype catalog_error =
    ManifestRejected
  | PluginApiVersionError string string
  | PluginAlreadyRegistered string
  | PluginNotInstalled structure_ref
  | FactoryFailed string
  | FactoryInstanceMismatch string string string
  | FactoryVersionMismatch string string string
  | FactoryServicesMismatch string

definition catalog_key :: "string \<Rightarrow> string \<Rightarrow> string" where
  "catalog_key i v = i @ ''@'' @ v"

definition catalog_register :: "nat \<Rightarrow> plugin_manifest \<Rightarrow> plugin_create \<Rightarrow> plugin_catalog \<Rightarrow>
    catalog_error + plugin_catalog" where
  "catalog_register obj m create c =
     (if \<not> manifest_ok m then Inl ManifestRejected
      else if mf_pluginApi m \<noteq> BEE_PLUGIN_API_VERSION then Inl (PluginApiVersionError (mf_id m) (mf_pluginApi m))
      else let key = catalog_key (mf_id m) (mf_version m)
        in if map_of c key \<noteq> None then Inl (PluginAlreadyRegistered key)
           else Inr (jsmap_set key \<lparr>rg_object = obj, rg_manifest = m, rg_create = create\<rparr> c))"

text \<open>The function that \<open>register\<close> returns.\<close>

definition catalog_unregister :: "nat \<Rightarrow> string \<Rightarrow> plugin_catalog \<Rightarrow> plugin_catalog" where
  "catalog_unregister obj key c =
     (case map_of c key of None \<Rightarrow> c | Some r \<Rightarrow> if rg_object r = obj then jsmap_delete key c else c)"

definition catalog_list :: "plugin_catalog \<Rightarrow> plugin_manifest list" where
  "catalog_list c = map rg_manifest (jsmap_values c)"

definition manifest_services :: "plugin_manifest \<Rightarrow> string list" where
  "manifest_services m = map cb_name (filter (\<lambda>c. cb_type c = ''service'') (mf_capabilities m))"

fun join_nul :: "string list \<Rightarrow> string" where
  "join_nul [] = []"
| "join_nul [x] = x"
| "join_nul (x # y # ys) = x @ CHR 0x00 # join_nul (y # ys)"

definition services_text :: "string list \<Rightarrow> string" where
  "services_text ss = join_nul (js_sort code_unit_compare ss)"

definition catalog_resolve :: "plugin_catalog \<Rightarrow> effective_structure \<Rightarrow> effective_plugin \<Rightarrow>
    catalog_error + runtime_plugin" where
  "catalog_resolve c structure entry =
     (let key = catalog_key (sr_id (bp_ref entry)) (sr_version (bp_ref entry))
      in case map_of c key of
        None \<Rightarrow> Inl (PluginNotInstalled (bp_ref entry))
      | Some r \<Rightarrow>
          (case rg_create r entry structure of
             None \<Rightarrow> Inl (FactoryFailed key)
           | Some p \<Rightarrow>
               if rp_id p \<noteq> bp_id entry then Inl (FactoryInstanceMismatch key (rp_id p) (bp_id entry))
               else if rp_version p \<noteq> sr_version (bp_ref entry)
               then Inl (FactoryVersionMismatch key (rp_version p) (sr_version (bp_ref entry)))
               else let services = manifest_services (rg_manifest r)
                 in if services_text (provided p) \<noteq> services_text services then Inl (FactoryServicesMismatch key)
                    else Inr (p\<lparr>rp_config := (case bp_config entry of None \<Rightarrow> rp_config p | Some v \<Rightarrow> Some v),
                      rp_inject := Some (mf_requires (rg_manifest r)), rp_provides := Some services,
                      rp_tier := Some (mf_replacementTier (rg_manifest r))\<rparr>)))"

section \<open>From a structure to a graph\<close>

text \<open>A factory answers any number of plugins; \<open>null\<close> is none.\<close>

record plugin_factory =
  pf_id :: string
  pf_object :: nat
  pf_create :: "effective_structure \<Rightarrow> runtime_plugin list option"

type_synonym factory_registry = "(string, plugin_factory) jsmap"

definition factory_register :: "plugin_factory \<Rightarrow> factory_registry \<Rightarrow> factory_registry option" where
  "factory_register f fs = (if map_of fs (pf_id f) \<noteq> None then None else Some (jsmap_set (pf_id f) f fs))"

definition factory_unregister :: "plugin_factory \<Rightarrow> factory_registry \<Rightarrow> factory_registry" where
  "factory_unregister f fs = (case map_of fs (pf_id f) of None \<Rightarrow> fs
     | Some g \<Rightarrow> if pf_object g = pf_object f then jsmap_delete (pf_id f) fs else fs)"

fun factories_create :: "plugin_factory list \<Rightarrow> effective_structure \<Rightarrow> catalog_error + runtime_plugin list" where
  "factories_create [] structure = Inr []"
| "factories_create (f # fs) structure =
     (case pf_create f structure of
        None \<Rightarrow> Inl (FactoryFailed (pf_id f))
      | Some ps \<Rightarrow> map_sum id (\<lambda>qs. ps @ qs) (factories_create fs structure))"

fun catalog_resolve_all :: "plugin_catalog \<Rightarrow> effective_structure \<Rightarrow> effective_plugin list \<Rightarrow>
    catalog_error + runtime_plugin list" where
  "catalog_resolve_all c structure [] = Inr []"
| "catalog_resolve_all c structure (e # es) =
     (if bp_enabled e then
        (case catalog_resolve c structure e of
           Inl err \<Rightarrow> Inl err
         | Inr p \<Rightarrow> map_sum id (Cons p) (catalog_resolve_all c structure es))
      else catalog_resolve_all c structure es)"

record plugin_graph =
  pg_structureVersion :: string
  pg_plugins :: "runtime_plugin list"

definition createGraph :: "factory_registry \<Rightarrow> plugin_catalog option \<Rightarrow> effective_structure \<Rightarrow>
    catalog_error + plugin_graph" where
  "createGraph fs catalog structure =
     (case factories_create (jsmap_values fs) structure of
        Inl err \<Rightarrow> Inl err
      | Inr ps \<Rightarrow>
          map_sum id (\<lambda>qs. \<lparr>pg_structureVersion = ef_digest structure, pg_plugins = ps @ qs\<rparr>)
            (case catalog of None \<Rightarrow> Inr []
             | Some c \<Rightarrow> catalog_resolve_all c structure (ef_plugins structure)))"

section \<open>What a scope may see\<close>

text \<open>\<open>None\<close> is the unrestricted policy; a set of names is a list in insertion order.\<close>

type_synonym context_policy = "string list option"

definition canResolve :: "context_policy \<Rightarrow> string \<Rightarrow> bool" where
  "canResolve p s \<longleftrightarrow> (case p of None \<Rightarrow> True | Some names \<Rightarrow> List.member names s)"

definition restrict_policy :: "string list \<Rightarrow> context_policy \<Rightarrow> context_policy" where
  "restrict_policy names p =
     (let requested = fold js_set_add names []
      in case p of None \<Rightarrow> Some requested
         | Some allowed \<Rightarrow> Some (filter (List.member allowed) requested))"

text \<open>A scope over a context, which is the map of its services, and the lookup through it.\<close>

record 'v context_scope =
  sp_services :: "string \<Rightarrow> 'v option"
  sp_policy :: context_policy

definition scope_service :: "string \<Rightarrow> 'v context_scope \<Rightarrow> kernel_error + 'v" where
  "scope_service s sc =
     (if \<not> canResolve (sp_policy sc) s then Inl (RestrictedServiceAccess s)
      else case sp_services sc s of None \<Rightarrow> Inl (MissingPluginDependency ''context-scope'' s) | Some v \<Rightarrow> Inr v)"

definition scope_derive :: "string list \<Rightarrow> 'v context_scope \<Rightarrow> 'v context_scope" where
  "scope_derive names sc = sc\<lparr>sp_policy := restrict_policy names (sp_policy sc)\<rparr>"

lemma canResolve_restrict [simp]: "canResolve (restrict_policy names p) s \<longleftrightarrow> canResolve p s \<and> s \<in> set names"
  by (cases p) (auto simp: restrict_policy_def canResolve_def Let_def)

text \<open>
  Scopes only lose sight. Through any chain of derived scopes a service is found exactly
  when the first scope finds it and every step of the chain names it; no derivation, whatever
  it asks for, makes visible what its parent hid.
\<close>

theorem derived_scopes_only_lose:
  "scope_service s (fold scope_derive steps sc) = Inr v \<longleftrightarrow>
   scope_service s sc = Inr v \<and> list_all (\<lambda>names. s \<in> set names) steps"
proof -
  have "canResolve (sp_policy (fold scope_derive steps sc)) s \<longleftrightarrow>
      canResolve (sp_policy sc) s \<and> (\<forall>names\<in>set steps. s \<in> set names)"
    and "sp_services (fold scope_derive steps sc) = sp_services sc"
    by (induction steps arbitrary: sc) (auto simp: scope_derive_def)
  then show ?thesis by (auto simp: scope_service_def list_all_iff split: option.splits)
qed

section \<open>A resolved plugin is what its manifest says\<close>

datatype catalog_op = RegisterPlugin nat plugin_manifest plugin_create | UnregisterPlugin nat string

fun catalog_step :: "catalog_op \<Rightarrow> plugin_catalog \<Rightarrow> plugin_catalog" where
  "catalog_step (RegisterPlugin obj m create) c =
     (case catalog_register obj m create c of Inl e \<Rightarrow> c | Inr c' \<Rightarrow> c')"
| "catalog_step (UnregisterPlugin obj key) c = catalog_unregister obj key c"

definition catalog_ok :: "plugin_catalog \<Rightarrow> bool" where
  "catalog_ok c \<longleftrightarrow> (\<forall>key r. map_of c key = Some r \<longrightarrow> manifest_ok (rg_manifest r) \<and>
     mf_pluginApi (rg_manifest r) = BEE_PLUGIN_API_VERSION \<and>
     key = catalog_key (mf_id (rg_manifest r)) (mf_version (rg_manifest r)))"

definition registration_ok :: "string \<Rightarrow> catalog_registration \<Rightarrow> bool" where
  "registration_ok key r \<longleftrightarrow> manifest_ok (rg_manifest r) \<and>
     mf_pluginApi (rg_manifest r) = BEE_PLUGIN_API_VERSION \<and>
     key = catalog_key (mf_id (rg_manifest r)) (mf_version (rg_manifest r))"

lemma catalog_okD: "catalog_ok c \<Longrightarrow> map_of c key = Some r \<Longrightarrow> registration_ok key r"
  by (simp add: catalog_ok_def registration_ok_def)

lemma catalog_okI: "(\<And>key r. map_of c key = Some r \<Longrightarrow> registration_ok key r) \<Longrightarrow> catalog_ok c"
  by (simp add: catalog_ok_def registration_ok_def)

lemma catalog_register_new:
  "catalog_register obj m create c = Inr c' \<Longrightarrow>
   \<exists>key r. c' = jsmap_set key r c \<and> registration_ok key r"
  by (rule exI [of _ "catalog_key (mf_id m) (mf_version m)"],
      rule exI [of _ "\<lparr>rg_object = obj, rg_manifest = m, rg_create = create\<rparr>"])
     (simp add: catalog_register_def Let_def registration_ok_def split: if_splits)

lemma catalog_step_ok [preserved]:
  assumes "catalog_ok c"
  shows "catalog_ok (catalog_step op c)"
proof (cases op)
  case (RegisterPlugin obj m create)
  show ?thesis
  proof (cases "catalog_register obj m create c")
    case (Inr c')
    then obtain key r where "c' = jsmap_set key r c" "registration_ok key r" using catalog_register_new by blast
    with RegisterPlugin Inr catalog_okD [OF assms] show ?thesis by (intro catalog_okI) (auto split: if_splits)
  qed (use RegisterPlugin assms in simp)
next
  case (UnregisterPlugin obj key)
  have "catalog_ok (jsmap_delete key c)"
    using catalog_okD [OF assms] by (intro catalog_okI) (auto split: if_splits)
  with UnregisterPlugin assms show ?thesis by (simp add: catalog_unregister_def split: option.split)
qed

lemma catalog_steps_ok: "catalog_ok (fold catalog_step ops [])"
proof (rule fold_invariant [where Q = "\<lambda>op. True" and P = catalog_ok])
  show "catalog_ok []" by (simp add: catalog_ok_def)
qed (auto intro: catalog_step_ok)

text \<open>What a plugin must be that stands for an entry of the structure.\<close>

definition plugin_fits :: "plugin_catalog \<Rightarrow> effective_plugin \<Rightarrow> runtime_plugin \<Rightarrow> bool" where
  "plugin_fits c e p \<longleftrightarrow> rp_id p = bp_id e \<and> rp_version p = sr_version (bp_ref e) \<and>
     (bp_config e \<noteq> None \<longrightarrow> rp_config p = bp_config e) \<and>
     (\<exists>m\<in>set (catalog_list c). manifest_ok m \<and> mf_pluginApi m = BEE_PLUGIN_API_VERSION \<and>
        catalog_key (mf_id m) (mf_version m) = catalog_key (sr_id (bp_ref e)) (sr_version (bp_ref e)) \<and>
        rp_inject p = Some (mf_requires m) \<and> rp_provides p = Some (manifest_services m) \<and>
        rp_tier p = Some (mf_replacementTier m))"

lemma catalog_resolve_fits:
  assumes "catalog_ok c" and "catalog_resolve c structure e = Inr p"
  shows "plugin_fits c e p"
proof -
  let ?key = "catalog_key (sr_id (bp_ref e)) (sr_version (bp_ref e))"
  obtain r where r: "map_of c ?key = Some r"
    using assms(2) by (auto simp: catalog_resolve_def Let_def split: option.splits)
  then have "rg_manifest r \<in> set (catalog_list c)"
    by (auto simp: catalog_list_def dest: map_of_SomeD intro!: imageI rev_image_eqI)
  moreover have "manifest_ok (rg_manifest r)" "mf_pluginApi (rg_manifest r) = BEE_PLUGIN_API_VERSION"
    "?key = catalog_key (mf_id (rg_manifest r)) (mf_version (rg_manifest r))"
    using assms(1) r by (auto simp: catalog_ok_def)
  ultimately show ?thesis
    using assms(2) r by (auto simp: plugin_fits_def catalog_resolve_def Let_def split: option.splits if_splits)
qed

lemma catalog_resolve_all_fits:
  "catalog_ok c \<Longrightarrow> catalog_resolve_all c structure es = Inr ps \<Longrightarrow> list_all2 (plugin_fits c) (filter bp_enabled es) ps"
proof (induction es arbitrary: ps)
  case (Cons e es)
  show ?case
  proof (cases "bp_enabled e")
    case True
    with Cons.prems(2) obtain p qs where "catalog_resolve c structure e = Inr p" "ps = p # qs"
      "catalog_resolve_all c structure es = Inr qs"
      by (cases "catalog_resolve_all c structure es") (auto split: sum.splits)
    with Cons True catalog_resolve_fits show ?thesis by simp
  qed (use Cons in simp)
qed simp

text \<open>
  C27: A graph holds the plugins its structure asks for. From a catalog that was built by any
  registrations and unregistrations, the graph of a structure has, after the plugins of the
  factories, one plugin for each enabled entry, in order: with the entry's instance id and
  version, and with the services, requirements and replacement tier of a registered manifest of
  this plugin API that has the entry's key.
\<close>

theorem graph_follows_structure:
  assumes "c = fold catalog_step ops []" and "createGraph fs (Some c) structure = Inr g"
  shows "pg_structureVersion g = ef_digest structure \<and> (\<exists>ps qs. pg_plugins g = ps @ qs \<and>
    factories_create (jsmap_values fs) structure = Inr ps \<and>
    list_all2 (plugin_fits c) (filter bp_enabled (ef_plugins structure)) qs)"
proof -
  have ok: "catalog_ok c" unfolding assms(1) by (rule catalog_steps_ok)
  obtain ps where ps: "factories_create (jsmap_values fs) structure = Inr ps"
    using assms(2) by (auto simp: createGraph_def split: sum.splits)
  obtain qs where qs: "catalog_resolve_all c structure (ef_plugins structure) = Inr qs"
    using assms(2) ps by (cases "catalog_resolve_all c structure (ef_plugins structure)") (auto simp: createGraph_def)
  from assms(2) ps qs catalog_resolve_all_fits [OF ok qs] show ?thesis by (auto simp: createGraph_def)
qed

section \<open>Samples\<close>

definition sample_slot :: effective_slot where
  "sample_slot = \<lparr>es_ref = \<lparr>sr_id = ''s'', sr_version = ''1''\<rparr>,
     es_source = \<lparr>bs_bundleId = ''b'', bs_bundleVersion = ''1''\<rparr>\<rparr>"

definition sample_entry :: effective_plugin where
  "sample_entry = \<lparr>bp_id = ''log'', bp_ref = \<lparr>sr_id = ''logger'', sr_version = ''2''\<rparr>, bp_enabled = True,
     bp_config = Some (JNum 3), ep_source = es_source sample_slot\<rparr>"

definition sample_effective :: effective_structure where
  "sample_effective = \<lparr>ef_profileId = ''bee'', ef_bundles = [es_source sample_slot], ef_model = sample_slot,
     ef_prompt = sample_slot, ef_contextPolicy = sample_slot, ef_memoryView = sample_slot,
     ef_sandbox = sample_slot, ef_evalPolicy = sample_slot, ef_skills = [], ef_tools = [],
     ef_plugins = [sample_entry], ef_permissions = [], ef_budgets = [], ef_digest = ''d''\<rparr>"

definition sample_manifest :: plugin_manifest where
  "sample_manifest = \<lparr>mf_id = ''logger'', mf_name = ''Logger'', mf_version = ''2'', mf_pluginApi = ''1'',
     mf_requires = [''chronicle''], mf_capabilities = [\<lparr>cb_type = ''service'', cb_name = ''log''\<rparr>],
     mf_permissions = [], mf_replacementTier = TierA, mf_integrity = None, mf_entry = ''index.js''\<rparr>"

definition sample_catalog_ops :: "catalog_op list" where
  "sample_catalog_ops = [RegisterPlugin 0 sample_manifest (\<lambda>e s. Some \<lparr>rp_id = bp_id e, rp_version = ''2'',
     rp_config = None, rp_inject = None, rp_provides = Some [''log''], rp_tier = None\<rparr>)]"

lemma graph_follows_structure_witness:
  "case createGraph [] (Some (fold catalog_step sample_catalog_ops [])) sample_effective of
     Inl e \<Rightarrow> False
   | Inr g \<Rightarrow> list_all2 (plugin_fits (fold catalog_step sample_catalog_ops [])) [sample_entry] (pg_plugins g)"
proof -
  let ?g = "createGraph [] (Some (fold catalog_step sample_catalog_ops [])) sample_effective"
  have "case ?g of Inl e \<Rightarrow> False | Inr g \<Rightarrow> True" by code_simp
  then obtain g where g: "?g = Inr g" by (cases ?g) auto
  with graph_follows_structure [OF refl g] show ?thesis by (simp add: sample_effective_def sample_entry_def)
qed

end
