(* ===== verification/KernelGenerations.thy ===== *)
theory KernelGenerations
  imports PluginGraph
begin

text \<open>
  Structure generations and the Kernel (\<open>packages/kernel/src/kernel.ts\<close>): the reference-counted
  runtime graphs, the leases that pin them, and \<open>reconcile\<close>, cut at every \<open>await\<close> so that
  turns begin and end, and disposals finish, between any two of its segments. Calls of
  \<open>reconcile\<close> follow one another, as the structure reconciler makes them. What a plugin, a
  fiber or the lifecycle listener does is an input of the segment that awaited it.
\<close>

section \<open>Generations\<close>

datatype generation_state = Preparing | Active | Draining | Disposed | GenerationFailed

text \<open>
  \<open>gn_mounted\<close> is \<open>#mounted\<close>; \<open>gn_running\<close> are the ids of the plugins whose fiber is alive in
  the generation's context; \<open>gn_disposing\<close> tells whether \<open>#disposeTask\<close> is set.
\<close>

record generation =
  gn_structureVersion :: string
  gn_graphDigest :: string
  gn_plugins :: "runtime_plugin list"
  gn_mounted :: "runtime_plugin list"
  gn_running :: "string list"
  gn_references :: nat
  gn_state :: generation_state
  gn_disposing :: bool

definition newGeneration :: "(string \<Rightarrow> string) \<Rightarrow> string list \<Rightarrow> string \<Rightarrow> runtime_plugin list \<Rightarrow>
    kernel_error + generation" where
  "newGeneration sha256 bootstrap version plugins =
     (case validateAndOrder plugins bootstrap of
        Inl e \<Rightarrow> Inl e
      | Inr ordered \<Rightarrow> Inr \<lparr>gn_structureVersion = version, gn_graphDigest = pluginGraphDigest sha256 plugins,
          gn_plugins = ordered, gn_mounted = [], gn_running = [], gn_references = 0, gn_state = Preparing,
          gn_disposing = False\<rparr>)"

definition gn_acquire :: "generation \<Rightarrow> generation option" where
  "gn_acquire x = (if gn_state x \<noteq> Active \<and> gn_state x \<noteq> Draining then None
     else Some (x\<lparr>gn_references := gn_references x + 1\<rparr>))"

text \<open>\<open>drain\<close> and \<open>release\<close> up to the start of the disposal.\<close>

definition gn_drain :: "generation \<Rightarrow> generation" where
  "gn_drain x =
     (if gn_state x = Disposed then x
      else let x' = (if gn_state x = Active then x\<lparr>gn_state := Draining\<rparr> else x)
        in if gn_references x' = 0 then x'\<lparr>gn_disposing := True\<rparr> else x')"

definition gn_release :: "generation \<Rightarrow> generation" where
  "gn_release x =
     (if gn_references x = 0 then x
      else let x' = x\<lparr>gn_references := gn_references x - 1\<rparr>
        in if gn_references x' = 0 \<and> gn_state x' = Draining then x'\<lparr>gn_disposing := True\<rparr> else x')"

text \<open>The body of \<open>#dispose\<close>: only mounted fibers are disposed; \<open>failures\<close> are those that threw.\<close>

definition gn_dispose :: "string list \<Rightarrow> generation \<Rightarrow> generation" where
  "gn_dispose failures x = x\<lparr>
     gn_running := filter (\<lambda>i. List.member failures i \<or> \<not> List.member (map rp_id (gn_mounted x)) i) (gn_running x),
     gn_mounted := [], gn_state := Disposed\<rparr>"

text \<open>One plugin of \<open>prepare\<close>: its fiber, then its health check.\<close>

datatype mount_outcome = Mounted | ApplyFailed | Unhealthy

definition gn_mount :: "mount_outcome \<Rightarrow> runtime_plugin \<Rightarrow> generation \<Rightarrow> generation" where
  "gn_mount outcome p x =
     (case outcome of
        Mounted \<Rightarrow> x\<lparr>gn_running := gn_running x @ [rp_id p], gn_mounted := gn_mounted x @ [p]\<rparr>
      | ApplyFailed \<Rightarrow> x\<lparr>gn_state := GenerationFailed, gn_disposing := True\<rparr>
      | Unhealthy \<Rightarrow> x\<lparr>gn_running := gn_running x @ [rp_id p], gn_state := GenerationFailed, gn_disposing := True\<rparr>)"

text \<open>
  \<open>updateInPlace\<close>: its checks, and its effect once the fibers are updated. A mounted plugin
  takes its new spec when its descriptor changed; after a failed rollback the plugins in
  \<open>only\<close> are left with it.
\<close>

definition begin_update :: "(string \<Rightarrow> string) \<Rightarrow> string list \<Rightarrow> string \<Rightarrow> runtime_plugin list \<Rightarrow> generation \<Rightarrow>
    kernel_error + runtime_plugin list" where
  "begin_update sha256 bootstrap gid plugins x =
     (case validateAndOrder plugins bootstrap of
        Inl e \<Rightarrow> Inl e
      | Inr ordered \<Rightarrow>
          if pl_kind (createReconcilePlan sha256 (gn_plugins x) ordered) \<noteq> PlanLiveUpdate \<or> gn_references x \<noteq> 0
          then Inl (LiveUpdateIneligible gid) else Inr ordered)"

definition updated_spec :: "(string \<Rightarrow> string) \<Rightarrow> runtime_plugin list \<Rightarrow> runtime_plugin \<Rightarrow> runtime_plugin" where
  "updated_spec sha256 ordered m =
     (case map_of (map_by_id ordered) (rp_id m) of
        None \<Rightarrow> m
      | Some p \<Rightarrow> if pluginDescriptorDigest sha256 p = pluginDescriptorDigest sha256 m then m else p)"

definition gn_updated :: "(string \<Rightarrow> string) \<Rightarrow> string \<Rightarrow> runtime_plugin list \<Rightarrow> runtime_plugin list \<Rightarrow>
    generation \<Rightarrow> generation" where
  "gn_updated sha256 version plugins ordered x = x\<lparr>
     gn_mounted := map (updated_spec sha256 ordered) (gn_mounted x), gn_plugins := ordered,
     gn_structureVersion := version, gn_graphDigest := pluginGraphDigest sha256 plugins\<rparr>"

definition gn_update_failed :: "(string \<Rightarrow> string) \<Rightarrow> runtime_plugin list \<Rightarrow> string list \<Rightarrow> generation \<Rightarrow> generation" where
  "gn_update_failed sha256 ordered only x = x\<lparr>
     gn_mounted := map (\<lambda>m. if List.member only (rp_id m) then updated_spec sha256 ordered m else m) (gn_mounted x)\<rparr>"

section \<open>The Kernel\<close>

datatype lifecycle_event =
    GenerationPrepared string string
  | GenerationActivated string string
  | GenerationUpdated string string
  | GenerationFailedEvent string string
  | GenerationDraining string string
  | GenerationDisposed string string
  | RestartRequiredEvent string string "string list"

text \<open>Where a call of \<open>reconcile\<close> is suspended.\<close>

datatype reconcile_pc =
    ReconcileIdle
  | AwaitUpdate string string "runtime_plugin list" "runtime_plugin list"
  | AwaitMount string "runtime_plugin list"
  | AwaitFailedDispose string
  | AwaitPrepared string
  | AwaitActivated string "string option"
  | AwaitDraining string string

text \<open>
  Generation objects live in \<open>kn_heap\<close>; \<open>kn_generations\<close> are the ids in \<open>#generations\<close>. A lease
  is its generation with its \<open>#released\<close> flag.
\<close>

record kernel =
  kn_heap :: "(string, generation) jsmap"
  kn_generations :: "string list"
  kn_quarantines :: "(string, string) jsmap"
  kn_active :: "string option"
  kn_restart :: "string list"
  kn_leases :: "(string \<times> bool) list"
  kn_pc :: reconcile_pc
  kn_events :: "lifecycle_event list"

definition kernel_new :: kernel where
  "kernel_new = \<lparr>kn_heap = [], kn_generations = [], kn_quarantines = [], kn_active = None, kn_restart = [],
     kn_leases = [], kn_pc = ReconcileIdle, kn_events = []\<rparr>"

definition kn_emit :: "lifecycle_event \<Rightarrow> kernel \<Rightarrow> kernel" where
  "kn_emit e k = k\<lparr>kn_events := kn_events k @ [e]\<rparr>"

definition kn_change :: "string \<Rightarrow> (generation \<Rightarrow> generation) \<Rightarrow> kernel \<Rightarrow> kernel" where
  "kn_change g f k = (case map_of (kn_heap k) g of None \<Rightarrow> k
     | Some x \<Rightarrow> k\<lparr>kn_heap := jsmap_set g (f x) (kn_heap k)\<rparr>)"

definition version_of :: "string \<Rightarrow> kernel \<Rightarrow> string" where
  "version_of g k = (case map_of (kn_heap k) g of None \<Rightarrow> [] | Some x \<Rightarrow> gn_structureVersion x)"

datatype reconcile_result =
    ReconcileActivated string "string option"
  | ReconcileUnchanged string
  | ReconcileUpdated string
  | ReconcileRestartRequired "string list"

datatype reconcile_answer = Answered "kernel_error + reconcile_result" | Suspended

text \<open>The candidate: built, listed, and its \<open>prepare\<close> entered. \<open>u\<close> is its random id.\<close>

definition start_candidate :: "(string \<Rightarrow> string) \<Rightarrow> string list \<Rightarrow> string \<Rightarrow> string \<Rightarrow> runtime_plugin list \<Rightarrow>
    kernel \<Rightarrow> kernel \<times> reconcile_answer" where
  "start_candidate sha256 bootstrap u version plugins k =
     (case newGeneration sha256 bootstrap version plugins of
        Inl e \<Rightarrow> (k, Answered (Inl e))
      | Inr x \<Rightarrow> (k\<lparr>kn_heap := jsmap_set u x (kn_heap k), kn_generations := js_set_add u (kn_generations k),
          kn_pc := AwaitMount u (gn_plugins x)\<rparr>, Suspended))"

text \<open>\<open>reconcile\<close> up to its first suspension that changes state afterwards.\<close>

definition reconcile_begin :: "(string \<Rightarrow> string) \<Rightarrow> string list \<Rightarrow> string \<Rightarrow> string \<Rightarrow> runtime_plugin list \<Rightarrow>
    kernel \<Rightarrow> kernel \<times> reconcile_answer" where
  "reconcile_begin sha256 bootstrap u version plugins k =
     (case Option.bind (kn_active k) (\<lambda>a. map_option (Pair a) (map_of (kn_heap k) a)) of
        None \<Rightarrow> start_candidate sha256 bootstrap u version plugins k
      | Some (a, x) \<Rightarrow>
          if gn_structureVersion x = version
          then (if gn_graphDigest x \<noteq> pluginGraphDigest sha256 plugins
                then (k, Answered (Inl (StructureVersionCollision version)))
                else (k\<lparr>kn_restart := []\<rparr>, Answered (Inr (ReconcileUnchanged a))))
          else let plan = createReconcilePlan sha256 (gn_plugins x) plugins;
              tierC = map pc_pluginId (filter (\<lambda>c. pc_tier c = TierC) (pl_changes plan))
            in if tierC \<noteq> []
               then (kn_emit (RestartRequiredEvent a version tierC) (k\<lparr>kn_restart := tierC\<rparr>),
                 Answered (Inr (ReconcileRestartRequired tierC)))
               else if pl_kind plan = PlanLiveUpdate \<and> gn_references x = 0
               then (case begin_update sha256 bootstrap a plugins x of
                  Inl e \<Rightarrow> (kn_emit (GenerationFailedEvent a version) k, Answered (Inl e))
                | Inr ordered \<Rightarrow> (k\<lparr>kn_pc := AwaitUpdate a version plugins ordered\<rparr>, Suspended))
               else start_candidate sha256 bootstrap u version plugins k)"

text \<open>
  The \<open>catch\<close> of \<open>reconcile\<close>: the candidate leaves \<open>#generations\<close>, unless the listener throws
  on the failure event as well.
\<close>

definition reconcile_failed :: "bool \<Rightarrow> string \<Rightarrow> kernel \<Rightarrow> kernel" where
  "reconcile_failed delivered u k =
     (let k' = kn_emit (GenerationFailedEvent u (version_of u k)) (k\<lparr>kn_pc := ReconcileIdle\<rparr>)
      in if delivered then k'\<lparr>kn_generations := js_set_delete u (kn_generations k')\<rparr> else k')"

text \<open>
  One action: a call of the kernel, or what an awaited thing answered. The booleans tell
  whether the lifecycle listener returned; the second is for the failure event.
\<close>

datatype kernel_action =
    Reconcile string string "runtime_plugin list"
  | UpdateAnswered "string list option"
  | MountAnswered mount_outcome
  | FailedDisposeAwaited bool
  | PrepareDone
  | PreparedDelivered bool bool
  | ActivatedDelivered bool bool
  | DrainingDelivered bool bool
  | DisposeDone string "string list"
  | BeginTurn
  | ReleaseLease nat

definition kn_update_answered :: "(string \<Rightarrow> string) \<Rightarrow> string list option \<Rightarrow> kernel \<Rightarrow> kernel option" where
  "kn_update_answered sha256 failed k =
     (case kn_pc k of
        AwaitUpdate a version plugins ordered \<Rightarrow>
          (case failed of
             None \<Rightarrow> Some (kn_emit (GenerationUpdated a version)
               ((kn_change a (gn_updated sha256 version plugins ordered) k)\<lparr>kn_restart := [], kn_pc := ReconcileIdle\<rparr>))
           | Some only \<Rightarrow> Some (kn_emit (GenerationFailedEvent a version)
               ((kn_change a (gn_update_failed sha256 ordered only) k)\<lparr>kn_pc := ReconcileIdle\<rparr>)))
      | _ \<Rightarrow> None)"

definition kn_mount_answered :: "mount_outcome \<Rightarrow> kernel \<Rightarrow> kernel option" where
  "kn_mount_answered outcome k =
     (case kn_pc k of
        AwaitMount u (p # ps) \<Rightarrow> Some ((kn_change u (gn_mount outcome p) k)\<lparr>
          kn_pc := (if outcome = Mounted then AwaitMount u ps else AwaitFailedDispose u)\<rparr>)
      | _ \<Rightarrow> None)"

definition gen_in_state :: "generation_state \<Rightarrow> string \<Rightarrow> kernel \<Rightarrow> bool" where
  "gen_in_state s g k \<longleftrightarrow> (case map_of (kn_heap k) g of None \<Rightarrow> False | Some x \<Rightarrow> gn_state x = s)"

definition kn_failed_dispose_awaited :: "bool \<Rightarrow> kernel \<Rightarrow> kernel option" where
  "kn_failed_dispose_awaited delivered k =
     (case kn_pc k of
        AwaitFailedDispose u \<Rightarrow> if gen_in_state Disposed u k then Some (reconcile_failed delivered u k) else None
      | _ \<Rightarrow> None)"

definition kn_prepare_done :: "kernel \<Rightarrow> kernel option" where
  "kn_prepare_done k =
     (case kn_pc k of
        AwaitMount u [] \<Rightarrow> Some (kn_emit (GenerationPrepared u (version_of u k)) (k\<lparr>kn_pc := AwaitPrepared u\<rparr>))
      | _ \<Rightarrow> None)"

text \<open>\<open>activate\<close>, the switch of \<open>#active\<close> and the activation event.\<close>

definition kn_prepared_delivered :: "bool \<Rightarrow> bool \<Rightarrow> kernel \<Rightarrow> kernel option" where
  "kn_prepared_delivered ok delivered k =
     (case kn_pc k of
        AwaitPrepared u \<Rightarrow>
          if \<not> ok \<or> \<not> gen_in_state Preparing u k then Some (reconcile_failed delivered u k)
          else Some (kn_emit (GenerationActivated u (version_of u k))
            ((kn_change u (\<lambda>x. x\<lparr>gn_state := Active\<rparr>) k)\<lparr>kn_active := Some u, kn_restart := [],
              kn_pc := AwaitActivated u (kn_active k)\<rparr>))
      | _ \<Rightarrow> None)"

definition kn_activated_delivered :: "bool \<Rightarrow> bool \<Rightarrow> kernel \<Rightarrow> kernel option" where
  "kn_activated_delivered ok delivered k =
     (case kn_pc k of
        AwaitActivated u previous \<Rightarrow>
          if \<not> ok then Some (reconcile_failed delivered u k)
          else (case previous of
             None \<Rightarrow> Some (k\<lparr>kn_pc := ReconcileIdle\<rparr>)
           | Some p \<Rightarrow> Some (kn_emit (GenerationDraining p (version_of p k)) (k\<lparr>kn_pc := AwaitDraining u p\<rparr>)))
      | _ \<Rightarrow> None)"

definition kn_draining_delivered :: "bool \<Rightarrow> bool \<Rightarrow> kernel \<Rightarrow> kernel option" where
  "kn_draining_delivered ok delivered k =
     (case kn_pc k of
        AwaitDraining u p \<Rightarrow>
          if \<not> ok then Some (reconcile_failed delivered u k)
          else Some ((kn_change p gn_drain k)\<lparr>kn_pc := ReconcileIdle\<rparr>)
      | _ \<Rightarrow> None)"

text \<open>A disposal that was started ends, with the callback the kernel gave the generation.\<close>

definition kn_dispose_done :: "string \<Rightarrow> string list \<Rightarrow> kernel \<Rightarrow> kernel option" where
  "kn_dispose_done g failures k =
     (case map_of (kn_heap k) g of
        None \<Rightarrow> None
      | Some x \<Rightarrow>
          if \<not> gn_disposing x \<or> gn_state x = Disposed then None
          else Some (kn_emit (GenerationDisposed g (gn_structureVersion x))
            ((kn_change g (gn_dispose failures) k)\<lparr>kn_generations := js_set_delete g (kn_generations k),
              kn_quarantines := (if failures = [] then kn_quarantines k
                else jsmap_set g (gn_structureVersion x) (kn_quarantines k))\<rparr>)))"

text \<open>\<open>beginTurn\<close>, which answers the new lease, and \<open>release\<close> of a lease, which is idempotent.\<close>

definition beginTurn :: "kernel \<Rightarrow> kernel_error + kernel \<times> nat" where
  "beginTurn k =
     (case kn_active k of
        None \<Rightarrow> Inl NoActiveStructureGeneration
      | Some a \<Rightarrow>
          (case Option.bind (map_of (kn_heap k) a) gn_acquire of
             None \<Rightarrow> Inl (GenerationState a)
           | Some x \<Rightarrow> Inr (k\<lparr>kn_heap := jsmap_set a x (kn_heap k), kn_leases := kn_leases k @ [(a, False)]\<rparr>,
               length (kn_leases k))))"

definition release_lease :: "nat \<Rightarrow> kernel \<Rightarrow> kernel" where
  "release_lease l k =
     (if length (kn_leases k) \<le> l then k
      else case kn_leases k ! l of
        (g, True) \<Rightarrow> k
      | (g, False) \<Rightarrow> kn_change g gn_release (k\<lparr>kn_leases := (kn_leases k)[l := (g, True)]\<rparr>))"

fun kernel_do :: "(string \<Rightarrow> string) \<Rightarrow> string list \<Rightarrow> kernel_action \<Rightarrow> kernel \<Rightarrow> kernel option" where
  "kernel_do sha256 bootstrap (Reconcile u version plugins) k =
     (if kn_pc k \<noteq> ReconcileIdle \<or> map_of (kn_heap k) u \<noteq> None then None
      else Some (fst (reconcile_begin sha256 bootstrap u version plugins k)))"
| "kernel_do sha256 bootstrap (UpdateAnswered failed) k = kn_update_answered sha256 failed k"
| "kernel_do sha256 bootstrap (MountAnswered outcome) k = kn_mount_answered outcome k"
| "kernel_do sha256 bootstrap (FailedDisposeAwaited delivered) k = kn_failed_dispose_awaited delivered k"
| "kernel_do sha256 bootstrap PrepareDone k = kn_prepare_done k"
| "kernel_do sha256 bootstrap (PreparedDelivered ok delivered) k = kn_prepared_delivered ok delivered k"
| "kernel_do sha256 bootstrap (ActivatedDelivered ok delivered) k = kn_activated_delivered ok delivered k"
| "kernel_do sha256 bootstrap (DrainingDelivered ok delivered) k = kn_draining_delivered ok delivered k"
| "kernel_do sha256 bootstrap (DisposeDone g failures) k = kn_dispose_done g failures k"
| "kernel_do sha256 bootstrap BeginTurn k = (case beginTurn k of Inl e \<Rightarrow> Some k | Inr (k', l) \<Rightarrow> Some k')"
| "kernel_do sha256 bootstrap (ReleaseLease l) k = Some (release_lease l k)"

text \<open>What a kernel without a call of \<open>stop\<close> can do, and what it can become.\<close>

inductive kernel_step :: "(string \<Rightarrow> string) \<Rightarrow> string list \<Rightarrow> kernel \<Rightarrow> kernel \<Rightarrow> bool"
  for sha256 and bootstrap where
  act: "kernel_do sha256 bootstrap a k = Some k' \<Longrightarrow> kernel_step sha256 bootstrap k k'"

inductive kernel_reaches :: "(string \<Rightarrow> string) \<Rightarrow> string list \<Rightarrow> kernel \<Rightarrow> kernel \<Rightarrow> bool"
  for sha256 and bootstrap where
  here: "kernel_reaches sha256 bootstrap k k"
| more: "kernel_reaches sha256 bootstrap k k' \<Longrightarrow> kernel_step sha256 bootstrap k' k'' \<Longrightarrow>
    kernel_reaches sha256 bootstrap k k''"

inductive_cases kernel_stepE: "kernel_step sha256 bootstrap k k'"

fun kernel_run :: "(string \<Rightarrow> string) \<Rightarrow> string list \<Rightarrow> kernel_action list \<Rightarrow> kernel \<Rightarrow> kernel option" where
  "kernel_run sha256 bootstrap [] k = Some k"
| "kernel_run sha256 bootstrap (a # as) k = Option.bind (kernel_do sha256 bootstrap a k) (kernel_run sha256 bootstrap as)"

lemma kernel_run_reaches:
  "kernel_run sha256 bootstrap as k = Some k' \<Longrightarrow> kernel_reaches sha256 bootstrap k0 k \<Longrightarrow>
   kernel_reaches sha256 bootstrap k0 k'"
proof (induction as arbitrary: k)
  case (Cons a as)
  then obtain k1 where "kernel_do sha256 bootstrap a k = Some k1" "kernel_run sha256 bootstrap as k1 = Some k'"
    by (auto simp: bind_eq_Some_conv)
  with Cons show ?case by (blast intro: act more)
qed simp

section \<open>Leases pin generations\<close>

definition held :: "string \<Rightarrow> (string \<times> bool) list \<Rightarrow> nat" where
  "held g leases = length (filter (\<lambda>(h, released). h = g \<and> \<not> released) leases)"

text \<open>A generation alone: its state, its references and its disposal fit together.\<close>

fun state_fits :: "generation_state \<Rightarrow> nat \<Rightarrow> bool \<Rightarrow> bool" where
  "state_fits Preparing refs disposing \<longleftrightarrow> refs = 0 \<and> \<not> disposing"
| "state_fits Active refs disposing \<longleftrightarrow> \<not> disposing"
| "state_fits Draining refs disposing \<longleftrightarrow> (disposing \<longleftrightarrow> refs = 0)"
| "state_fits GenerationFailed refs disposing \<longleftrightarrow> disposing \<and> refs = 0"
| "state_fits Disposed refs disposing \<longleftrightarrow> disposing \<and> refs = 0"

definition generation_ok :: "generation \<Rightarrow> bool" where
  "generation_ok x \<longleftrightarrow> state_fits (gn_state x) (gn_references x) (gn_disposing x)"

text \<open>Where the call of \<open>reconcile\<close> is, the generations it works on are as it left them.\<close>

fun pc_fits :: "kernel \<Rightarrow> reconcile_pc \<Rightarrow> bool" where
  "pc_fits k ReconcileIdle \<longleftrightarrow> True"
| "pc_fits k (AwaitUpdate a version plugins ordered) \<longleftrightarrow> kn_active k = Some a"
| "pc_fits k (AwaitMount u ps) \<longleftrightarrow> gen_in_state Preparing u k"
| "pc_fits k (AwaitFailedDispose u) \<longleftrightarrow> True"
| "pc_fits k (AwaitPrepared u) \<longleftrightarrow> gen_in_state Preparing u k"
| "pc_fits k (AwaitActivated u previous) \<longleftrightarrow> kn_active k = Some u \<and>
     (\<forall>p. previous = Some p \<longrightarrow> p \<noteq> u \<and> gen_in_state Active p k)"
| "pc_fits k (AwaitDraining u p) \<longleftrightarrow> kn_active k = Some u \<and> p \<noteq> u \<and> gen_in_state Active p k"

definition kernel_inv :: "kernel \<Rightarrow> bool" where
  "kernel_inv k \<longleftrightarrow>
     (\<forall>g x. map_of (kn_heap k) g = Some x \<longrightarrow> generation_ok x \<and> gn_references x = held g (kn_leases k)) \<and>
     (\<forall>g. map_of (kn_heap k) g = None \<longrightarrow> held g (kn_leases k) = 0) \<and>
     (\<forall>a. kn_active k = Some a \<longrightarrow> gen_in_state Active a k) \<and> pc_fits k (kn_pc k)"

lemma kn_change_simps [simp]:
  "map_of (kn_heap (kn_change g f k)) h =
     (if h = g then map_option f (map_of (kn_heap k) g) else map_of (kn_heap k) h)"
  "kn_generations (kn_change g f k) = kn_generations k" "kn_active (kn_change g f k) = kn_active k"
  "kn_leases (kn_change g f k) = kn_leases k" "kn_pc (kn_change g f k) = kn_pc k"
  "kn_restart (kn_change g f k) = kn_restart k" "kn_quarantines (kn_change g f k) = kn_quarantines k"
  "kn_events (kn_change g f k) = kn_events k"
  by (auto simp: kn_change_def split: option.splits)

lemma kn_emit_simps [simp]:
  "kn_heap (kn_emit e k) = kn_heap k" "kn_active (kn_emit e k) = kn_active k" "kn_leases (kn_emit e k) = kn_leases k"
  "kn_pc (kn_emit e k) = kn_pc k" "kn_generations (kn_emit e k) = kn_generations k"
  by (simp_all add: kn_emit_def)

lemma reconcile_failed_simps [simp]:
  "kn_heap (reconcile_failed d u k) = kn_heap k" "kn_active (reconcile_failed d u k) = kn_active k"
  "kn_leases (reconcile_failed d u k) = kn_leases k" "kn_pc (reconcile_failed d u k) = ReconcileIdle"
  by (simp_all add: reconcile_failed_def Let_def)

text \<open>Only the heap, the leases, \<open>#active\<close> and the program counter matter.\<close>

lemma gen_in_state_cong [cong]: "kn_heap k = kn_heap k' \<Longrightarrow> gen_in_state s g k = gen_in_state s g k'"
  by (simp add: gen_in_state_def)

lemma kernel_inv_intro:
  assumes "\<And>g x. map_of (kn_heap k) g = Some x \<Longrightarrow> generation_ok x \<and> gn_references x = held g (kn_leases k)"
    and "\<And>g. map_of (kn_heap k) g = None \<Longrightarrow> held g (kn_leases k) = 0"
    and "\<And>a. kn_active k = Some a \<Longrightarrow> gen_in_state Active a k" and "pc_fits k (kn_pc k)"
  shows "kernel_inv k"
  using assms by (simp add: kernel_inv_def)

lemma kernel_invD:
  assumes "kernel_inv k"
  shows "map_of (kn_heap k) g = Some x \<Longrightarrow> generation_ok x" "map_of (kn_heap k) g = Some x \<Longrightarrow> gn_references x = held g (kn_leases k)"
    "map_of (kn_heap k) g = None \<Longrightarrow> held g (kn_leases k) = 0"
    "kn_active k = Some a \<Longrightarrow> gen_in_state Active a k" "pc_fits k (kn_pc k)"
  using assms by (auto simp: kernel_inv_def)

text \<open>One generation changes, and keeps fitting; the others, and the leases, stay.\<close>

lemma kernel_inv_change:
  assumes "kernel_inv k" and "kn_heap k' = kn_heap (kn_change g f k)" and "kn_leases k' = kn_leases k"
    and "\<And>x. map_of (kn_heap k) g = Some x \<Longrightarrow> generation_ok (f x) \<and> gn_references (f x) = gn_references x"
    and "\<And>a. kn_active k' = Some a \<Longrightarrow> gen_in_state Active a k'" and "pc_fits k' (kn_pc k')"
  shows "kernel_inv k'"
proof (rule kernel_inv_intro)
  fix h x assume "map_of (kn_heap k') h = Some x"
  then show "generation_ok x \<and> gn_references x = held h (kn_leases k')"
    using assms(2-4) kernel_invD(1,2) [OF assms(1)] by (auto split: if_splits)
next
  fix h assume "map_of (kn_heap k') h = None"
  then show "held h (kn_leases k') = 0" using assms(2,3) kernel_invD(3) [OF assms(1)] by (auto split: if_splits)
qed (use assms in auto)

lemma kernel_inv_same:
  assumes "kernel_inv k" and "kn_heap k' = kn_heap k" and "kn_leases k' = kn_leases k"
    and "kn_active k' = kn_active k" and "pc_fits k' (kn_pc k')"
  shows "kernel_inv k'"
  using assms by (simp add: kernel_inv_def gen_in_state_def)

lemma pc_fits_same:
  "kn_heap k' = kn_heap k \<Longrightarrow> kn_active k' = kn_active k \<Longrightarrow> pc_fits k' pc = pc_fits k pc"
  by (cases pc) (simp_all add: gen_in_state_def)

lemma gen_in_state_change:
  "kn_heap k' = kn_heap (kn_change g f k) \<Longrightarrow> h \<noteq> g \<Longrightarrow> gen_in_state s h k' = gen_in_state s h k"
  by (simp add: gen_in_state_def)

lemma gen_in_state_kept:
  "kn_heap k' = kn_heap (kn_change g f k) \<Longrightarrow> (\<And>x. gn_state (f x) = gn_state x) \<Longrightarrow>
   gen_in_state s h k' = gen_in_state s h k"
  by (auto simp: gen_in_state_def split: option.splits)

lemma start_candidate_inv:
  assumes "kernel_inv k" and "map_of (kn_heap k) u = None" and "kn_pc k = ReconcileIdle"
  shows "kernel_inv (fst (start_candidate sha256 bootstrap u version plugins k))"
proof (cases "newGeneration sha256 bootstrap version plugins")
  case (Inl e)
  with assms show ?thesis by (simp add: start_candidate_def)
next
  case (Inr x)
  then have x: "gn_state x = Preparing" "gn_references x = 0" "\<not> gn_disposing x"
    by (auto simp: newGeneration_def split: sum.splits)
  have "a \<noteq> u" if "kn_active k = Some a" for a
    using kernel_invD(4) [OF assms(1) that] assms(2) by (auto simp: gen_in_state_def)
  with assms x kernel_invD [OF assms(1)] show ?thesis
    by (intro kernel_inv_intro)
       (auto simp: start_candidate_def Inr generation_ok_def gen_in_state_def split: if_splits)
qed

lemma reconcile_begin_inv:
  assumes "kernel_inv k" and "map_of (kn_heap k) u = None" and "kn_pc k = ReconcileIdle"
  shows "kernel_inv (fst (reconcile_begin sha256 bootstrap u version plugins k))"
proof -
  note start = start_candidate_inv [OF assms]
  have restart: "kernel_inv (k\<lparr>kn_restart := r\<rparr>)" for r
    using assms by (intro kernel_inv_same [OF assms(1)]) simp_all
  have emit: "kernel_inv (kn_emit e (k\<lparr>kn_restart := r\<rparr>))" "kernel_inv (kn_emit e k)" for e r
    using assms by (intro kernel_inv_same [OF assms(1)]; simp)+
  have await: "kernel_inv (k\<lparr>kn_pc := AwaitUpdate a version plugins ordered\<rparr>)" if "kn_active k = Some a" for a ordered
    using that by (intro kernel_inv_same [OF assms(1)]) simp_all
  show ?thesis using start restart emit await assms(1)
    by (auto simp: reconcile_begin_def Let_def bind_eq_Some_conv split: option.split sum.split)
qed

lemma gn_kept:
  "gn_state (gn_updated sha256 v ps o' x) = gn_state x" "gn_references (gn_updated sha256 v ps o' x) = gn_references x"
  "generation_ok (gn_updated sha256 v ps o' x) = generation_ok x"
  "gn_state (gn_update_failed sha256 o' only x) = gn_state x"
  "gn_references (gn_update_failed sha256 o' only x) = gn_references x"
  "generation_ok (gn_update_failed sha256 o' only x) = generation_ok x"
  by (simp_all add: gn_updated_def gn_update_failed_def generation_ok_def)

lemma update_answered_inv:
  assumes "kernel_inv k" and "kn_update_answered sha256 failed k = Some k'"
  shows "kernel_inv k'"
proof -
  obtain a v ps os where pc: "kn_pc k = AwaitUpdate a v ps os"
    using assms(2) by (auto simp: kn_update_answered_def split: reconcile_pc.splits)
  obtain f where f: "kn_heap k' = kn_heap (kn_change a f k)" "kn_leases k' = kn_leases k" "kn_active k' = kn_active k"
    "kn_pc k' = ReconcileIdle" "\<And>x. gn_state (f x) = gn_state x" "\<And>x. gn_references (f x) = gn_references x"
    "\<And>x. generation_ok (f x) = generation_ok x"
    using assms(2) pc gn_kept by (auto simp: kn_update_answered_def split: option.splits)
  show ?thesis
    using kernel_invD [OF assms(1)] gen_in_state_kept [OF f(1,5)] f
    by (intro kernel_inv_change [OF assms(1) f(1,2)]) auto
qed

lemma mount_answered_inv:
  assumes "kernel_inv k" and "kn_mount_answered outcome k = Some k'"
  shows "kernel_inv k'"
proof -
  obtain u p ps where pc: "kn_pc k = AwaitMount u (p # ps)"
    using assms(2) by (auto simp: kn_mount_answered_def split: reconcile_pc.splits list.splits)
  then have u: "gen_in_state Preparing u k" using kernel_invD(5) [OF assms(1)] by simp
  have k': "k' = (kn_change u (gn_mount outcome p) k)\<lparr>
      kn_pc := (if outcome = Mounted then AwaitMount u ps else AwaitFailedDispose u)\<rparr>"
    using assms(2) pc by (simp add: kn_mount_answered_def)
  have ne: "a \<noteq> u" if "kn_active k = Some a" for a
    using kernel_invD(4) [OF assms(1) that] u by (auto simp: gen_in_state_def split: option.splits)
  show ?thesis
  proof (rule kernel_inv_change [OF assms(1), where g = u and f = "gn_mount outcome p"])
    fix x assume x: "map_of (kn_heap k) u = Some x"
    with u kernel_invD(1) [OF assms(1) x] show "generation_ok (gn_mount outcome p x) \<and>
        gn_references (gn_mount outcome p x) = gn_references x"
      by (cases outcome) (auto simp: gn_mount_def generation_ok_def gen_in_state_def)
  next
    fix a assume "kn_active k' = Some a"
    with ne kernel_invD(4) [OF assms(1)] show "gen_in_state Active a k'"
      by (auto simp: k' gen_in_state_def)
  next
    show "pc_fits k' (kn_pc k')" using u
      by (auto simp: k' gen_in_state_def gn_mount_def split: option.splits)
  qed (simp_all add: k')
qed

lemma prepared_delivered_inv:
  assumes "kernel_inv k" and "kn_prepared_delivered ok delivered k = Some k'"
  shows "kernel_inv k'"
proof -
  obtain u where pc: "kn_pc k = AwaitPrepared u"
    using assms(2) by (auto simp: kn_prepared_delivered_def split: reconcile_pc.splits)
  then have u: "gen_in_state Preparing u k" using kernel_invD(5) [OF assms(1)] by simp
  show ?thesis
  proof (cases ok)
    case False
    with assms(2) pc have "k' = reconcile_failed delivered u k" by (simp add: kn_prepared_delivered_def)
    then show ?thesis by (intro kernel_inv_same [OF assms(1)]) simp_all
  next
    case True
    let ?f = "\<lambda>x. x\<lparr>gn_state := Active\<rparr>"
    from True assms(2) pc u have k': "kn_heap k' = kn_heap (kn_change u ?f k)" "kn_leases k' = kn_leases k"
      "kn_active k' = Some u" "kn_pc k' = AwaitActivated u (kn_active k)"
      by (auto simp: kn_prepared_delivered_def)
    have ne: "a \<noteq> u" if "kn_active k = Some a" for a
      using kernel_invD(4) [OF assms(1) that] u by (auto simp: gen_in_state_def split: option.splits)
    show ?thesis
    proof (rule kernel_inv_change [OF assms(1) k'(1,2)])
      fix x assume x: "map_of (kn_heap k) u = Some x"
      with u kernel_invD(1) [OF assms(1) x] show "generation_ok (?f x) \<and> gn_references (?f x) = gn_references x"
        by (auto simp: generation_ok_def gen_in_state_def)
    next
      fix a assume "kn_active k' = Some a"
      with u show "gen_in_state Active a k'" by (auto simp: k' gen_in_state_def split: option.splits)
    next
      show "pc_fits k' (kn_pc k')"
        using ne kernel_invD(4) [OF assms(1)] gen_in_state_change [OF k'(1)] by (auto simp: k'(3,4))
    qed
  qed
qed

lemma draining_delivered_inv:
  assumes "kernel_inv k" and "kn_draining_delivered ok delivered k = Some k'"
  shows "kernel_inv k'"
proof -
  obtain u p where pc: "kn_pc k = AwaitDraining u p"
    using assms(2) by (auto simp: kn_draining_delivered_def split: reconcile_pc.splits)
  then have p: "kn_active k = Some u" "p \<noteq> u" "gen_in_state Active p k"
    using kernel_invD(5) [OF assms(1)] by simp_all
  show ?thesis
  proof (cases ok)
    case False
    with assms(2) pc have "k' = reconcile_failed delivered u k" by (simp add: kn_draining_delivered_def)
    then show ?thesis by (intro kernel_inv_same [OF assms(1)]) simp_all
  next
    case True
    with assms(2) pc have k': "k' = (kn_change p gn_drain k)\<lparr>kn_pc := ReconcileIdle\<rparr>"
      by (simp add: kn_draining_delivered_def)
    show ?thesis
    proof (rule kernel_inv_change [OF assms(1), where g = p and f = gn_drain])
      fix x assume x: "map_of (kn_heap k) p = Some x"
      with p kernel_invD(1) [OF assms(1) x] show "generation_ok (gn_drain x) \<and> gn_references (gn_drain x) = gn_references x"
        by (auto simp: gn_drain_def generation_ok_def gen_in_state_def Let_def)
    next
      fix a assume "kn_active k' = Some a"
      with p kernel_invD(4) [OF assms(1)] show "gen_in_state Active a k'"
        by (auto simp: k' gen_in_state_def)
    qed (simp_all add: k')
  qed
qed

lemma activated_delivered_inv:
  assumes "kernel_inv k" and "kn_activated_delivered ok delivered k = Some k'"
  shows "kernel_inv k'"
proof -
  obtain u previous where pc: "kn_pc k = AwaitActivated u previous"
    using assms(2) by (auto simp: kn_activated_delivered_def split: reconcile_pc.splits)
  then have fits: "kn_active k = Some u" "\<And>p. previous = Some p \<Longrightarrow> p \<noteq> u \<and> gen_in_state Active p k"
    using kernel_invD(5) [OF assms(1)] by simp_all
  have "kn_heap k' = kn_heap k" "kn_leases k' = kn_leases k" "kn_active k' = kn_active k"
    "kn_pc k' = ReconcileIdle \<or> (\<exists>p. previous = Some p \<and> kn_pc k' = AwaitDraining u p)"
    using assms(2) pc by (auto simp: kn_activated_delivered_def split: if_splits option.splits)
  with fits show ?thesis by (intro kernel_inv_same [OF assms(1)]) (auto simp: gen_in_state_def)
qed

lemma dispose_done_inv:
  assumes "kernel_inv k" and "kn_dispose_done g failures k = Some k'"
  shows "kernel_inv k'"
proof -
  obtain x where x: "map_of (kn_heap k) g = Some x" "gn_disposing x" "gn_state x \<noteq> Disposed"
    using assms(2) by (auto simp: kn_dispose_done_def split: option.splits if_splits)
  with kernel_invD(1) [OF assms(1)] have ok: "gn_references x = 0" "gn_state x \<noteq> Active" "gn_state x \<noteq> Preparing"
    by (cases "gn_state x"; force simp: generation_ok_def)+
  from x assms(2) have k': "kn_heap k' = kn_heap (kn_change g (gn_dispose failures) k)" "kn_leases k' = kn_leases k"
    "kn_active k' = kn_active k" "kn_pc k' = kn_pc k"
    by (auto simp: kn_dispose_done_def)
  have keep: "gen_in_state s h k'" if "gen_in_state s h k" "s = Active \<or> s = Preparing" for s h
    using that x ok by (cases "h = g") (auto simp: gen_in_state_def k')
  show ?thesis
  proof (rule kernel_inv_change [OF assms(1) k'(1,2)])
    fix y assume "map_of (kn_heap k) g = Some y"
    with x ok show "generation_ok (gn_dispose failures y) \<and> gn_references (gn_dispose failures y) = gn_references y"
      by (simp add: gn_dispose_def generation_ok_def)
  next
    fix a assume "kn_active k' = Some a"
    with keep kernel_invD(4) [OF assms(1)] show "gen_in_state Active a k'" by (simp add: k')
  next
    show "pc_fits k' (kn_pc k')" using kernel_invD(5) [OF assms(1)] keep
      by (cases "kn_pc k") (auto simp: k'(3,4))
  qed
qed

lemma begin_turn_inv:
  assumes "kernel_inv k" and "beginTurn k = Inr (k', l)"
  shows "kernel_inv k'"
proof -
  obtain a x where a: "kn_active k = Some a" "map_of (kn_heap k) a = Some x" "gn_acquire x \<noteq> None"
    "k' = k\<lparr>kn_heap := jsmap_set a (the (gn_acquire x)) (kn_heap k), kn_leases := kn_leases k @ [(a, False)]\<rparr>"
    using assms(2) by (auto simp: beginTurn_def bind_eq_Some_conv split: option.splits)
  from kernel_invD(4) [OF assms(1) a(1)] a(2) have act: "gn_state x = Active" by (simp add: gen_in_state_def)
  then have y: "the (gn_acquire x) = x\<lparr>gn_references := gn_references x + 1\<rparr>" by (simp add: gn_acquire_def)
  have st: "gen_in_state s h k' = gen_in_state s h k" for s h
    by (auto simp: gen_in_state_def a(2,4) y)
  have fields: "kn_active k' = kn_active k" "kn_pc k' = kn_pc k" by (simp_all add: a(4))
  show ?thesis
  proof (rule kernel_inv_intro)
    fix g z assume z: "map_of (kn_heap k') g = Some z"
    show "generation_ok z \<and> gn_references z = held g (kn_leases k')"
    proof (cases "g = a")
      case True
      with z kernel_invD(1,2) [OF assms(1) a(2)] act show ?thesis
        by (auto simp: a(4) y held_def generation_ok_def)
    next
      case False
      with z have "map_of (kn_heap k) g = Some z" by (simp add: a(4))
      with kernel_invD(1,2) [OF assms(1) this] False show ?thesis by (simp add: a(4) held_def)
    qed
  next
    fix g assume "map_of (kn_heap k') g = None"
    then show "held g (kn_leases k') = 0"
      using kernel_invD(3) [OF assms(1)] by (auto simp: a(4) held_def split: if_splits)
  next
    fix b assume "kn_active k' = Some b"
    then show "gen_in_state Active b k'" using kernel_invD(4) [OF assms(1)] st fields by simp
  next
    show "pc_fits k' (kn_pc k')" using kernel_invD(5) [OF assms(1)] st fields by (cases "kn_pc k") simp_all
  qed
qed

lemma held_release:
  "l < length leases \<Longrightarrow> leases ! l = (g, False) \<Longrightarrow>
   held h (leases[l := (g, True)]) = held h leases - (if h = g then 1 else 0) \<and> (h = g \<longrightarrow> 0 < held h leases)"
proof (induction leases arbitrary: l)
  case (Cons x xs)
  show ?case
  proof (cases l)
    case (Suc m)
    with Cons show ?thesis by (cases x) (auto simp: held_def)
  qed (use Cons in \<open>auto simp: held_def\<close>)
qed simp

lemma release_inv:
  assumes "kernel_inv k"
  shows "kernel_inv (release_lease l k)"
proof (cases "l < length (kn_leases k) \<and> \<not> snd (kn_leases k ! l)")
  case False
  then have "release_lease l k = k" by (auto simp: release_lease_def split: prod.splits bool.splits)
  with assms show ?thesis by simp
next
  case True
  then obtain g where l: "l < length (kn_leases k)" "kn_leases k ! l = (g, False)"
    by (metis prod.collapse)
  let ?k = "release_lease l k"
  have k': "?k = kn_change g gn_release (k\<lparr>kn_leases := (kn_leases k)[l := (g, True)]\<rparr>)"
    using l by (simp add: release_lease_def)
  note h = held_release [OF l]
  have heap: "map_of (kn_heap ?k) i = (if i = g then map_option gn_release (map_of (kn_heap k) g) else map_of (kn_heap k) i)" for i
    by (simp add: k')
  have rel: "gn_state (gn_release x) = gn_state x" for x by (simp add: gn_release_def Let_def)
  have st: "gen_in_state s i ?k = gen_in_state s i k" for s i
    by (auto simp: gen_in_state_def heap rel split: option.splits)
  have fields: "kn_active ?k = kn_active k" "kn_pc ?k = kn_pc k" "kn_leases ?k = (kn_leases k)[l := (g, True)]"
    by (simp_all add: k')
  show ?thesis
  proof (rule kernel_inv_intro)
    fix i z assume z: "map_of (kn_heap ?k) i = Some z"
    show "generation_ok z \<and> gn_references z = held i (kn_leases ?k)"
    proof (cases "i = g")
      case True
      with z heap obtain x where x: "map_of (kn_heap k) g = Some x" "z = gn_release x" by auto
      note ok = kernel_invD(1,2) [OF assms x(1)]
      from ok(2) h [of g] have pos: "0 < gn_references x" by simp
      with ok(1) have "generation_ok z" unfolding x(2)
        by (cases "gn_state x") (auto simp: gn_release_def Let_def generation_ok_def)
      moreover have "gn_references z = gn_references x - 1" using pos by (simp add: x(2) gn_release_def Let_def)
      ultimately show ?thesis using ok(2) h [of g] True by (simp add: fields)
    next
      case False
      with z heap kernel_invD(1,2) [OF assms] h [of i] show ?thesis by (simp add: fields)
    qed
  next
    fix i assume "map_of (kn_heap ?k) i = None"
    then show "held i (kn_leases ?k) = 0" using kernel_invD(3) [OF assms] heap h [of i]
      by (auto simp: fields split: if_splits)
  next
    fix a assume "kn_active ?k = Some a"
    then show "gen_in_state Active a ?k" using kernel_invD(4) [OF assms] st by (simp add: fields)
  next
    show "pc_fits ?k (kn_pc ?k)" using kernel_invD(5) [OF assms] st by (cases "kn_pc k") (simp_all add: fields)
  qed
qed

lemma kernel_do_inv:
  assumes "kernel_do sha256 bootstrap a k = Some k'" and "kernel_inv k"
  shows "kernel_inv k'"
proof (cases a)
  case (Reconcile u version plugins)
  with assms reconcile_begin_inv [OF assms(2)] show ?thesis by (auto split: if_splits)
next
  case (FailedDisposeAwaited d)
  with assms(1) obtain u where "k' = reconcile_failed d u k"
    by (auto simp: kn_failed_dispose_awaited_def split: reconcile_pc.splits if_splits)
  then show ?thesis by (intro kernel_inv_same [OF assms(2)]) simp_all
next
  case PrepareDone
  with assms(1) obtain u where "kn_pc k = AwaitMount u []" "kn_pc k' = AwaitPrepared u" "kn_heap k' = kn_heap k"
    "kn_leases k' = kn_leases k" "kn_active k' = kn_active k"
    by (auto simp: kn_prepare_done_def split: reconcile_pc.splits list.splits)
  with kernel_invD(5) [OF assms(2)] show ?thesis
    by (intro kernel_inv_same [OF assms(2)]) (auto simp: gen_in_state_def)
next
  case BeginTurn
  with assms begin_turn_inv [OF assms(2)] show ?thesis by (auto split: sum.splits prod.splits)
next
  case (UpdateAnswered failed)
  with assms show ?thesis by (simp add: update_answered_inv)
next
  case (MountAnswered outcome)
  with assms show ?thesis by (simp add: mount_answered_inv)
next
  case (PreparedDelivered ok d)
  with assms show ?thesis by (simp add: prepared_delivered_inv)
next
  case (ActivatedDelivered ok d)
  with assms show ?thesis by (simp add: activated_delivered_inv)
next
  case (DrainingDelivered ok d)
  with assms show ?thesis by (simp add: draining_delivered_inv)
next
  case (DisposeDone g failures)
  with assms show ?thesis by (simp add: dispose_done_inv)
next
  case (ReleaseLease l)
  with assms(1) have "k' = release_lease l k" by simp
  with release_inv [OF assms(2)] show ?thesis by simp
qed

lemma kernel_new_inv: "kernel_inv kernel_new"
  by (simp add: kernel_inv_def kernel_new_def held_def)

lemma kernel_reaches_inv:
  "kernel_reaches sha256 bootstrap k k' \<Longrightarrow> kernel_inv k \<Longrightarrow> kernel_inv k'"
  by (induction rule: kernel_reaches.induct) (auto elim: kernel_stepE kernel_do_inv)

lemma held_pos: "l < length leases \<Longrightarrow> leases ! l = (g, False) \<Longrightarrow> 0 < held g leases"
  using held_release by blast

lemma held_zero_iff: "held g leases = 0 \<longleftrightarrow> (g, False) \<notin> set leases"
  by (auto simp: held_def filter_empty_conv)

text \<open>
  C5: A lease pins its generation. In every state a kernel can reach without \<open>stop\<close>, and
  however turns, reconciliations, listener failures and disposals interleave, the generation of
  a lease that is not released is active or draining, counts it, and its disposal has not
  begun.
\<close>

theorem lease_pins_generation:
  assumes "kernel_reaches sha256 bootstrap kernel_new k"
    and "l < length (kn_leases k)" and "kn_leases k ! l = (g, False)"
  shows "\<exists>x. map_of (kn_heap k) g = Some x \<and> gn_state x \<in> {Active, Draining} \<and> \<not> gn_disposing x \<and>
    0 < gn_references x"
proof -
  have inv: "kernel_inv k" using kernel_reaches_inv [OF assms(1) kernel_new_inv] .
  from held_pos [OF assms(2,3)] have pos: "0 < held g (kn_leases k)" .
  with kernel_invD(3) [OF inv, of g] obtain x where x: "map_of (kn_heap k) g = Some x" by fastforce
  from kernel_invD(1,2) [OF inv x] pos have "generation_ok x" "0 < gn_references x" by simp_all
  then show ?thesis by (cases "gn_state x") (auto simp: x generation_ok_def)
qed

text \<open>
  C17: A drained generation is disposed as soon as it may be. In every reachable state a
  draining generation has begun its disposal exactly when no turn holds a lease on it, and a
  disposal that has begun can end, after which the generation is disposed and no longer listed.
\<close>

theorem drained_generation_disposed:
  assumes "kernel_reaches sha256 bootstrap kernel_new k"
    and "map_of (kn_heap k) g = Some x" and "gn_state x = Draining"
  shows "(gn_disposing x \<longleftrightarrow> (g, False) \<notin> set (kn_leases k)) \<and>
    (gn_disposing x \<longrightarrow> (\<exists>k'. kernel_do sha256 bootstrap (DisposeDone g []) k = Some k' \<and>
       gen_in_state Disposed g k' \<and> g \<notin> set (kn_generations k')))"
proof -
  have inv: "kernel_inv k" using kernel_reaches_inv [OF assms(1) kernel_new_inv] .
  from kernel_invD(1,2) [OF inv assms(2)] assms(3)
  have "gn_disposing x \<longleftrightarrow> held g (kn_leases k) = 0" by (simp add: generation_ok_def)
  then show ?thesis
    using assms(2,3) by (simp add: held_zero_iff kn_dispose_done_def gen_in_state_def gn_dispose_def)
qed

section \<open>A turn sees one graph\<close>

definition gn_graph :: "generation \<Rightarrow> string \<times> string \<times> runtime_plugin list \<times> runtime_plugin list \<times> string list" where
  "gn_graph x = (gn_structureVersion x, gn_graphDigest x, gn_plugins x, gn_mounted x, gn_running x)"

definition graph_at :: "string \<Rightarrow> kernel \<Rightarrow> (string \<times> string \<times> runtime_plugin list \<times> runtime_plugin list \<times> string list) option" where
  "graph_at g k = map_option gn_graph (map_of (kn_heap k) g)"

fun updating :: "string \<Rightarrow> reconcile_pc \<Rightarrow> bool" where
  "updating g (AwaitUpdate a version plugins ordered) \<longleftrightarrow> a = g"
| "updating g _ \<longleftrightarrow> False"

lemma graph_at_change:
  "kn_heap k' = kn_heap (kn_change h f k) \<Longrightarrow> h \<noteq> g \<or> (\<forall>x. gn_graph (f x) = gn_graph x) \<Longrightarrow>
   graph_at g k' = graph_at g k"
  by (cases "map_of (kn_heap k) g") (auto simp: graph_at_def)

lemma graph_at_same: "kn_heap k' = kn_heap k \<Longrightarrow> graph_at g k' = graph_at g k"
  by (simp add: graph_at_def)

lemma start_candidate_graph:
  assumes "map_of (kn_heap k) g \<noteq> None" and "map_of (kn_heap k) u = None"
    and "start_candidate sha256 bootstrap u version plugins k = (k', r)" and "\<not> updating g (kn_pc k)"
  shows "graph_at g k' = graph_at g k \<and> \<not> updating g (kn_pc k')"
  using assms by (auto simp: start_candidate_def graph_at_def split: sum.splits)

lemma reconcile_begin_graph:
  assumes "map_of (kn_heap k) g = Some x" and "0 < gn_references x" and "map_of (kn_heap k) u = None"
    and "reconcile_begin sha256 bootstrap u version plugins k = (k', r)" and "\<not> updating g (kn_pc k)"
  shows "graph_at g k' = graph_at g k \<and> \<not> updating g (kn_pc k')"
proof (cases "\<exists>k0 r0. start_candidate sha256 bootstrap u version plugins k = (k0, r0) \<and> k0 = k'")
  case True
  with start_candidate_graph [of k g u sha256 bootstrap version plugins k'] assms show ?thesis by auto
next
  case False
  with assms show ?thesis
    by (auto simp: reconcile_begin_def Let_def bind_eq_Some_conv graph_at_def
        split: option.splits if_splits sum.splits)
qed

lemma kernel_do_graph:
  assumes "kernel_do sha256 bootstrap a k = Some k'" and "kernel_inv k"
    and "l < length (kn_leases k)" and "kn_leases k ! l = (g, False)" and "\<not> updating g (kn_pc k)"
  shows "graph_at g k' = graph_at g k \<and> \<not> updating g (kn_pc k')"
proof -
  from held_pos [OF assms(3,4)] have pos: "0 < held g (kn_leases k)" .
  with kernel_invD(3) [OF assms(2), of g] obtain x where x: "map_of (kn_heap k) g = Some x" by fastforce
  from kernel_invD(1,2) [OF assms(2) x] pos have refs: "0 < gn_references x" and ok: "generation_ok x" by simp_all
  then have st: "gn_state x \<in> {Active, Draining}" "\<not> gn_disposing x"
    by (cases "gn_state x"; simp add: generation_ok_def)+
  note fits = kernel_invD(5) [OF assms(2)]
  show ?thesis
  proof (cases a)
    case (Reconcile u version plugins)
    with assms(1) have "map_of (kn_heap k) u = None"
      "k' = fst (reconcile_begin sha256 bootstrap u version plugins k)" by (auto split: if_splits)
    with reconcile_begin_graph [OF x refs _ _ assms(5)] show ?thesis by (metis prod.collapse)
  next
    case (UpdateAnswered failed)
    with assms(1) obtain h v ps os where pc: "kn_pc k = AwaitUpdate h v ps os"
      by (auto simp: kn_update_answered_def split: reconcile_pc.splits)
    with assms(5) have "h \<noteq> g" by simp
    moreover obtain f where "kn_heap k' = kn_heap (kn_change h f k)" "kn_pc k' = ReconcileIdle"
      using assms(1) UpdateAnswered pc by (auto simp: kn_update_answered_def split: option.splits)
    ultimately show ?thesis using graph_at_change by simp
  next
    case (MountAnswered outcome)
    with assms(1) obtain u p ps where pc: "kn_pc k = AwaitMount u (p # ps)"
      by (auto simp: kn_mount_answered_def split: reconcile_pc.splits list.splits)
    with fits st x have "u \<noteq> g" by (auto simp: gen_in_state_def)
    moreover have "kn_heap k' = kn_heap (kn_change u (gn_mount outcome p) k)" "\<not> updating g (kn_pc k')"
      using assms(1) MountAnswered pc by (auto simp: kn_mount_answered_def split: if_splits)
    ultimately show ?thesis using graph_at_change by simp
  next
    case (FailedDisposeAwaited d)
    with assms(1) obtain u where "k' = reconcile_failed d u k"
      by (auto simp: kn_failed_dispose_awaited_def split: reconcile_pc.splits if_splits)
    then show ?thesis by (simp add: graph_at_def)
  next
    case PrepareDone
    with assms(1) show ?thesis
      by (auto simp: kn_prepare_done_def graph_at_def split: reconcile_pc.splits list.splits)
  next
    case (PreparedDelivered ok d)
    with assms(1) obtain u where "kn_pc k = AwaitPrepared u"
      by (auto simp: kn_prepared_delivered_def split: reconcile_pc.splits)
    with assms(1) PreparedDelivered have "(kn_heap k' = kn_heap k \<or> kn_heap k' = kn_heap (kn_change u (\<lambda>x. x\<lparr>gn_state := Active\<rparr>) k)) \<and>
        \<not> updating g (kn_pc k')"
      by (auto simp: kn_prepared_delivered_def split: reconcile_pc.splits if_splits)
    then show ?thesis using graph_at_change [of k' u "\<lambda>x. x\<lparr>gn_state := Active\<rparr>" k g] graph_at_same [of k' k]
      by (auto simp: gn_graph_def)
  next
    case (ActivatedDelivered ok d)
    with assms(1) have "kn_heap k' = kn_heap k \<and> \<not> updating g (kn_pc k')"
      by (auto simp: kn_activated_delivered_def split: reconcile_pc.splits if_splits option.splits)
    then show ?thesis by (simp add: graph_at_def)
  next
    case (DrainingDelivered ok d)
    with assms(1) obtain v p where "kn_pc k = AwaitDraining v p"
      by (auto simp: kn_draining_delivered_def split: reconcile_pc.splits)
    with assms(1) DrainingDelivered have "(kn_heap k' = kn_heap k \<or> kn_heap k' = kn_heap (kn_change p gn_drain k)) \<and>
        \<not> updating g (kn_pc k')"
      by (auto simp: kn_draining_delivered_def split: reconcile_pc.splits if_splits)
    then show ?thesis using graph_at_change [of k' p gn_drain k g] graph_at_same [of k' k]
      by (auto simp: gn_graph_def gn_drain_def Let_def)
  next
    case (DisposeDone h failures)
    with assms(1) x st have "h \<noteq> g" "kn_heap k' = kn_heap (kn_change h (gn_dispose failures) k)" "kn_pc k' = kn_pc k"
      by (auto simp: kn_dispose_done_def split: option.splits if_splits)
    then show ?thesis using graph_at_change assms(5) by simp
  next
    case BeginTurn
    then show ?thesis using assms(1,5)
      by (auto simp: beginTurn_def bind_eq_Some_conv graph_at_def gn_acquire_def gn_graph_def
          split: option.splits sum.splits if_splits)
  next
    case (ReleaseLease i)
    have "gn_graph (gn_release y) = gn_graph y" for y by (simp add: gn_graph_def gn_release_def Let_def)
    then show ?thesis using assms(1,5) ReleaseLease
      by (auto simp: release_lease_def graph_at_def option.map_comp o_def split: prod.splits bool.splits if_splits)
  qed
qed

text \<open>Leases are only added and released.\<close>

lemma kernel_do_leases:
  assumes "kernel_do sha256 bootstrap a k = Some k'" and "l < length (kn_leases k)"
  shows "l < length (kn_leases k') \<and> fst (kn_leases k' ! l) = fst (kn_leases k ! l) \<and>
    (snd (kn_leases k ! l) \<longrightarrow> snd (kn_leases k' ! l))"
proof (cases a)
  case BeginTurn
  with assms show ?thesis
    by (auto simp: beginTurn_def nth_append split: option.splits sum.splits)
next
  case (ReleaseLease i)
  with assms show ?thesis
    by (auto simp: release_lease_def nth_list_update split: prod.splits bool.splits)
next
  case (Reconcile u version plugins)
  with assms show ?thesis
    by (auto simp: reconcile_begin_def start_candidate_def Let_def split: option.splits if_splits sum.splits prod.splits)
qed (use assms in \<open>auto simp: kn_update_answered_def kn_mount_answered_def kn_failed_dispose_awaited_def
    kn_prepare_done_def kn_prepared_delivered_def kn_activated_delivered_def kn_draining_delivered_def
    kn_dispose_done_def split: reconcile_pc.splits option.splits if_splits list.splits\<close>)

lemma reaches_leases:
  "kernel_reaches sha256 bootstrap k k' \<Longrightarrow> l < length (kn_leases k) \<Longrightarrow>
   l < length (kn_leases k') \<and> fst (kn_leases k' ! l) = fst (kn_leases k ! l)"
proof (induction rule: kernel_reaches.induct)
  case (more k k' k'')
  from more.hyps(2) obtain a where "kernel_do sha256 bootstrap a k' = Some k''" by (auto elim: kernel_stepE)
  with kernel_do_leases [OF this] more show ?case by simp
qed simp

lemma reaches_graph:
  "kernel_reaches sha256 bootstrap k k' \<Longrightarrow> kernel_inv k \<Longrightarrow> l < length (kn_leases k) \<Longrightarrow>
   kn_leases k ! l = (g, False) \<Longrightarrow> \<not> updating g (kn_pc k) \<Longrightarrow> kn_leases k' ! l = (g, False) \<Longrightarrow>
   graph_at g k' = graph_at g k \<and> \<not> updating g (kn_pc k')"
proof (induction rule: kernel_reaches.induct)
  case (more k k' k'')
  from more.hyps(2) obtain a where a: "kernel_do sha256 bootstrap a k' = Some k''" by (auto elim: kernel_stepE)
  from reaches_leases [OF more.hyps(1) more.prems(2)] more.prems(3)
  have len: "l < length (kn_leases k')" and g: "fst (kn_leases k' ! l) = g" by simp_all
  from kernel_do_leases [OF a len] more.prems(5) g have here: "kn_leases k' ! l = (g, False)"
    by (cases "kn_leases k' ! l") auto
  from more.IH [OF more.prems(1-4) here] kernel_do_graph [OF a _ len here] kernel_reaches_inv [OF more.hyps(1) more.prems(1)]
  show ?case by simp
qed simp

text \<open>
  C8: A turn sees one graph. Between any two states at which a turn holds its lease, its
  generation keeps its structure version, its digest, its plugins with their configurations,
  and the running fibers, whatever reconciliations, other turns and disposals happen: provided
  no in-place update of the generation was under way at the first of the two.
\<close>

theorem turn_sees_one_graph:
  assumes "kernel_reaches sha256 bootstrap kernel_new k" and "kernel_reaches sha256 bootstrap k k'"
    and "l < length (kn_leases k)" and "kn_leases k ! l = (g, False)" and "\<not> updating g (kn_pc k)"
    and "kn_leases k' ! l = (g, False)"
  shows "graph_at g k \<noteq> None \<and> graph_at g k' = graph_at g k"
proof -
  have inv: "kernel_inv k" using kernel_reaches_inv [OF assms(1) kernel_new_inv] .
  from reaches_graph [OF assms(2) inv assms(3-6)] have "graph_at g k' = graph_at g k" by simp
  moreover from held_pos [OF assms(3,4)] kernel_invD(3) [OF inv, of g] have "graph_at g k \<noteq> None"
    by (auto simp: graph_at_def)
  ultimately show ?thesis by simp
qed

section \<open>Where the kernel falls short\<close>

definition first_generation :: "mount_outcome \<Rightarrow> kernel_action list" where
  "first_generation outcome = [Reconcile ''g1'' ''v1'' [sample_plugin ''a'' [] [] 1], MountAnswered outcome]"

definition activated :: "kernel_action list" where
  "activated = first_generation Mounted @ [PrepareDone, PreparedDelivered True True, ActivatedDelivered True True]"

text \<open>
  C25: The exception is reachable. A turn may begin while an in-place update of the active
  generation awaits its fibers, since the reference count is only read before: when the update
  ends, the generation the turn holds has another structure version and other configurations.
\<close>

theorem live_update_races_turn:
  "\<exists>k k'. kernel_reaches id [] kernel_new k \<and> kernel_step id [] k k' \<and>
     kn_leases k = [(''g1'', False)] \<and> kn_leases k' = [(''g1'', False)] \<and>
     version_of ''g1'' k = ''v1'' \<and> version_of ''g1'' k' = ''v2''"
proof -
  let ?run = "kernel_run id [] (activated @ [Reconcile ''g2'' ''v2'' [sample_plugin ''a'' [] [] 2], BeginTurn]) kernel_new"
  have *: "case ?run of None \<Rightarrow> False | Some k \<Rightarrow> kn_leases k = [(''g1'', False)] \<and> version_of ''g1'' k = ''v1'' \<and>
      (case kernel_do id [] (UpdateAnswered None) k of None \<Rightarrow> False
       | Some k' \<Rightarrow> kn_leases k' = [(''g1'', False)] \<and> version_of ''g1'' k' = ''v2'')"
    by code_simp
  then obtain k where k: "?run = Some k" by (cases ?run) auto
  with * obtain k' where k': "kernel_do id [] (UpdateAnswered None) k = Some k'"
    by (cases "kernel_do id [] (UpdateAnswered None) k") auto
  from kernel_run_reaches [OF k here] act [OF k'] * k k' show ?thesis by auto
qed

text \<open>
  A candidate that is given up leaves fibers behind: a plugin that is found unhealthy is not in
  \<open>#mounted\<close>, so the disposal passes it over; and when the listener throws on the prepared event
  nothing is disposed at all.
\<close>

lemma candidates_leak:
  "case kernel_run id [] (first_generation Unhealthy @ [DisposeDone ''g1'' [], FailedDisposeAwaited True]) kernel_new of
     None \<Rightarrow> False
   | Some k \<Rightarrow> kn_pc k = ReconcileIdle \<and> kn_generations k = [] \<and> gen_in_state Disposed ''g1'' k \<and>
       map_option gn_running (map_of (kn_heap k) ''g1'') = Some [''a'']"
  "case kernel_run id [] (first_generation Mounted @ [PrepareDone, PreparedDelivered False True]) kernel_new of
     None \<Rightarrow> False
   | Some k \<Rightarrow> kn_pc k = ReconcileIdle \<and> kn_generations k = [] \<and> gen_in_state Preparing ''g1'' k \<and>
       map_option gn_running (map_of (kn_heap k) ''g1'') = Some [''a'']"
  by code_simp+

text \<open>
  When the listener throws on the activation event, the switch has happened: the active
  generation is not listed and the previous one is never drained.
\<close>

lemma activation_half_done:
  "case kernel_run id [] (activated @ [Reconcile ''g2'' ''v2'' [sample_plugin ''b'' [] [] 1], MountAnswered Mounted,
      PrepareDone, PreparedDelivered True True, ActivatedDelivered False True]) kernel_new of
     None \<Rightarrow> False
   | Some k \<Rightarrow> kn_pc k = ReconcileIdle \<and> kn_active k = Some ''g2'' \<and> kn_generations k = [''g1''] \<and>
       gen_in_state Active ''g1'' k"
  by code_simp

section \<open>Samples\<close>

lemma lease_pins_generation_witness:
  "case kernel_run id [] (activated @ [BeginTurn]) kernel_new of None \<Rightarrow> False
   | Some k \<Rightarrow> \<exists>x. map_of (kn_heap k) ''g1'' = Some x \<and> \<not> gn_disposing x"
proof -
  let ?run = "kernel_run id [] (activated @ [BeginTurn]) kernel_new"
  have *: "case ?run of None \<Rightarrow> False | Some k \<Rightarrow> kn_leases k = [(''g1'', False)]" by code_simp
  then obtain k where k: "?run = Some k" by (cases ?run) auto
  with * lease_pins_generation [OF kernel_run_reaches [OF k here], of 0 "''g1''"] show ?thesis by auto
qed

definition drained :: "kernel_action list" where
  "drained = activated @ [BeginTurn, Reconcile ''g2'' ''v2'' [sample_plugin ''b'' [] [] 1], MountAnswered Mounted,
     PrepareDone, PreparedDelivered True True, ActivatedDelivered True True, DrainingDelivered True True]"

lemma drained_generation_disposed_witness:
  "case kernel_run id [] drained kernel_new of None \<Rightarrow> False
   | Some k \<Rightarrow> (case map_of (kn_heap k) ''g1'' of None \<Rightarrow> False | Some x \<Rightarrow> \<not> gn_disposing x)"
proof -
  let ?run = "kernel_run id [] drained kernel_new"
  have *: "case ?run of None \<Rightarrow> False | Some k \<Rightarrow> kn_leases k = [(''g1'', False)] \<and>
      (case map_of (kn_heap k) ''g1'' of None \<Rightarrow> False | Some x \<Rightarrow> gn_state x = Draining)" by code_simp
  then obtain k where k: "?run = Some k" by (cases ?run) auto
  with * obtain x where x: "map_of (kn_heap k) ''g1'' = Some x" "gn_state x = Draining" "kn_leases k = [(''g1'', False)]"
    by (auto split: option.splits)
  with k drained_generation_disposed [OF kernel_run_reaches [OF k here] x(1,2)] show ?thesis by simp
qed

lemma turn_sees_one_graph_witness:
  "case kernel_run id [] (activated @ [BeginTurn]) kernel_new of None \<Rightarrow> False
   | Some k \<Rightarrow> (case kernel_run id [] (drop (Suc (length activated)) drained) k of None \<Rightarrow> False
      | Some k' \<Rightarrow> graph_at ''g1'' k' = graph_at ''g1'' k)"
proof -
  let ?run = "kernel_run id [] (activated @ [BeginTurn]) kernel_new"
    and ?on = "kernel_run id [] (drop (Suc (length activated)) drained)"
  have *: "case ?run of None \<Rightarrow> False | Some k \<Rightarrow> kn_leases k = [(''g1'', False)] \<and> kn_pc k = ReconcileIdle \<and>
      (case ?on k of None \<Rightarrow> False | Some k' \<Rightarrow> kn_leases k' = [(''g1'', False)])" by code_simp
  then obtain k where k: "?run = Some k" by (cases ?run) auto
  with * obtain k' where k': "?on k = Some k'" "kn_leases k' = [(''g1'', False)]" "kn_leases k = [(''g1'', False)]"
    "kn_pc k = ReconcileIdle" by (auto split: option.splits)
  from turn_sees_one_graph [OF kernel_run_reaches [OF k here] kernel_run_reaches [OF k'(1) here], of 0 "''g1''"] k k'
  show ?thesis by simp
qed

end
