(* ===== verification/StructureLog.thy ===== *)
theory StructureLog
  imports PluginCatalog KernelGenerations HostChronicle Samples
begin

text \<open>
  The structure stream: what \<open>packages/knowledge/src/structure-events.ts\<close> writes of resolved
  structures and of the kernel's lifecycle, and the structure it reads back after a restart.
\<close>

section \<open>Builders and appends\<close>

definition structure_event :: "string \<Rightarrow> string \<Rightarrow> string \<Rightarrow> string \<Rightarrow> structure_payload \<Rightarrow> payload new_event" where
  "structure_event uuid now actor digest p = newChronicleEvent uuid now
     ((plain_input (structure_event_type p) \<lparr>actor_type = SystemActor, actor_id = actor\<rparr> no_scope (StructureP p))
      \<lparr>in_structureVersion := Some digest\<rparr>)"

definition resolved_payload :: "effective_structure \<Rightarrow> structure_payload" where
  "resolved_payload s = SResolvedP (ef_profileId s) (ef_digest s) (ef_bundles s) s"

text \<open>The parse of the payload may throw.\<close>

definition structureResolvedEvent :: "zod \<Rightarrow> string \<Rightarrow> string \<Rightarrow> effective_structure \<Rightarrow> payload new_event option" where
  "structureResolvedEvent z uuid now s =
     (if structure_payload_ok z (resolved_payload s)
      then Some (structure_event uuid now ''host'' (ef_digest s) (resolved_payload s)) else None)"

text \<open>The failure event carries the name and the message of the error, \<open>name\<close> and \<open>msg\<close>.\<close>

fun lifecycle_payload :: "string \<Rightarrow> string \<Rightarrow> lifecycle_event \<Rightarrow> structure_payload" where
  "lifecycle_payload name msg (GenerationPrepared g v) = SPhaseP PhasePrepared g v"
| "lifecycle_payload name msg (GenerationActivated g v) = SPhaseP PhaseActivated g v"
| "lifecycle_payload name msg (GenerationUpdated g v) = SPhaseP PhaseUpdated g v"
| "lifecycle_payload name msg (GenerationFailedEvent g v) = SFailedP g v name msg"
| "lifecycle_payload name msg (GenerationDraining g v) = SPhaseP PhaseDraining g v"
| "lifecycle_payload name msg (GenerationDisposed g v) = SPhaseP PhaseDisposed g v"
| "lifecycle_payload name msg (RestartRequiredEvent g v ids) = SRestartP g v ids"

fun lifecycle_version :: "lifecycle_event \<Rightarrow> string" where
  "lifecycle_version (GenerationPrepared g v) = v"
| "lifecycle_version (GenerationActivated g v) = v"
| "lifecycle_version (GenerationUpdated g v) = v"
| "lifecycle_version (GenerationFailedEvent g v) = v"
| "lifecycle_version (GenerationDraining g v) = v"
| "lifecycle_version (GenerationDisposed g v) = v"
| "lifecycle_version (RestartRequiredEvent g v ids) = v"

definition structureLifecycleEvent :: "string \<Rightarrow> string \<Rightarrow> string \<Rightarrow> string \<Rightarrow> lifecycle_event \<Rightarrow> payload new_event" where
  "structureLifecycleEvent uuid now name msg ev =
     structure_event uuid now ''kernel'' (lifecycle_version ev) (lifecycle_payload name msg ev)"

definition appendStructureLifecycleEvent :: "('s, payload) chronicle_ops \<Rightarrow> env \<Rightarrow> string \<Rightarrow> string \<Rightarrow>
    lifecycle_event \<Rightarrow> 's \<Rightarrow> 's \<times> (chronicle_error + payload chronicle_event list)" where
  "appendStructureLifecycleEvent ops env name msg ev s =
     op_append ops (env_now env 1) STRUCTURE_STREAM_ID
       [structureLifecycleEvent (env_uuid env 0) (env_now env 0) name msg ev]
       (op_latest ops STRUCTURE_STREAM_ID s + 1) s"

definition is_resolved :: "payload chronicle_event \<Rightarrow> bool" where
  "is_resolved e \<longleftrightarrow> ev_type e = ''structure.resolved''"

datatype structure_log_error =
    StructureEventInvalid
  | StructureStoreError chronicle_error
  | ActiveStructureUnresolved string

definition readLatestResolved :: "('s, payload) chronicle_ops \<Rightarrow> 's \<Rightarrow>
    structure_log_error + payload chronicle_event option" where
  "readLatestResolved ops s =
     (case op_read ops STRUCTURE_STREAM_ID 0 s of
        (es, Some err) \<Rightarrow> Inl (StructureStoreError err)
      | (es, None) \<Rightarrow> Inr (find is_resolved (rev es)))"

definition append_resolved_at :: "zod \<Rightarrow> ('s, payload) chronicle_ops \<Rightarrow> env \<Rightarrow> effective_structure \<Rightarrow> int \<Rightarrow> 's \<Rightarrow>
    's \<times> (structure_log_error + payload chronicle_event list)" where
  "append_resolved_at z ops env structure expected s =
     (case structureResolvedEvent z (env_uuid env 0) (env_now env 0) structure of
        None \<Rightarrow> (s, Inl StructureEventInvalid)
      | Some e \<Rightarrow> map_prod id (map_sum StructureStoreError id)
          (op_append ops (env_now env 1) STRUCTURE_STREAM_ID [e] expected s))"

text \<open>The digest that the latest resolved event records, if its payload parses.\<close>

definition recorded_digest :: "zod \<Rightarrow> payload chronicle_event \<Rightarrow> string option" where
  "recorded_digest z e =
     (case ev_payload e of
        StructureP (SResolvedP profile digest bundles s) \<Rightarrow>
          if structure_payload_ok z (SResolvedP profile digest bundles s) then Some digest else None
      | _ \<Rightarrow> None)"

definition appendResolvedStructure :: "zod \<Rightarrow> ('s, payload) chronicle_ops \<Rightarrow> env \<Rightarrow> effective_structure \<Rightarrow>
    int option \<Rightarrow> 's \<Rightarrow> 's \<times> (structure_log_error + payload chronicle_event list)" where
  "appendResolvedStructure z ops env structure expected s =
     (case expected of
        Some n \<Rightarrow> append_resolved_at z ops env structure n s
      | None \<Rightarrow>
          (case readLatestResolved ops s of
             Inl err \<Rightarrow> (s, Inl err)
           | Inr latest \<Rightarrow>
               (case latest of
                  Some e \<Rightarrow>
                    if recorded_digest z e = Some (ef_digest structure) then (s, Inr [e])
                    else append_resolved_at z ops env structure (op_latest ops STRUCTURE_STREAM_ID s + 1) s
                | None \<Rightarrow> append_resolved_at z ops env structure (op_latest ops STRUCTURE_STREAM_ID s + 1) s)))"

section \<open>The active structure\<close>

text \<open>The loop of \<open>readActiveStructure\<close>: the structures by digest, and the active digest.\<close>

fun scan_structures :: "zod \<Rightarrow> payload chronicle_event list \<Rightarrow> (string, effective_structure) jsmap \<Rightarrow>
    string option \<Rightarrow> structure_log_error + (string, effective_structure) jsmap \<times> string option" where
  "scan_structures z [] resolved active = Inr (resolved, active)"
| "scan_structures z (e # es) resolved active =
     (if is_resolved e then
        (case ev_payload e of
           StructureP (SResolvedP profile digest bundles s) \<Rightarrow>
             if structure_payload_ok z (SResolvedP profile digest bundles s)
             then scan_structures z es (jsmap_set digest s resolved) active else Inl StructureEventInvalid
         | _ \<Rightarrow> Inl StructureEventInvalid)
      else if ev_type e = ''structure.activated'' \<or> ev_type e = ''structure.updated'' then
        (case ev_payload e of
           StructureP (SPhaseP phase g digest) \<Rightarrow>
             if structure_payload_ok z (SPhaseP phase g digest)
             then scan_structures z es resolved (Some digest) else Inl StructureEventInvalid
         | _ \<Rightarrow> Inl StructureEventInvalid)
      else scan_structures z es resolved active)"

definition readActiveStructure :: "zod \<Rightarrow> ('s, payload) chronicle_ops \<Rightarrow> 's \<Rightarrow>
    structure_log_error + effective_structure option" where
  "readActiveStructure z ops s =
     (case op_read ops STRUCTURE_STREAM_ID 0 s of
        (es, err) \<Rightarrow>
          (case scan_structures z es [] None of
             Inl e \<Rightarrow> Inl e
           | Inr (resolved, active) \<Rightarrow>
               (case err of
                  Some e \<Rightarrow> Inl (StructureStoreError e)
                | None \<Rightarrow>
                    (case active of
                       None \<Rightarrow> Inr None
                     | Some digest \<Rightarrow>
                         (case map_of resolved digest of
                            None \<Rightarrow> Inl (ActiveStructureUnresolved digest)
                          | Some structure \<Rightarrow> Inr (Some structure))))))"

section \<open>The stream and what it stands for\<close>

lemma structure_event_sel [simp]:
  "ev_type (structure_event u n actor d p) = structure_event_type p"
  "ev_payload (structure_event u n actor d p) = StructureP p"
  by (simp_all add: structure_event_def newChronicleEvent_def plain_input_def Let_def)

lemma structure_event_accepted:
  assumes "z_uuid z u" and "z_datetime z n" and "actor \<noteq> []" and "d \<noteq> []" and "structure_payload_ok z p"
  shows "event_accepted z (host_registry z) (structure_event u n actor d p)"
proof -
  have "structure_event_type p \<noteq> []" by (cases p) (auto elim: phase_event_type.elims)
  with assms have "new_event_ok z (structure_event u n actor d p)"
    by (simp add: structure_event_def new_event_ok_def newChronicleEvent_def plain_input_def Let_def
        actor_ok_def scope_ok_def no_scope_def)
  with assms(5) host_registry_structure [OF structure_event_type_listed [of p], of z] show ?thesis
    by (simp add: event_accepted_def structure_schema_def)
qed

lemma STRUCTURE_STREAM_ID_nonempty [simp]: "STRUCTURE_STREAM_ID \<noteq> []"
  by (simp add: STRUCTURE_STREAM_ID_def)

lemma scan_append:
  "scan_structures z (es @ fs) m a = (case scan_structures z es m a of
     Inl e \<Rightarrow> Inl e | Inr (m', a') \<Rightarrow> scan_structures z fs m' a')"
proof (induction es arbitrary: m a)
  case (Cons e es)
  then show ?case by (auto split: payload.split structure_payload.split)
qed simp

lemma scan_keeps:
  "scan_structures z es m a = Inr (m', a') \<Longrightarrow> map_of m d \<noteq> None \<Longrightarrow> map_of m' d \<noteq> None"
  by (induction z es m a rule: scan_structures.induct)
     (auto split: if_splits payload.splits structure_payload.splits)

lemma scan_finds:
  "scan_structures z es m a = Inr (m', a') \<Longrightarrow> e \<in> set es \<Longrightarrow> is_resolved e \<Longrightarrow> recorded_digest z e = Some d \<Longrightarrow>
   map_of m' d \<noteq> None"
proof (induction z es m a rule: scan_structures.induct)
  case (2 z f es m a)
  show ?case
  proof (cases "e = f")
    case True
    with "2.prems"(3,4) obtain profile bundles s where p: "ev_payload f = StructureP (SResolvedP profile d bundles s)"
      "structure_payload_ok z (SResolvedP profile d bundles s)"
      by (auto simp: recorded_digest_def split: payload.splits structure_payload.splits if_splits)
    with "2.prems"(1,3) True have "scan_structures z es (jsmap_set d s m) a = Inr (m', a')" by simp
    from scan_keeps [OF this, of d] show ?thesis by simp
  next
    case False
    with "2.prems"(2) have "e \<in> set es" by simp
    with "2.IH" "2.prems" show ?thesis
      by (auto split: if_splits payload.splits structure_payload.splits)
  qed
qed simp

text \<open>Calls of the reconciler on the stream, and what they amount to.\<close>

datatype structure_op =
    ResolveOp env effective_structure
  | LifecycleOp env string string lifecycle_event

fun structure_step :: "zod \<Rightarrow> ('s, payload) chronicle_ops \<Rightarrow> structure_op \<Rightarrow> 's \<Rightarrow> 's" where
  "structure_step z ops (ResolveOp env structure) s = fst (appendResolvedStructure z ops env structure None s)"
| "structure_step z ops (LifecycleOp env name msg ev) s = fst (appendStructureLifecycleEvent ops env name msg ev s)"

fun structure_op_ok :: "zod \<Rightarrow> structure_op \<Rightarrow> bool" where
  "structure_op_ok z (ResolveOp env structure) \<longleftrightarrow> clock_ok z env \<and> z_uuid z (env_uuid env 0) \<and>
     structure_payload_ok z (resolved_payload structure)"
| "structure_op_ok z (LifecycleOp env name msg ev) \<longleftrightarrow> clock_ok z env \<and> z_uuid z (env_uuid env 0) \<and>
     structure_payload_ok z (lifecycle_payload name msg ev)"

definition structure_run :: "zod \<Rightarrow> ('s, payload) chronicle_ops \<Rightarrow> structure_op list \<Rightarrow> 's \<Rightarrow> 's" where
  "structure_run z ops ps s = fold (structure_step z ops) ps s"

fun activation :: "lifecycle_event \<Rightarrow> string option \<Rightarrow> string option" where
  "activation (GenerationActivated g v) a = Some v"
| "activation (GenerationUpdated g v) a = Some v"
| "activation ev a = a"

definition last_activation :: "lifecycle_event list \<Rightarrow> string option" where
  "last_activation evs = fold activation evs None"

fun op_lifecycle :: "structure_op \<Rightarrow> lifecycle_event list" where
  "op_lifecycle (ResolveOp env structure) = []"
| "op_lifecycle (LifecycleOp env name msg ev) = [ev]"

fun op_resolved :: "structure_op \<Rightarrow> string list" where
  "op_resolved (ResolveOp env structure) = [ef_digest structure]"
| "op_resolved (LifecycleOp env name msg ev) = []"

text \<open>The stream read so far: the digests it resolves, each by a structure that has it, and the active one.\<close>

definition stream_reads :: "zod \<Rightarrow> payload chronicle_event list \<Rightarrow> string set \<Rightarrow> string option \<Rightarrow> bool" where
  "stream_reads z es digests active \<longleftrightarrow> (\<exists>m. scan_structures z es [] None = Inr (m, active) \<and>
     digests = {d. map_of m d \<noteq> None} \<and>
     (\<forall>d s. map_of m d = Some s \<longrightarrow> ef_digest s = d \<and> effective_structure_ok s))"

lemma stream_reads_resolved:
  assumes "stream_reads z es D a" and "structure_payload_ok z (resolved_payload s)"
    and "ev_type e = ''structure.resolved''" and "ev_payload e = StructureP (resolved_payload s)"
  shows "stream_reads z (es @ [e]) (insert (ef_digest s) D) a"
  using assms by (auto simp: stream_reads_def scan_append is_resolved_def resolved_payload_def)

lemma stream_reads_lifecycle:
  assumes "stream_reads z es D a" and "structure_payload_ok z (lifecycle_payload name msg ev)"
    and "ev_type e = structure_event_type (lifecycle_payload name msg ev)"
    and "ev_payload e = StructureP (lifecycle_payload name msg ev)"
  shows "stream_reads z (es @ [e]) D (activation ev a)"
  using assms by (cases ev) (auto simp: stream_reads_def scan_append is_resolved_def)

lemma find_latest: "find is_resolved (rev es) = Some e \<Longrightarrow> e \<in> set es \<and> is_resolved e"
  by (metis find_Some_iff nth_mem set_rev)

context host_chronicle
begin

lemma append_accepted:
  assumes "inv s" and "z_datetime z now" and "sid \<noteq> []" and "event_accepted z (host_registry z) e"
    and "op_append ops now sid [e] (op_latest ops sid s + 1) s = (s', r)"
  shows "inv s' \<and> (\<exists>k. view s' = (view s)(sid := view s sid @ [stored_event sid k now e]))"
  using append_attempt [OF assms(1-3,5)] assms(4) by (cases r) auto

lemma structure_step_reads:
  assumes "inv s" and "structure_op_ok z p" and "stream_reads z (view s STRUCTURE_STREAM_ID) D a"
  shows "inv (structure_step z ops p s) \<and>
    stream_reads z (view (structure_step z ops p s) STRUCTURE_STREAM_ID) (set (op_resolved p) \<union> D)
      (fold activation (op_lifecycle p) a)"
proof (cases p)
  case (LifecycleOp env name msg ev)
  with assms(2) have env: "clock_ok z env" "z_uuid z (env_uuid env 0)"
    and ok: "structure_payload_ok z (lifecycle_payload name msg ev)" by simp_all
  have "lifecycle_version ev \<noteq> []" using ok by (cases ev) (auto simp: sha256_digest_def)
  then have acc: "event_accepted z (host_registry z) (structureLifecycleEvent (env_uuid env 0) (env_now env 0) name msg ev)"
    unfolding structureLifecycleEvent_def using env ok by (intro structure_event_accepted) simp_all
  obtain s' r where app: "appendStructureLifecycleEvent ops env name msg ev s = (s', r)" by fastforce
  from append_accepted [OF assms(1) clock_okD [OF env(1)] STRUCTURE_STREAM_ID_nonempty acc
      app [unfolded appendStructureLifecycleEvent_def]]
  obtain k where s': "inv s'" "view s' STRUCTURE_STREAM_ID = view s STRUCTURE_STREAM_ID @
      [stored_event STRUCTURE_STREAM_ID k (env_now env 1) (structureLifecycleEvent (env_uuid env 0) (env_now env 0) name msg ev)]"
    by auto
  with stream_reads_lifecycle [OF assms(3) ok] app LifecycleOp show ?thesis
    by (simp add: structureLifecycleEvent_def)
next
  case (ResolveOp env st)
  with assms(2) have env: "clock_ok z env" "z_uuid z (env_uuid env 0)"
    and ok: "structure_payload_ok z (resolved_payload st)" by simp_all
  let ?e = "structure_event (env_uuid env 0) (env_now env 0) ''host'' (ef_digest st) (resolved_payload st)"
  have "ef_digest st \<noteq> []" using ok by (auto simp: resolved_payload_def sha256_digest_def)
  then have acc: "event_accepted z (host_registry z) ?e" using env ok by (intro structure_event_accepted) simp_all
  have read: "readLatestResolved ops s = Inr (find is_resolved (rev (view s STRUCTURE_STREAM_ID)))"
    by (simp add: readLatestResolved_def read_all [OF assms(1)])
  let ?res = "appendResolvedStructure z ops env st None s"
  show ?thesis
  proof (cases "\<exists>e. find is_resolved (rev (view s STRUCTURE_STREAM_ID)) = Some e \<and>
      recorded_digest z e = Some (ef_digest st)")
    case True
    then obtain e where e: "find is_resolved (rev (view s STRUCTURE_STREAM_ID)) = Some e"
      "recorded_digest z e = Some (ef_digest st)" by blast
    then have "fst ?res = s" by (simp add: appendResolvedStructure_def read)
    moreover have "ef_digest st \<in> D"
      using assms(3) scan_finds [OF _ conjunct1 [OF find_latest [OF e(1)]] conjunct2 [OF find_latest [OF e(1)]] e(2)]
      by (auto simp: stream_reads_def)
    ultimately show ?thesis using assms(1,3) ResolveOp by (simp add: insert_absorb)
  next
    case False
    then have "?res = append_resolved_at z ops env st (op_latest ops STRUCTURE_STREAM_ID s + 1) s"
      by (auto simp: appendResolvedStructure_def read split: option.split)
    then have fst: "fst ?res = fst (op_append ops (env_now env 1) STRUCTURE_STREAM_ID [?e]
        (op_latest ops STRUCTURE_STREAM_ID s + 1) s)"
      using ok by (simp add: append_resolved_at_def structureResolvedEvent_def)
    obtain s' r where app: "op_append ops (env_now env 1) STRUCTURE_STREAM_ID [?e]
        (op_latest ops STRUCTURE_STREAM_ID s + 1) s = (s', r)" by fastforce
    from append_accepted [OF assms(1) clock_okD [OF env(1)] STRUCTURE_STREAM_ID_nonempty acc app]
    obtain k where "inv s'" "view s' STRUCTURE_STREAM_ID = view s STRUCTURE_STREAM_ID @
        [stored_event STRUCTURE_STREAM_ID k (env_now env 1) ?e]" by auto
    with stream_reads_resolved [OF assms(3) ok] fst app ResolveOp show ?thesis
      by (simp add: resolved_payload_def)
  qed
qed

lemma structure_run_reads:
  "inv s \<Longrightarrow> list_all (structure_op_ok z) ps \<Longrightarrow> stream_reads z (view s STRUCTURE_STREAM_ID) D a \<Longrightarrow>
   inv (structure_run z ops ps s) \<and> stream_reads z (view (structure_run z ops ps s) STRUCTURE_STREAM_ID)
     (set (concat (map op_resolved ps)) \<union> D) (fold activation (concat (map op_lifecycle ps)) a)"
proof (induction ps arbitrary: s D a)
  case (Cons p ps)
  from structure_step_reads [OF Cons.prems(1) _ Cons.prems(3), of p] Cons.prems(2)
  have "inv (structure_step z ops p s)" "stream_reads z (view (structure_step z ops p s) STRUCTURE_STREAM_ID)
      (set (op_resolved p) \<union> D) (fold activation (op_lifecycle p) a)" by simp_all
  from Cons.IH [OF this(1) _ this(2)] Cons.prems(2) show ?case
    by (simp add: structure_run_def Un_ac)
qed (simp add: structure_run_def)

lemma readActiveStructure_reads:
  assumes "inv s" and "stream_reads z (view s STRUCTURE_STREAM_ID) D a"
  shows "case a of None \<Rightarrow> readActiveStructure z ops s = Inr None
    | Some d \<Rightarrow> d \<in> D \<longrightarrow> (\<exists>structure. readActiveStructure z ops s = Inr (Some structure) \<and>
        ef_digest structure = d \<and> effective_structure_ok structure)"
  using assms(2) by (auto simp: stream_reads_def readActiveStructure_def read_all [OF assms(1)] split: option.split)

end

section \<open>The log knows the active generation\<close>

lemma last_activation_snoc [simp]: "last_activation (evs @ [ev]) = activation ev (last_activation evs)"
  by (simp add: last_activation_def)

definition events_follow :: "kernel \<Rightarrow> bool" where
  "events_follow k \<longleftrightarrow> last_activation (kn_events k) = map_option (\<lambda>a. version_of a k) (kn_active k)"

lemma version_of_heap: "kn_heap k = kn_heap k' \<Longrightarrow> version_of g k = version_of g k'"
  by (simp add: version_of_def)

lemma version_of_change:
  "kn_heap k' = kn_heap (kn_change h f k) \<Longrightarrow> (\<And>x. gn_structureVersion (f x) = gn_structureVersion x) \<Longrightarrow>
   version_of g k' = version_of g k"
  by (auto simp: version_of_def split: option.split)

text \<open>A step that keeps \<open>#active\<close> and all versions, and reports no activation.\<close>

lemma events_follow_quiet:
  assumes "events_follow k" and "kn_active k' = kn_active k"
    and "kn_heap k' = kn_heap k \<or> (\<exists>h f. kn_heap k' = kn_heap (kn_change h f k) \<and>
      (\<forall>x. gn_structureVersion (f x) = gn_structureVersion x))"
    and "kn_events k' = kn_events k \<or> (\<exists>ev. kn_events k' = kn_events k @ [ev] \<and> (\<forall>a. activation ev a = a))"
  shows "events_follow k'"
proof -
  have "version_of g k' = version_of g k" for g
    using assms(3) version_of_heap [of k' k g] version_of_change [of k' _ _ k g] by blast
  with assms(1,2,4) show ?thesis by (auto simp: events_follow_def)
qed

lemma events_follow_changed:
  assumes "events_follow k" and "kn_active k' = kn_active k" and "kn_heap k' = kn_heap (kn_change h f k)"
    and "\<And>x. gn_structureVersion (f x) = gn_structureVersion x"
    and "kn_events k' = kn_events k \<or> (\<exists>ev. kn_events k' = kn_events k @ [ev] \<and> (\<forall>a. activation ev a = a))"
  shows "events_follow k'"
  using assms by (intro events_follow_quiet [OF assms(1,2)]) blast+

lemma reconcile_failed_follows: "events_follow k \<Longrightarrow> events_follow (reconcile_failed d u k)"
  by (simp add: events_follow_def reconcile_failed_def kn_emit_def Let_def version_of_def)

lemma start_candidate_follows:
  assumes "events_follow k" and "kernel_inv k" and "map_of (kn_heap k) u = None"
  shows "events_follow (fst (start_candidate sha256 bootstrap u version plugins k))"
proof -
  have "version_of a (fst (start_candidate sha256 bootstrap u version plugins k)) = version_of a k"
    if "kn_active k = Some a" for a
    using kernel_invD(4) [OF assms(2) that] assms(3)
    by (auto simp: start_candidate_def version_of_def gen_in_state_def split: sum.split)
  then show ?thesis using assms(1)
    by (cases "kn_active k") (auto simp: events_follow_def start_candidate_def split: sum.split)
qed

lemma reconcile_begin_follows:
  assumes "events_follow k" and "kernel_inv k" and "map_of (kn_heap k) u = None"
  shows "events_follow (fst (reconcile_begin sha256 bootstrap u version plugins k))"
proof -
  have quiet: "events_follow (k\<lparr>kn_restart := r\<rparr>)" "events_follow (k\<lparr>kn_pc := pc\<rparr>)"
    "events_follow (kn_emit (RestartRequiredEvent a version ids) (k\<lparr>kn_restart := r\<rparr>))"
    "events_follow (kn_emit (GenerationFailedEvent a version) k)" for r pc a ids
    using assms(1) by (auto simp: events_follow_def kn_emit_def version_of_def)
  show ?thesis
    using start_candidate_follows [OF assms, of sha256 bootstrap version plugins] quiet assms(1)
    by (auto simp: reconcile_begin_def Let_def split: option.split sum.split)
qed

lemma kernel_do_follows:
  assumes "kernel_do sha256 bootstrap a k = Some k'" and "kernel_inv k" and "events_follow k"
  shows "events_follow k'"
proof (cases a)
  case (Reconcile u version plugins)
  with assms reconcile_begin_follows [OF assms(3,2)] show ?thesis by (auto split: if_splits)
next
  case (UpdateAnswered failed)
  with assms(1) obtain h v ps os where pc: "kn_pc k = AwaitUpdate h v ps os"
    by (auto simp: kn_update_answered_def split: reconcile_pc.splits)
  with kernel_invD(5) [OF assms(2)] have act: "kn_active k = Some h" by simp
  show ?thesis
  proof (cases failed)
    case None
    from kernel_invD(4) [OF assms(2) act] have "map_of (kn_heap k) h \<noteq> None"
      by (auto simp: gen_in_state_def split: option.splits)
    with None assms(1) UpdateAnswered pc act show ?thesis
      by (auto simp: kn_update_answered_def events_follow_def kn_emit_def version_of_def gn_updated_def)
  next
    case (Some only)
    with assms(1) UpdateAnswered pc
    have eqs: "kn_active k' = kn_active k" "kn_heap k' = kn_heap (kn_change h (gn_update_failed sha256 os only) k)"
      "kn_events k' = kn_events k @ [GenerationFailedEvent h v]"
      by (auto simp: kn_update_answered_def kn_emit_def)
    show ?thesis
    by (rule events_follow_changed [OF assms(3) eqs(1,2)]) (auto simp: eqs(3) gn_update_failed_def)
  qed
next
  case (MountAnswered outcome)
  with assms(1) obtain u p ps where "kn_pc k = AwaitMount u (p # ps)"
    by (auto simp: kn_mount_answered_def split: reconcile_pc.splits list.splits)
  with assms(1) MountAnswered have eqs: "kn_active k' = kn_active k" "kn_heap k' = kn_heap (kn_change u (gn_mount outcome p) k)"
    "kn_events k' = kn_events k" by (auto simp: kn_mount_answered_def)
  show ?thesis
    by (rule events_follow_changed [OF assms(3) eqs(1,2)]) (auto simp: eqs(3) gn_mount_def split: mount_outcome.split)
next
  case (FailedDisposeAwaited d)
  with assms(1) obtain u where "k' = reconcile_failed d u k"
    by (auto simp: kn_failed_dispose_awaited_def split: reconcile_pc.splits if_splits)
  with reconcile_failed_follows [OF assms(3)] show ?thesis by simp
next
  case PrepareDone
  with assms(1) show ?thesis
    by (intro events_follow_quiet [OF assms(3)])
       (auto simp: kn_prepare_done_def kn_emit_def split: reconcile_pc.splits list.splits)
next
  case (PreparedDelivered ok d)
  with assms(1) obtain u where pc: "kn_pc k = AwaitPrepared u"
    by (auto simp: kn_prepared_delivered_def split: reconcile_pc.splits)
  with kernel_invD(5) [OF assms(2)] have u: "gen_in_state Preparing u k" by simp
  show ?thesis
  proof (cases ok)
    case False
    with assms(1) PreparedDelivered pc reconcile_failed_follows [OF assms(3)] show ?thesis
      by (auto simp: kn_prepared_delivered_def)
  next
    case True
    with assms(1) PreparedDelivered pc u show ?thesis
      by (auto simp: kn_prepared_delivered_def events_follow_def kn_emit_def version_of_def gen_in_state_def
          split: option.splits)
  qed
next
  case (ActivatedDelivered ok d)
  with assms(1) obtain u q where pc: "kn_pc k = AwaitActivated u q"
    by (auto simp: kn_activated_delivered_def split: reconcile_pc.splits)
  show ?thesis
  proof (cases ok)
    case False
    with assms(1) ActivatedDelivered pc reconcile_failed_follows [OF assms(3)] show ?thesis
      by (auto simp: kn_activated_delivered_def)
  next
    case True
    with assms(1) ActivatedDelivered pc show ?thesis
      by (intro events_follow_quiet [OF assms(3)]) (auto simp: kn_activated_delivered_def kn_emit_def split: option.splits)
  qed
next
  case (DrainingDelivered ok d)
  with assms(1) obtain u p where pc: "kn_pc k = AwaitDraining u p"
    by (auto simp: kn_draining_delivered_def split: reconcile_pc.splits)
  show ?thesis
  proof (cases ok)
    case False
    with assms(1) DrainingDelivered pc reconcile_failed_follows [OF assms(3)] show ?thesis
      by (auto simp: kn_draining_delivered_def)
  next
    case True
    with assms(1) DrainingDelivered pc have eqs: "kn_active k' = kn_active k" "kn_heap k' = kn_heap (kn_change p gn_drain k)"
      "kn_events k' = kn_events k" by (auto simp: kn_draining_delivered_def)
    show ?thesis
    by (rule events_follow_changed [OF assms(3) eqs(1,2)]) (auto simp: eqs(3) gn_drain_def Let_def)
  qed
next
  case (DisposeDone g failures)
  with assms(1) obtain v where eqs: "kn_active k' = kn_active k" "kn_heap k' = kn_heap (kn_change g (gn_dispose failures) k)"
    "kn_events k' = kn_events k @ [GenerationDisposed g v]"
    by (auto simp: kn_dispose_done_def kn_emit_def split: option.splits if_splits)
  show ?thesis
    by (rule events_follow_changed [OF assms(3) eqs(1,2)]) (auto simp: eqs(3) gn_dispose_def)
next
  case BeginTurn
  then show ?thesis using assms(1,3)
    by (auto simp: beginTurn_def bind_eq_Some_conv gn_acquire_def events_follow_def version_of_def
        split: option.splits sum.splits if_splits)
next
  case (ReleaseLease l)
  have "gn_structureVersion (gn_release x) = gn_structureVersion x" for x by (simp add: gn_release_def Let_def)
  then have "version_of a (release_lease l k) = version_of a k" for a
    by (auto simp: release_lease_def version_of_def split: prod.split bool.split option.split)
  moreover have "kn_active (release_lease l k) = kn_active k" "kn_events (release_lease l k) = kn_events k"
    by (auto simp: release_lease_def split: prod.split bool.split)
  ultimately show ?thesis using assms(1,3) ReleaseLease by (simp add: events_follow_def)
qed

lemma kernel_reaches_follows:
  "kernel_reaches sha256 bootstrap k k' \<Longrightarrow> kernel_inv k \<Longrightarrow> events_follow k \<Longrightarrow> events_follow k'"
proof (induction rule: kernel_reaches.induct)
  case (more k k' k'')
  from more.hyps(2) obtain a where "kernel_do sha256 bootstrap a k' = Some k''" by (auto elim: kernel_stepE)
  with kernel_do_follows kernel_reaches_inv [OF more.hyps(1) more.prems(1)] more.IH [OF more.prems] show ?case by blast
qed

text \<open>
  C13: A restart finds the structure of the active generation. Let the reconciler have logged,
  on a new SQLite Chronicle, every lifecycle event that the kernel reported, in order, between
  any number of resolved structures, among them that of the active generation. Then what
  \<open>readActiveStructure\<close> reads is a well-formed structure whose digest is the structure version
  of the generation that is active now.
\<close>

theorem restart_finds_active_structure:
  assumes "kernel_reaches sha256 bootstrap kernel_new k" and "kn_active k = Some a"
    and "list_all (structure_op_ok z) ps" and "concat (map op_lifecycle ps) = kn_events k"
    and "version_of a k \<in> set (concat (map op_resolved ps))"
  shows "\<exists>s. readActiveStructure z (host_sqlite z) (structure_run z (host_sqlite z) ps sqlite_new) = Inr (Some s) \<and>
    ef_digest s = version_of a k \<and> effective_structure_ok s"
proof -
  have "events_follow kernel_new" by (simp add: events_follow_def kernel_new_def last_activation_def)
  from kernel_reaches_follows [OF assms(1) kernel_new_inv this] assms(2,4)
  have act: "fold activation (concat (map op_lifecycle ps)) None = Some (version_of a k)"
    by (simp add: events_follow_def last_activation_def)
  have new: "stream_reads z (sqlite_view sqlite_new STRUCTURE_STREAM_ID) {} None"
    by (simp add: stream_reads_def sqlite_new_view)
  from sqlite_host.structure_run_reads [OF sqlite_new_inv assms(3) new, unfolded act]
  have inv: "sqlite_inv z (host_registry z) (structure_run z (host_sqlite z) ps sqlite_new)"
    and reads: "stream_reads z (sqlite_view (structure_run z (host_sqlite z) ps sqlite_new) STRUCTURE_STREAM_ID)
      (set (concat (map op_resolved ps)) \<union> {}) (Some (version_of a k))" by blast+
  from sqlite_host.readActiveStructure_reads [OF inv reads] assms(5) show ?thesis by simp
qed

text \<open>A first generation, with a structure version of a digest's form, and the log of its activation.\<close>

definition sample_digest :: string where
  "sample_digest = ''sha256:'' @ replicate 64 CHR ''0''"

definition sample_resolved :: effective_structure where
  "sample_resolved = sample_effective\<lparr>ef_profileId := BEE_PROFILE_ID, ef_digest := sample_digest\<rparr>"

definition sample_boot :: "kernel_action list" where
  "sample_boot = [Reconcile ''g1'' sample_digest [sample_plugin ''b'' [] [] 1], MountAnswered Mounted,
     PrepareDone, PreparedDelivered True True, ActivatedDelivered True True]"

definition sample_log :: "structure_op list" where
  "sample_log = (let env = iso_env ''u'' midnight in
     [ResolveOp env sample_resolved, LifecycleOp env ''Error'' ''boom'' (GenerationPrepared ''g1'' sample_digest),
      LifecycleOp env ''Error'' ''boom'' (GenerationActivated ''g1'' sample_digest)])"

lemma restart_finds_active_structure_witness:
  "\<exists>s. readActiveStructure iso_zod (host_sqlite iso_zod)
      (structure_run iso_zod (host_sqlite iso_zod) sample_log sqlite_new) = Inr (Some s) \<and> ef_digest s = sample_digest"
proof -
  have *: "case kernel_run id [] sample_boot kernel_new of None \<Rightarrow> False
     | Some k \<Rightarrow> kn_active k = Some ''g1'' \<and> version_of ''g1'' k = sample_digest \<and>
         kn_events k = concat (map op_lifecycle sample_log)" by code_simp
  then obtain k where k: "kernel_run id [] sample_boot kernel_new = Some k"
    by (cases "kernel_run id [] sample_boot kernel_new") auto
  have clock: "clock_ok iso_zod (iso_env ''u'' midnight)" by (simp add: clock_ok_def iso_zod_def iso_env_def del: not_None_eq)
  have payloads: "list_all (structure_payload_ok iso_zod) [resolved_payload sample_resolved,
      SPhaseP PhasePrepared ''g1'' sample_digest, SPhaseP PhaseActivated ''g1'' sample_digest]" by code_simp
  have ok: "list_all (structure_op_ok iso_zod) sample_log"
    using clock payloads by (simp add: sample_log_def Let_def) (simp add: iso_zod_def iso_env_def)
  from * k have a: "kn_active k = Some ''g1''" "version_of ''g1'' k = sample_digest"
    "concat (map op_lifecycle sample_log) = kn_events k" by simp_all
  have "version_of ''g1'' k \<in> set (concat (map op_resolved sample_log))"
    unfolding a by (simp add: sample_log_def Let_def sample_resolved_def)
  from restart_finds_active_structure [OF kernel_run_reaches [OF k here] a(1) ok a(3) this]
  show ?thesis unfolding a(2) by (elim exE conjE) (rule exI, rule conjI)
qed

end
