(* ===== verification/WorldStore.thy ===== *)
theory WorldStore
  imports HostChronicle CanonicalJson Samples
begin

text \<open>
  The world projection (\<open>packages/knowledge/src/world.ts\<close>): entities and relations in memory,
  the \<open>world\<close> stream with a digest of the whole state after every record, and the rebuild that
  checks the digests. SHA-256 is the parameter \<open>sha256\<close>, \<open>localeCompare\<close> the parameter \<open>lc\<close>.
  The flag \<open>#skipDigestChecks\<close> is left out: its only reader cannot be reached.
\<close>

section \<open>Entities\<close>

text \<open>\<open>{ ...a, ...b }\<close>.\<close>

definition spread :: "('k, 'v) jsmap \<Rightarrow> ('k, 'v) jsmap \<Rightarrow> ('k, 'v) jsmap" where
  "spread a b = fold (\<lambda>(k, v). jsmap_set k v) b a"

definition mergeEntity :: "zod \<Rightarrow> world_entity option \<Rightarrow> new_world_entity \<Rightarrow> string \<Rightarrow> world_entity option" where
  "mergeEntity z existing i seenAt =
     (let attributes = coalesce (ne_attributes i) [];
        e = (case existing of
            None \<Rightarrow> \<lparr>en_id = ne_id i, en_kind = ne_kind i, en_subtype = ne_subtype i,
              en_attributes = spread [] attributes, en_firstSeenAt = seenAt, en_lastSeenAt = seenAt\<rparr>
          | Some x \<Rightarrow> x\<lparr>en_lastSeenAt := seenAt, en_attributes := spread (en_attributes x) attributes\<rparr>)
      in if entity_ok z e then Some e else None)"

section \<open>The digest of the world\<close>

fun attribute_json :: "world_attribute \<Rightarrow> json" where
  "attribute_json (AStr s) = JStr s"
| "attribute_json (ANum n) = JNum n"
| "attribute_json (ABool b) = JBool b"
| "attribute_json ANull = JNull"

fun entity_kind_text :: "world_entity_kind \<Rightarrow> string" where
  "entity_kind_text ActorEntity = ''actor''"
| "entity_kind_text ResourceEntity = ''resource''"
| "entity_kind_text CapabilityEntity = ''capability''"
| "entity_kind_text LocationEntity = ''location''"

fun relation_type_text :: "world_relation_type \<Rightarrow> string" where
  "relation_type_text Owns = ''owns''"
| "relation_type_text DependsOn = ''depends_on''"
| "relation_type_text Contains = ''contains''"
| "relation_type_text ConnectedTo = ''connected_to''"
| "relation_type_text AuthorizedFor = ''authorized_for''"
| "relation_type_text ProducedBy = ''produced_by''"
| "relation_type_text Used = ''used''"

text \<open>A member whose value is \<open>undefined\<close> is absent from a parsed object.\<close>

definition optional_member :: "string \<Rightarrow> string option \<Rightarrow> (string \<times> json) list" where
  "optional_member k v = (case v of None \<Rightarrow> [] | Some s \<Rightarrow> [(k, JStr s)])"

definition entity_json :: "(string \<Rightarrow> string \<Rightarrow> int) \<Rightarrow> world_entity \<Rightarrow> json" where
  "entity_json lc e = JObj ([(''id'', JStr (en_id e)), (''kind'', JStr (entity_kind_text (en_kind e)))] @
     optional_member ''subtype'' (en_subtype e) @
     [(''attributes'', JObj (map (map_prod id attribute_json)
        (js_sort (\<lambda>a b. lc (fst a) (fst b)) (en_attributes e)))),
      (''firstSeenAt'', JStr (en_firstSeenAt e)), (''lastSeenAt'', JStr (en_lastSeenAt e))])"

definition relation_json :: "world_relation \<Rightarrow> json" where
  "relation_json r = JObj [(''id'', JStr (wl_id r)), (''type'', JStr (relation_type_text (wl_type r))),
     (''fromEntityId'', JStr (wl_fromEntityId r)), (''toEntityId'', JStr (wl_toEntityId r)),
     (''provenance'', JObj ([(''streamId'', JStr (pv_streamId (wl_provenance r))),
        (''sequence'', JNum (pv_sequence (wl_provenance r)))] @
        optional_member ''threadId'' (pv_threadId (wl_provenance r)) @
        optional_member ''turnId'' (pv_turnId (wl_provenance r)) @
        optional_member ''itemId'' (pv_itemId (wl_provenance r)))),
     (''validTime'', JObj ((''from'', JStr (vt_from (wl_validTime r))) # optional_member ''to'' (vt_to (wl_validTime r)))),
     (''recordedAt'', JStr (wl_recordedAt r))]"

definition computeWorldDigest :: "(string \<Rightarrow> string) \<Rightarrow> (string \<Rightarrow> string \<Rightarrow> int) \<Rightarrow>
    (string, world_entity) jsmap \<Rightarrow> (string, world_relation) jsmap \<Rightarrow> string" where
  "computeWorldDigest sha256 lc entities relations =
     ''sha256:'' @ sha256 (canonicalJson (JObj
       [(''entities'', JArr (map (entity_json lc) (js_sort (\<lambda>a b. lc (en_id a) (en_id b)) (jsmap_values entities)))),
        (''relations'', JArr (map relation_json (js_sort (\<lambda>a b. lc (wl_id a) (wl_id b)) (jsmap_values relations))))]))"

section \<open>Events\<close>

definition WORLD_ACTOR :: chronicle_actor where
  "WORLD_ACTOR = \<lparr>actor_type = AgentActor, actor_id = ''bee''\<rparr>"

text \<open>The three builders. Only the payload of the version event is parsed.\<close>

definition world_event :: "string \<Rightarrow> string \<Rightarrow> chronicle_scope \<Rightarrow> world_payload \<Rightarrow> payload new_event" where
  "world_event uuid now scope p =
     newChronicleEvent uuid now (plain_input (world_event_type p) WORLD_ACTOR scope (WorldP p))"

definition worldEntityRecordedEvent :: "string \<Rightarrow> string \<Rightarrow> world_entity \<Rightarrow> payload new_event" where
  "worldEntityRecordedEvent uuid now e = world_event uuid now no_scope (WEntityP e)"

definition worldRelationProjectedEvent :: "string \<Rightarrow> string \<Rightarrow> world_relation \<Rightarrow> payload new_event" where
  "worldRelationProjectedEvent uuid now r =
     world_event uuid now (no_scope\<lparr>sc_thread := pv_threadId (wl_provenance r), sc_turn := pv_turnId (wl_provenance r)\<rparr>)
       (WRelationP r)"

definition worldVersionBumpedEvent :: "zod \<Rightarrow> string \<Rightarrow> string \<Rightarrow> world_version \<Rightarrow> payload new_event option" where
  "worldVersionBumpedEvent z uuid now v =
     (if version_ok z v then Some (world_event uuid now no_scope (WVersionP v)) else None)"

section \<open>The store\<close>

record 's world_store =
  ws_store :: 's
  ws_entities :: "(string, world_entity) jsmap"
  ws_relations :: "(string, world_relation) jsmap"
  ws_version :: int
  ws_digest :: string
  ws_driftNotice :: "(int \<times> int) option"

datatype world_error =
    WorldInputRejected
  | WorldStoreError chronicle_error
  | WorldVersionDrift int string string
  | UnknownWorldEventType string
  | WorldEventMalformed

record world_model_snapshot =
  wn_version :: int
  wn_digest :: string
  wn_entities :: "world_entity list"
  wn_relations :: "world_relation list"

definition ws_new :: "(string \<Rightarrow> string) \<Rightarrow> (string \<Rightarrow> string \<Rightarrow> int) \<Rightarrow> 's \<Rightarrow> 's world_store" where
  "ws_new sha256 lc s = \<lparr>ws_store = s, ws_entities = [], ws_relations = [], ws_version = 0,
     ws_digest = computeWorldDigest sha256 lc [] [], ws_driftNotice = None\<rparr>"

definition ws_computeDigest :: "(string \<Rightarrow> string) \<Rightarrow> (string \<Rightarrow> string \<Rightarrow> int) \<Rightarrow> 's world_store \<Rightarrow> string" where
  "ws_computeDigest sha256 lc w = computeWorldDigest sha256 lc (ws_entities w) (ws_relations w)"

definition ws_snapshot :: "(string \<Rightarrow> string \<Rightarrow> int) \<Rightarrow> 's world_store \<Rightarrow> world_model_snapshot" where
  "ws_snapshot lc w = \<lparr>wn_version = ws_version w, wn_digest = ws_digest w,
     wn_entities = js_sort (\<lambda>a b. lc (en_id a) (en_id b)) (jsmap_values (ws_entities w)),
     wn_relations = js_sort (\<lambda>a b. lc (wl_id a) (wl_id b)) (jsmap_values (ws_relations w))\<rparr>"

definition ws_entity :: "string \<Rightarrow> 's world_store \<Rightarrow> world_entity option" where
  "ws_entity i w = map_of (ws_entities w) i"

definition ws_entities_of :: "(string \<Rightarrow> string \<Rightarrow> int) \<Rightarrow> world_entity_kind option \<Rightarrow> 's world_store \<Rightarrow> world_entity list" where
  "ws_entities_of lc kind w = filter (\<lambda>e. kind = None \<or> kind = Some (en_kind e)) (wn_entities (ws_snapshot lc w))"

definition ws_relationsOf :: "(string \<Rightarrow> string \<Rightarrow> int) \<Rightarrow> string \<Rightarrow> world_relation_type option \<Rightarrow>
    's world_store \<Rightarrow> world_relation list" where
  "ws_relationsOf lc i kind w = filter (\<lambda>r. (wl_fromEntityId r = i \<or> wl_toEntityId r = i) \<and>
     (kind = None \<or> kind = Some (wl_type r))) (wn_relations (ws_snapshot lc w))"

text \<open>\<open>#append\<close>: at the tail, again from the new tail after a conflict, twice at most.\<close>

primrec append_tail :: "('s, payload) chronicle_ops \<Rightarrow> env \<Rightarrow> nat \<Rightarrow> nat \<Rightarrow> payload new_event list \<Rightarrow> 's \<Rightarrow>
    's \<times> chronicle_error option" where
  "append_tail ops env n 0 evs s =
     (case op_append ops (env_now env n) WORLD_STREAM_ID evs (op_latest ops WORLD_STREAM_ID s + 1) s of
        (s', Inl err) \<Rightarrow> (s', Some err) | (s', Inr _) \<Rightarrow> (s', None))"
| "append_tail ops env n (Suc k) evs s =
     (case op_append ops (env_now env n) WORLD_STREAM_ID evs (op_latest ops WORLD_STREAM_ID s + 1) s of
        (s', Inr _) \<Rightarrow> (s', None)
      | (s', Inl (ChronicleSequenceConflict sid a b)) \<Rightarrow> append_tail ops env (Suc n) k evs s'
      | (s', Inl err) \<Rightarrow> (s', Some err))"

definition world_append :: "('s, payload) chronicle_ops \<Rightarrow> env \<Rightarrow> nat \<Rightarrow> payload new_event list \<Rightarrow> 's \<Rightarrow>
    's \<times> chronicle_error option" where
  "world_append ops env n evs s = (if evs = [] then (s, None) else append_tail ops env n 2 evs s)"

section \<open>record\<close>

fun record_entities :: "zod \<Rightarrow> string \<Rightarrow> new_world_entity list \<Rightarrow> (string, world_entity) jsmap \<Rightarrow>
    (string, world_entity) jsmap option" where
  "record_entities z now [] m = Some m"
| "record_entities z now (i # is) m =
     (case mergeEntity z (map_of m (ne_id i)) i (coalesce (ne_seenAt i) now) of
        None \<Rightarrow> None
      | Some e \<Rightarrow> record_entities z now is (jsmap_set (ne_id i) e m))"

text \<open>\<open>n\<close> random ids have been drawn; a relation without an id draws the next.\<close>

definition relation_of :: "string \<Rightarrow> string \<Rightarrow> new_world_relation \<Rightarrow> world_relation" where
  "relation_of now rid i = \<lparr>wl_id = rid, wl_type = nl_type i, wl_fromEntityId = nl_fromEntityId i,
     wl_toEntityId = nl_toEntityId i, wl_provenance = nl_provenance i,
     wl_validTime = coalesce (nl_validTime i) \<lparr>vt_from = coalesce (nl_recordedAt i) now, vt_to = None\<rparr>,
     wl_recordedAt = coalesce (nl_recordedAt i) now\<rparr>"

fun record_relations :: "zod \<Rightarrow> env \<Rightarrow> string \<Rightarrow> nat \<Rightarrow> new_world_relation list \<Rightarrow> string list \<Rightarrow>
    (string, world_relation) jsmap \<Rightarrow> (nat \<times> string list \<times> (string, world_relation) jsmap) option" where
  "record_relations z env now n [] ids m = Some (n, ids, m)"
| "record_relations z env now n (i # is) ids m =
     (let rid = coalesce (nl_id i) (env_uuid env n);
        n' = (if nl_id i = None then Suc n else n);
        r = relation_of now rid i
      in if relation_ok z r then record_relations z env now n' is (ids @ [rid]) (jsmap_set rid r m) else None)"

text \<open>The batch: an event per input, with its final form, then the version.\<close>

definition number_from :: "nat \<Rightarrow> 'a list \<Rightarrow> (nat \<times> 'a) list" where
  "number_from n xs = zip [n..<n + length xs] xs"

definition record_payloads :: "new_world_entity list \<Rightarrow> string list \<Rightarrow> (string, world_entity) jsmap \<Rightarrow>
    (string, world_relation) jsmap \<Rightarrow> world_payload list" where
  "record_payloads entities ids nextEntities nextRelations =
     map (\<lambda>i. WEntityP (the (map_of nextEntities (ne_id i)))) entities @
     map (\<lambda>i. WRelationP (the (map_of nextRelations i))) ids"

fun payload_event :: "string \<Rightarrow> string \<Rightarrow> world_payload \<Rightarrow> payload new_event" where
  "payload_event uuid now (WEntityP e) = worldEntityRecordedEvent uuid now e"
| "payload_event uuid now (WRelationP r) = worldRelationProjectedEvent uuid now r"
| "payload_event uuid now (WVersionP v) = world_event uuid now no_scope (WVersionP v)"

definition record_events :: "env \<Rightarrow> nat \<Rightarrow> world_payload list \<Rightarrow> payload new_event list" where
  "record_events env n ps = map (\<lambda>(k, p). payload_event (env_uuid env (n + k)) (env_now env (1 + k)) p) (number_from 0 ps)"

definition ws_record :: "zod \<Rightarrow> (string \<Rightarrow> string) \<Rightarrow> (string \<Rightarrow> string \<Rightarrow> int) \<Rightarrow> ('s, payload) chronicle_ops \<Rightarrow>
    env \<Rightarrow> world_projection \<Rightarrow> 's world_store \<Rightarrow> 's world_store \<times> (world_error + world_model_snapshot)" where
  "ws_record z sha256 lc ops env input w =
     (let now = env_now env 0; entities = coalesce (wp_entities input) []; relations = coalesce (wp_relations input) []
      in if entities = [] \<and> relations = [] then (w, Inr (ws_snapshot lc w))
         else case record_entities z now entities (ws_entities w) of
           None \<Rightarrow> (w, Inl WorldInputRejected)
         | Some nextEntities \<Rightarrow>
             (case record_relations z env now 0 relations [] (ws_relations w) of
                None \<Rightarrow> (w, Inl WorldInputRejected)
              | Some (n, ids, nextRelations) \<Rightarrow>
                  let digest = computeWorldDigest sha256 lc nextEntities nextRelations;
                    payloads = record_payloads entities ids nextEntities nextRelations; k = length payloads
                  in (case worldVersionBumpedEvent z (env_uuid env (n + k)) (env_now env (1 + k))
                         \<lparr>wv_version = ws_version w + 1, wv_digest = digest, wv_at = now\<rparr> of
                        None \<Rightarrow> (w, Inl WorldInputRejected)
                      | Some bump \<Rightarrow>
                          (case world_append ops env (2 + k) (record_events env n payloads @ [bump]) (ws_store w) of
                             (s', Some err) \<Rightarrow> (w\<lparr>ws_store := s'\<rparr>, Inl (WorldStoreError err))
                           | (s', None) \<Rightarrow>
                               let w' = w\<lparr>ws_store := s', ws_entities := nextEntities, ws_relations := nextRelations,
                                   ws_version := ws_version w + 1, ws_digest := digest\<rparr>
                               in (w', Inr (ws_snapshot lc w'))))))"

section \<open>rebuild\<close>

datatype drift_policy = FailOnDrift | RebaseOnDrift

text \<open>\<open>#fold\<close> of an event that is not a version; the version and the digest are checked by the loop.\<close>

definition fold_world :: "zod \<Rightarrow> payload chronicle_event \<Rightarrow> 's world_store \<Rightarrow> world_error + 's world_store" where
  "fold_world z e w =
     (if ev_type e = ''world.entity.recorded'' then
        (case ev_payload e of
           WorldP (WEntityP x) \<Rightarrow>
             (case mergeEntity z (map_of (ws_entities w) (en_id x))
                 \<lparr>ne_id = en_id x, ne_kind = en_kind x, ne_subtype = en_subtype x,
                  ne_attributes = Some (en_attributes x), ne_seenAt = Some (en_lastSeenAt x)\<rparr> (en_lastSeenAt x) of
                None \<Rightarrow> Inl WorldInputRejected
              | Some m \<Rightarrow> Inr (w\<lparr>ws_entities := jsmap_set (en_id x) m (ws_entities w)\<rparr>))
         | _ \<Rightarrow> Inl WorldEventMalformed)
      else if ev_type e = ''world.relation.projected'' then
        (case ev_payload e of
           WorldP (WRelationP r) \<Rightarrow> Inr (w\<lparr>ws_relations := jsmap_set (wl_id r) r (ws_relations w)\<rparr>)
         | _ \<Rightarrow> Inl WorldEventMalformed)
      else Inl (UnknownWorldEventType (ev_type e)))"

text \<open>The local variables of \<open>rebuild\<close> beside the store's fields.\<close>

record 's rebuilding =
  rb_world :: "'s world_store"
  rb_driftedAt :: "int option"
  rb_lastBump :: "string option"
  rb_pendingBad :: "(int \<times> string) option"

definition rebuild_bump :: "zod \<Rightarrow> (string \<Rightarrow> string) \<Rightarrow> (string \<Rightarrow> string \<Rightarrow> int) \<Rightarrow> drift_policy \<Rightarrow>
    payload chronicle_event \<Rightarrow> 's rebuilding \<Rightarrow> 's rebuilding \<times> world_error option" where
  "rebuild_bump z sha256 lc policy e rb =
     (case ev_payload e of
        WorldP (WVersionP bump) \<Rightarrow>
          if \<not> version_ok z bump then (rb, Some WorldEventMalformed)
          else let rb1 = rb\<lparr>rb_lastBump := Some (wv_digest bump)\<rparr>;
              w = rb_world rb1; actual = ws_computeDigest sha256 lc w
            in if actual = wv_digest bump
               then (rb1\<lparr>rb_world := w\<lparr>ws_version := wv_version bump, ws_digest := wv_digest bump\<rparr>, rb_pendingBad := None\<rparr>, None)
               else (case rb_pendingBad rb1 of
                  None \<Rightarrow> (rb1\<lparr>rb_pendingBad := Some (wv_version bump, wv_digest bump)\<rparr>, None)
                | Some (version, expected) \<Rightarrow>
                    if policy = FailOnDrift then (rb1, Some (WorldVersionDrift version expected actual))
                    else (rb1\<lparr>rb_driftedAt := Some version,
                      rb_world := w\<lparr>ws_version := max (ws_version w) (wv_version bump)\<rparr>, rb_pendingBad := None\<rparr>, None))
      | _ \<Rightarrow> (rb, Some WorldEventMalformed))"

fun rebuild_loop :: "zod \<Rightarrow> (string \<Rightarrow> string) \<Rightarrow> (string \<Rightarrow> string \<Rightarrow> int) \<Rightarrow> drift_policy \<Rightarrow>
    payload chronicle_event list \<Rightarrow> 's rebuilding \<Rightarrow> 's rebuilding \<times> world_error option" where
  "rebuild_loop z sha256 lc policy [] rb = (rb, None)"
| "rebuild_loop z sha256 lc policy (e # es) rb =
     (if ev_type e = ''world.version.bumped'' then
        (case rebuild_bump z sha256 lc policy e rb of
           (rb', Some err) \<Rightarrow> (rb', Some err)
         | (rb', None) \<Rightarrow> rebuild_loop z sha256 lc policy es rb')
      else case fold_world z e (rb_world rb) of
        Inl err \<Rightarrow> (rb, Some err)
      | Inr w \<Rightarrow> rebuild_loop z sha256 lc policy es (rb\<lparr>rb_world := w\<rparr>))"

text \<open>What follows the loop: a trailing mismatch, and the corrective version.\<close>

definition rebuild_settle :: "zod \<Rightarrow> (string \<Rightarrow> string) \<Rightarrow> (string \<Rightarrow> string \<Rightarrow> int) \<Rightarrow> ('s, payload) chronicle_ops \<Rightarrow>
    env \<Rightarrow> drift_policy \<Rightarrow> 's rebuilding \<Rightarrow> 's world_store \<times> world_error option" where
  "rebuild_settle z sha256 lc ops env policy rb =
     (let w = rb_world rb; actual = ws_computeDigest sha256 lc w
      in case (if rb_pendingBad rb = None then rb_driftedAt rb else map_option fst (rb_pendingBad rb)) of
           None \<Rightarrow> (w, None)
         | Some driftedAt \<Rightarrow>
             if policy = FailOnDrift \<and> rb_pendingBad rb \<noteq> None
             then (w, Some (WorldVersionDrift driftedAt (coalesce (map_option snd (rb_pendingBad rb)) []) actual))
             else if rb_lastBump rb \<noteq> Some actual then
               (let corrective = max (max (ws_version w) (driftedAt + 1)) (coalesce (map_option fst (rb_pendingBad rb)) 0) + 1
                in case worldVersionBumpedEvent z (env_uuid env 0) (env_now env 1)
                      \<lparr>wv_version = corrective, wv_digest = actual, wv_at = env_now env 0\<rparr> of
                     None \<Rightarrow> (w, Some WorldInputRejected)
                   | Some bump \<Rightarrow>
                       (case world_append ops env 2 [bump] (ws_store w) of
                          (s', Some err) \<Rightarrow> (w\<lparr>ws_store := s'\<rparr>, Some (WorldStoreError err))
                        | (s', None) \<Rightarrow> (w\<lparr>ws_store := s', ws_version := corrective, ws_digest := actual,
                            ws_driftNotice := Some (driftedAt, corrective)\<rparr>, None)))
             else (w\<lparr>ws_digest := actual, ws_driftNotice := Some (driftedAt, ws_version w)\<rparr>, None))"

definition ws_rebuild :: "zod \<Rightarrow> (string \<Rightarrow> string) \<Rightarrow> (string \<Rightarrow> string \<Rightarrow> int) \<Rightarrow> ('s, payload) chronicle_ops \<Rightarrow>
    env \<Rightarrow> drift_policy \<Rightarrow> 's world_store \<Rightarrow> 's world_store \<times> world_error option" where
  "ws_rebuild z sha256 lc ops env policy w =
     (let cleared = (ws_new sha256 lc (ws_store w))\<lparr>ws_driftNotice := ws_driftNotice w\<rparr>;
        start = \<lparr>rb_world = cleared, rb_driftedAt = None, rb_lastBump = None, rb_pendingBad = None\<rparr>
      in case op_read ops WORLD_STREAM_ID 0 (ws_store w) of
           (es, err) \<Rightarrow>
             (case rebuild_loop z sha256 lc policy es start of
                (rb, Some e) \<Rightarrow> (rb_world rb, Some e)
              | (rb, None) \<Rightarrow>
                  (case err of
                     Some e \<Rightarrow> (rb_world rb, Some (WorldStoreError e))
                   | None \<Rightarrow> rebuild_settle z sha256 lc ops env policy rb)))"

section \<open>Merging twice is merging once\<close>

lemma update_append: "k \<notin> fst ` set ys \<Longrightarrow> jsmap_set k v (ys @ zs) = ys @ jsmap_set k v zs"
  by (induction ys) auto

lemma spread_onto:
  "distinct (map fst (ys @ m)) \<Longrightarrow> prefix (map fst a) (map fst m) \<Longrightarrow> spread (ys @ a) m = ys @ m"
proof (induction m arbitrary: ys a)
  case (Cons x m)
  obtain k v where x: "x = (k, v)" by fastforce
  with Cons.prems have k: "k \<notin> fst ` set ys" by auto
  have "jsmap_set k v (ys @ a) = (ys @ [x]) @ tl a"
    using Cons.prems(2) x update_append [OF k, of v "[]"]
    by (cases a) (auto simp: update_append [OF k])
  moreover have "prefix (map fst (tl a)) (map fst m)" using Cons.prems(2) by (cases a) auto
  ultimately show ?case
    using Cons.IH [of "ys @ [x]" "tl a"] Cons.prems(1) x by (simp add: spread_def)
qed (simp add: spread_def)

lemma spread_Nil: "jsmap_wf m \<Longrightarrow> spread [] m = m"
  using spread_onto [of "[]" m "[]"] by (simp add: jsmap_wf_def)

lemma spread_wf [simp]: "jsmap_wf a \<Longrightarrow> jsmap_wf (spread a b)"
proof (induction b arbitrary: a)
  case (Cons x b)
  then show ?case by (cases x) (simp add: spread_def)
qed (simp add: spread_def)

lemma spread_keys: "prefix (map fst a) (map fst (spread a b))"
proof (induction b arbitrary: a)
  case (Cons x b)
  obtain k v where x: "x = (k, v)" by fastforce
  have "prefix (map fst a) (map fst (jsmap_set k v a))" by (simp add: jsmap_keys_set)
  with Cons.IH [of "jsmap_set k v a"] show ?case by (simp add: spread_def x)
qed (simp add: spread_def)

lemma spread_again: "jsmap_wf a \<Longrightarrow> spread a (spread a b) = spread a b"
  using spread_onto [of "[]" "spread a b" a] spread_keys [of a b] spread_wf [of a b]
  by (simp add: jsmap_wf_def)

definition entities_ok :: "zod \<Rightarrow> (string, world_entity) jsmap \<Rightarrow> bool" where
  "entities_ok z m \<longleftrightarrow> (\<forall>i x. map_of m i = Some x \<longrightarrow> en_id x = i \<and> jsmap_wf (en_attributes x))"

definition as_input :: "world_entity \<Rightarrow> new_world_entity" where
  "as_input x = \<lparr>ne_id = en_id x, ne_kind = en_kind x, ne_subtype = en_subtype x,
     ne_attributes = Some (en_attributes x), ne_seenAt = Some (en_lastSeenAt x)\<rparr>"

lemma mergeEntity_again:
  assumes "entities_ok z m" and "mergeEntity z (map_of m (ne_id i)) i s = Some e"
  shows "en_id e = ne_id i \<and> jsmap_wf (en_attributes e) \<and>
    mergeEntity z (map_of m (en_id e)) (as_input e) (en_lastSeenAt e) = Some e"
proof (cases "map_of m (ne_id i)")
  case None
  with assms(2) show ?thesis
    by (auto simp: mergeEntity_def as_input_def Let_def spread_Nil split: if_splits)
next
  case (Some x)
  with assms(1) have "en_id x = ne_id i" "jsmap_wf (en_attributes x)" by (auto simp: entities_ok_def)
  with assms(2) Some show ?thesis
    by (auto simp: mergeEntity_def as_input_def Let_def spread_again split: if_splits)
qed

fun replay_entities :: "zod \<Rightarrow> world_entity list \<Rightarrow> (string, world_entity) jsmap \<Rightarrow> (string, world_entity) jsmap option" where
  "replay_entities z [] m = Some m"
| "replay_entities z (x # xs) m =
     (case mergeEntity z (map_of m (en_id x)) (as_input x) (en_lastSeenAt x) of
        None \<Rightarrow> None | Some e \<Rightarrow> replay_entities z xs (jsmap_set (en_id x) e m))"

lemma record_entities_other:
  "record_entities z now is m = Some m' \<Longrightarrow> i \<notin> ne_id ` set is \<Longrightarrow> map_of m' i = map_of m i"
  by (induction "is" arbitrary: m) (auto split: option.splits)

lemma record_entities_replay:
  "record_entities z now is m = Some m' \<Longrightarrow> entities_ok z m \<Longrightarrow> distinct (map ne_id is) \<Longrightarrow>
   entities_ok z m' \<and> replay_entities z (map (\<lambda>i. the (map_of m' (ne_id i))) is) m = Some m'"
proof (induction "is" arbitrary: m)
  case (Cons i "is")
  then obtain e where e: "mergeEntity z (map_of m (ne_id i)) i (coalesce (ne_seenAt i) now) = Some e"
    and rest: "record_entities z now is (jsmap_set (ne_id i) e m) = Some m'"
    by (auto split: option.splits)
  note again = mergeEntity_again [OF Cons.prems(2) e]
  with Cons.prems(2) have ok: "entities_ok z (jsmap_set (ne_id i) e m)" by (simp add: entities_ok_def)
  from record_entities_other [OF rest, of "ne_id i"] Cons.prems(3) have "map_of m' (ne_id i) = Some e" by simp
  moreover from again have "mergeEntity z (map_of m (ne_id i)) (as_input e) (en_lastSeenAt e) = Some e" by metis
  ultimately show ?case using Cons.IH [OF rest ok] Cons.prems(3) again by simp
qed simp

section \<open>Relations\<close>

definition relations_ok :: "(string, world_relation) jsmap \<Rightarrow> bool" where
  "relations_ok m \<longleftrightarrow> jsmap_wf m \<and> (\<forall>i r. map_of m i = Some r \<longrightarrow> wl_id r = i)"

lemma jsmap_eqI:
  assumes "map fst a = map fst b" and "jsmap_wf a" and "map_of a = map_of b"
  shows "a = b"
proof -
  have *: "m = map (\<lambda>p. (fst p, the (map_of m (fst p)))) m" if "jsmap_wf m" for m :: "('a, 'b) jsmap"
    using that by (auto simp: jsmap_wf_def intro!: map_idI [symmetric])
  have "jsmap_wf b" using assms(1,2) by (simp add: jsmap_wf_def)
  from * [OF assms(2)] have "a = map (\<lambda>k. (k, the (map_of a k))) (map fst a)" by (simp add: o_def)
  also have "\<dots> = map (\<lambda>k. (k, the (map_of b k))) (map fst b)" using assms(1,3) by simp
  also have "\<dots> = b" using * [OF \<open>jsmap_wf b\<close>] by (simp add: o_def)
  finally show ?thesis .
qed

text \<open>Setting the final value of every key that was set, in order, leads to the same map.\<close>

lemma final_values:
  assumes "jsmap_wf m"
  shows "fold (\<lambda>k. jsmap_set k (the (map_of (spread m kvs) k))) (map fst kvs) m = spread m kvs"
proof -
  let ?f = "\<lambda>k. the (map_of (spread m kvs) k)"
  have keys: "map fst (fold (\<lambda>k. jsmap_set k (g k)) (map fst xs) a) = map fst (spread b xs)"
    if "map fst a = map fst b" for g and xs :: "('a \<times> 'b) list" and a b
    using that
  proof (induction xs arbitrary: a b)
    case (Cons x xs)
    have "map fst (jsmap_set (fst x) (g (fst x)) a) = map fst (jsmap_set (fst x) (snd x) b)"
      using Cons.prems by (simp add: jsmap_keys_set map_of_eq_None_iff) (metis image_set)
    from Cons.IH [OF this] show ?case by (cases x) (simp add: spread_def)
  qed (simp add: spread_def)
  have set: "map_of (fold (\<lambda>k. jsmap_set k (g k)) ks a) = (\<lambda>k. if k \<in> set ks then Some (g k) else map_of a k)"
    for g and ks :: "'a list" and a :: "('a, 'b) jsmap"
    by (induction ks arbitrary: a) auto
  have other: "map_of (spread a xs) k = map_of a k" if "k \<notin> fst ` set xs" for k xs and a :: "('a, 'b) jsmap"
    using that by (induction xs arbitrary: a) (auto simp: spread_def)
  have there: "map_of (spread a xs) k \<noteq> None" if "k \<in> fst ` set xs \<or> map_of a k \<noteq> None" for k xs and a :: "('a, 'b) jsmap"
    using that by (induction xs arbitrary: a) (auto simp: spread_def split: prod.splits)
  have "map_of (fold (\<lambda>k. jsmap_set k (?f k)) (map fst kvs) m) = map_of (spread m kvs)"
    unfolding set using other [of _ kvs m] there [of _ kvs m] by (auto simp: fun_eq_iff)
  then show ?thesis
    by (intro jsmap_eqI keys) (simp_all add: jsmap_wf_def keys [OF refl] spread_wf [OF assms, unfolded jsmap_wf_def])
qed

lemma record_relations_result:
  "record_relations z env now n is ids m = Some (n', ids', m') \<Longrightarrow>
   \<exists>kvs. ids' = ids @ map fst kvs \<and> m' = spread m kvs \<and> (\<forall>(k, r)\<in>set kvs. wl_id r = k)"
proof (induction "is" arbitrary: n ids m)
  case (Cons i "is")
  let ?rid = "coalesce (nl_id i) (env_uuid env n)"
  from Cons.prems have "record_relations z env now (if nl_id i = None then Suc n else n) is (ids @ [?rid])
      (jsmap_set ?rid (relation_of now ?rid i) m) = Some (n', ids', m')"
    by (auto simp: Let_def split: if_splits)
  from Cons.IH [OF this] obtain kvs where "ids' = ids @ [?rid] @ map fst kvs"
    "m' = spread (jsmap_set ?rid (relation_of now ?rid i) m) kvs" "\<forall>(k, r)\<in>set kvs. wl_id r = k" by auto
  then show ?case
    by (intro exI [of _ "(?rid, relation_of now ?rid i) # kvs"]) (simp add: spread_def relation_of_def)
qed (auto simp: spread_def)

lemma relations_ok_spread:
  "relations_ok m \<Longrightarrow> (\<forall>(k, r)\<in>set kvs. wl_id r = k) \<Longrightarrow> relations_ok (spread m kvs)"
proof (induction kvs arbitrary: m)
  case (Cons x kvs)
  obtain k r where x: "x = (k, r)" by fastforce
  with Cons.prems have "relations_ok (jsmap_set k r m)" by (auto simp: relations_ok_def)
  with Cons x show ?case by (simp add: spread_def)
qed (simp add: spread_def)

definition replay_relations :: "world_relation list \<Rightarrow> (string, world_relation) jsmap \<Rightarrow> (string, world_relation) jsmap" where
  "replay_relations rs m = fold (\<lambda>r. jsmap_set (wl_id r) r) rs m"

lemma record_relations_replay:
  assumes "record_relations z env now n is [] m = Some (n', ids, m')" and "relations_ok m"
  shows "relations_ok m' \<and> replay_relations (map (\<lambda>i. the (map_of m' i)) ids) m = m'"
proof -
  from record_relations_result [OF assms(1)] obtain kvs where kvs: "ids = map fst kvs" "m' = spread m kvs"
    "\<forall>(k, r)\<in>set kvs. wl_id r = k" by auto
  have ok: "relations_ok m'" using relations_ok_spread [OF assms(2) kvs(3)] kvs(2) by simp
  have "map_of (spread a xs) k \<noteq> None" if "k \<in> fst ` set xs \<or> map_of a k \<noteq> None"
    for k xs and a :: "(string, world_relation) jsmap"
    using that by (induction xs arbitrary: a) (auto simp: spread_def split: prod.splits)
  then have ids: "wl_id (the (map_of m' i)) = i" if "i \<in> set ids" for i
    using that ok kvs by (auto simp: relations_ok_def)
  have "replay_relations (map (\<lambda>i. the (map_of m' i)) is') a = fold (\<lambda>k. jsmap_set k (the (map_of m' k))) is' a"
    if "set is' \<subseteq> set ids" for is' a
    using that ids by (induction is' arbitrary: a) (auto simp: replay_relations_def)
  from this [OF order_refl] final_values [of m kvs] assms(2) ok kvs show ?thesis
    by (simp add: relations_ok_def)
qed

section \<open>The log replays to the world it was recorded from\<close>

text \<open>Events that carry these payloads.\<close>

definition carries :: "('p, 'x) new_event_scheme list \<Rightarrow> ('p \<Rightarrow> world_payload \<Rightarrow> bool) \<Rightarrow> world_payload list \<Rightarrow> bool" where
  "carries es is ps \<longleftrightarrow> list_all2 (\<lambda>e p. ev_type e = world_event_type p \<and> is (ev_payload e) p) es ps"

abbreviation carry :: "(payload, 'x) new_event_scheme list \<Rightarrow> world_payload list \<Rightarrow> bool" where
  "carry es ps \<equiv> carries es (\<lambda>q p. q = WorldP p) ps"

lemma carries_stamp [simp]: "carries (stamp sid now n es) f ps = carries es f ps"
proof (induction es arbitrary: n ps)
  case (Cons e es)
  then show ?case by (cases ps) (auto simp: carries_def)
qed (simp add: carries_def)

lemma payload_event_sel [simp]:
  "ev_type (payload_event u t p) = world_event_type p" "ev_payload (payload_event u t p) = WorldP p"
  by (cases p; simp add: worldEntityRecordedEvent_def worldRelationProjectedEvent_def world_event_def)+

lemma carry_record_events: "carry (record_events env n ps) ps"
  by (simp add: carries_def record_events_def number_from_def list_all2_conv_all_nth)

lemma carries_append: "carries es f ps \<Longrightarrow> carries es' f ps' \<Longrightarrow> carries (es @ es') f (ps @ ps')"
  by (simp add: carries_def list_all2_appendI)

lemma rebuild_loop_append:
  "rebuild_loop z sha256 lc policy (es @ fs) rb =
     (case rebuild_loop z sha256 lc policy es rb of
        (rb', Some err) \<Rightarrow> (rb', Some err) | (rb', None) \<Rightarrow> rebuild_loop z sha256 lc policy fs rb')"
  by (induction es arbitrary: rb) (auto split: sum.split prod.split option.split)

lemma loop_entities:
  "carry es (map WEntityP xs) \<Longrightarrow> replay_entities z xs (ws_entities (rb_world rb)) = Some m \<Longrightarrow>
   rebuild_loop z sha256 lc policy es rb = (rb\<lparr>rb_world := (rb_world rb)\<lparr>ws_entities := m\<rparr>\<rparr>, None)"
proof (induction xs arbitrary: es rb)
  case (Cons x xs)
  then obtain e es' where es: "es = e # es'" "ev_type e = ''world.entity.recorded''" "ev_payload e = WorldP (WEntityP x)"
    and rest: "carry es' (map WEntityP xs)"
    by (auto simp: carries_def list_all2_Cons2)
  from Cons.prems(2) obtain y where y: "mergeEntity z (map_of (ws_entities (rb_world rb)) (en_id x)) (as_input x) (en_lastSeenAt x) = Some y"
    and m: "replay_entities z xs (jsmap_set (en_id x) y (ws_entities (rb_world rb))) = Some m" by (auto split: option.splits)
  let ?w = "(rb_world rb)\<lparr>ws_entities := jsmap_set (en_id x) y (ws_entities (rb_world rb))\<rparr>"
  have "fold_world z e (rb_world rb) = Inr ?w" using y by (simp add: fold_world_def es as_input_def)
  with Cons.IH [OF rest, of "rb\<lparr>rb_world := ?w\<rparr>"] m show ?case by (simp add: es)
qed (simp add: carries_def)

lemma loop_relations:
  "carry es (map WRelationP rs) \<Longrightarrow>
   rebuild_loop z sha256 lc policy es rb =
     (rb\<lparr>rb_world := (rb_world rb)\<lparr>ws_relations := replay_relations rs (ws_relations (rb_world rb))\<rparr>\<rparr>, None)"
proof (induction rs arbitrary: es rb)
  case (Cons r rs)
  then obtain e es' where es: "es = e # es'" "ev_type e = ''world.relation.projected''" "ev_payload e = WorldP (WRelationP r)"
    and rest: "carry es' (map WRelationP rs)"
    by (auto simp: carries_def list_all2_Cons2)
  let ?w = "(rb_world rb)\<lparr>ws_relations := jsmap_set (wl_id r) r (ws_relations (rb_world rb))\<rparr>"
  have "fold_world z e (rb_world rb) = Inr ?w" by (simp add: fold_world_def es)
  with Cons.IH [OF rest, of "rb\<lparr>rb_world := ?w\<rparr>"] show ?case by (simp add: es replay_relations_def)
qed (simp add: carries_def replay_relations_def)

lemma loop_bump:
  assumes "carry es [WVersionP v]" and "version_ok z v"
    and "wv_digest v = ws_computeDigest sha256 lc (rb_world rb)"
  shows "rebuild_loop z sha256 lc policy es rb = (rb\<lparr>rb_lastBump := Some (wv_digest v), rb_pendingBad := None,
    rb_world := (rb_world rb)\<lparr>ws_version := wv_version v, ws_digest := wv_digest v\<rparr>\<rparr>, None)"
  using assms by (auto simp: carries_def list_all2_Cons2 rebuild_bump_def Let_def)

definition rebuild_start :: "(string \<Rightarrow> string) \<Rightarrow> (string \<Rightarrow> string \<Rightarrow> int) \<Rightarrow> 's \<Rightarrow> (int \<times> int) option \<Rightarrow> 's rebuilding" where
  "rebuild_start sha256 lc s n = \<lparr>rb_world = (ws_new sha256 lc s)\<lparr>ws_driftNotice := n\<rparr>, rb_driftedAt = None,
     rb_lastBump = None, rb_pendingBad = None\<rparr>"

text \<open>The stream replays, under either policy, to the entities, relations, version and digest of \<open>w\<close>.\<close>

definition replays_to :: "zod \<Rightarrow> (string \<Rightarrow> string) \<Rightarrow> (string \<Rightarrow> string \<Rightarrow> int) \<Rightarrow> payload chronicle_event list \<Rightarrow>
    's world_store \<Rightarrow> bool" where
  "replays_to z sha256 lc es w \<longleftrightarrow> entities_ok z (ws_entities w) \<and> relations_ok (ws_relations w) \<and>
     (\<forall>policy (s :: 's) n. \<exists>last. rebuild_loop z sha256 lc policy es (rebuild_start sha256 lc s n) =
        (\<lparr>rb_world = w\<lparr>ws_store := s, ws_driftNotice := n\<rparr>, rb_driftedAt = None, rb_lastBump = last,
          rb_pendingBad = None\<rparr>, None))"

lemma replays_to_new: "replays_to z sha256 lc [] (ws_new sha256 lc s)"
  by (simp add: replays_to_def entities_ok_def relations_ok_def ws_new_def rebuild_start_def)

lemma replays_to_store: "replays_to z sha256 lc es w \<Longrightarrow> replays_to z sha256 lc es (w\<lparr>ws_store := s\<rparr>)"
  by (simp add: replays_to_def)

lemma replays_to_record:
  assumes "replays_to z sha256 lc es w" and "distinct (map ne_id entities)"
    and "record_entities z now entities (ws_entities w) = Some nextEntities"
    and "record_relations z env now 0 relations [] (ws_relations w) = Some (n, ids, nextRelations)"
    and "carry fs (record_payloads entities ids nextEntities nextRelations @ [WVersionP v])" and "version_ok z v"
    and "wv_digest v = computeWorldDigest sha256 lc nextEntities nextRelations"
  shows "replays_to z sha256 lc (es @ fs) (w\<lparr>ws_store := s, ws_entities := nextEntities, ws_relations := nextRelations,
    ws_version := wv_version v, ws_digest := wv_digest v\<rparr>)"
proof -
  let ?xs = "map (\<lambda>i. the (map_of nextEntities (ne_id i))) entities"
    and ?rs = "map (\<lambda>i. the (map_of nextRelations i)) ids"
  have ok: "entities_ok z (ws_entities w)" "relations_ok (ws_relations w)" using assms(1) by (simp_all add: replays_to_def)
  note e = record_entities_replay [OF assms(3) ok(1) assms(2)] and r = record_relations_replay [OF assms(4) ok(2)]
  have ps: "record_payloads entities ids nextEntities nextRelations = map WEntityP ?xs @ map WRelationP ?rs"
    by (simp add: record_payloads_def)
  from assms(5) obtain f1 f2 f3 where fs: "fs = f1 @ f2 @ f3" "carry f1 (map WEntityP ?xs)" "carry f2 (map WRelationP ?rs)"
    "carry f3 [WVersionP v]"
    unfolding ps carries_def list_all2_append2 append_assoc by blast
  have "\<exists>last. rebuild_loop z sha256 lc policy (es @ fs) (rebuild_start sha256 lc s' n) =
      (\<lparr>rb_world = (w\<lparr>ws_store := s, ws_entities := nextEntities, ws_relations := nextRelations,
          ws_version := wv_version v, ws_digest := wv_digest v\<rparr>)\<lparr>ws_store := s', ws_driftNotice := n\<rparr>,
        rb_driftedAt = None, rb_lastBump = last, rb_pendingBad = None\<rparr>, None)" for policy and s' :: 'a and n
  proof -
    from assms(1) obtain last where last: "rebuild_loop z sha256 lc policy es (rebuild_start sha256 lc s' n) =
        (\<lparr>rb_world = w\<lparr>ws_store := s', ws_driftNotice := n\<rparr>, rb_driftedAt = None, rb_lastBump = last,
          rb_pendingBad = None\<rparr>, None)" unfolding replays_to_def by blast
    show ?thesis
      unfolding fs(1) rebuild_loop_append last
      using e r by (simp add: rebuild_loop_append loop_entities [OF fs(2)] loop_relations [OF fs(3)]
          loop_bump [OF fs(4) assms(6)] assms(7) ws_computeDigest_def)
  qed
  with e r show ?thesis by (simp add: replays_to_def)
qed

lemma WORLD_STREAM_ID_nonempty [simp]: "WORLD_STREAM_ID \<noteq> []"
  by (simp add: WORLD_STREAM_ID_def)

context chronicle_store
begin

text \<open>However often it tries, an append writes the batch or nothing.\<close>

lemma batch_attempt:
  assumes "inv s" and "z_datetime z now" and "evs \<noteq> []"
    and "op_append ops now WORLD_STREAM_ID evs (op_latest ops WORLD_STREAM_ID s + 1) s = (s', res)"
  shows "inv s' \<and> (case res of Inl err \<Rightarrow> view s' = view s
    | Inr es \<Rightarrow> \<exists>n. view s' = (view s)(WORLD_STREAM_ID := view s WORLD_STREAM_ID @ stamp WORLD_STREAM_ID now n evs))"
proof -
  have "inv s'" using append_refines [OF assms(1,2) WORLD_STREAM_ID_nonempty assms(4)] by simp
  with append_next [OF assms(1,2) WORLD_STREAM_ID_nonempty assms(3), where s' = s' and res = res] assms(4)
    latest_view [OF assms(1), of WORLD_STREAM_ID]
  show ?thesis by (auto split: sum.splits)
qed

end

context host_chronicle
begin

lemma append_tail_view:
  "inv s \<Longrightarrow> clock_ok z env \<Longrightarrow> evs \<noteq> [] \<Longrightarrow> append_tail ops env n k evs s = (s', res) \<Longrightarrow>
   inv s' \<and> (case res of Some err \<Rightarrow> view s' = view s
     | None \<Rightarrow> \<exists>m now. view s' = (view s)(WORLD_STREAM_ID := view s WORLD_STREAM_ID @ stamp WORLD_STREAM_ID now m evs))"
proof (induction k arbitrary: n s)
  case 0
  obtain s1 r where a: "op_append ops (env_now env n) WORLD_STREAM_ID evs (op_latest ops WORLD_STREAM_ID s + 1) s = (s1, r)"
    by fastforce
  from batch_attempt [OF 0(1) clock_okD [OF 0(2)] 0(3) a] a 0(4) show ?case by (auto split: sum.splits)
next
  case (Suc k)
  obtain s1 r where a: "op_append ops (env_now env n) WORLD_STREAM_ID evs (op_latest ops WORLD_STREAM_ID s + 1) s = (s1, r)"
    by fastforce
  note b = batch_attempt [OF Suc.prems(1) clock_okD [OF Suc.prems(2)] Suc.prems(3) a]
  show ?case
  proof (cases "\<exists>sid x y. r = Inl (ChronicleSequenceConflict sid x y)")
    case True
    with a Suc.prems(4) have "append_tail ops env (Suc n) k evs s1 = (s', res)" by auto
    from Suc.IH [OF _ Suc.prems(2,3) this] b True show ?thesis by (auto split: option.splits)
  next
    case False
    with a Suc.prems(4) have "s' = s1 \<and> res = (case r of Inl err \<Rightarrow> Some err | Inr _ \<Rightarrow> None)"
      by (auto split: sum.splits chronicle_error.splits)
    with b show ?thesis by (auto split: sum.splits)
  qed
qed

lemma world_append_view:
  assumes "inv s" and "clock_ok z env" and "evs \<noteq> []" and "world_append ops env n evs s = (s', res)"
  shows "inv s' \<and> (case res of Some err \<Rightarrow> view s' = view s
     | None \<Rightarrow> \<exists>m now. view s' = (view s)(WORLD_STREAM_ID := view s WORLD_STREAM_ID @ stamp WORLD_STREAM_ID now m evs))"
  using append_tail_view [OF assms(1-3), of n 2 s' res] assms(3,4) by (simp add: world_append_def)

end

section \<open>Histories of records\<close>

datatype world_op = RecordWorld env world_projection

fun world_op_ok :: "zod \<Rightarrow> world_op \<Rightarrow> bool" where
  "world_op_ok z (RecordWorld env input) \<longleftrightarrow> clock_ok z env \<and> distinct (map ne_id (coalesce (wp_entities input) []))"

fun world_step :: "zod \<Rightarrow> (string \<Rightarrow> string) \<Rightarrow> (string \<Rightarrow> string \<Rightarrow> int) \<Rightarrow> ('s, payload) chronicle_ops \<Rightarrow> world_op \<Rightarrow>
    's world_store \<Rightarrow> 's world_store" where
  "world_step z sha256 lc ops (RecordWorld env input) w = fst (ws_record z sha256 lc ops env input w)"

context host_chronicle
begin

lemma world_step_replays:
  assumes "inv (ws_store w)" and "world_op_ok z p" and "replays_to z sha256 lc (view (ws_store w) WORLD_STREAM_ID) w"
    and "ws_driftNotice w = None"
  shows "inv (ws_store (world_step z sha256 lc ops p w)) \<and>
    replays_to z sha256 lc (view (ws_store (world_step z sha256 lc ops p w)) WORLD_STREAM_ID) (world_step z sha256 lc ops p w) \<and>
    ws_driftNotice (world_step z sha256 lc ops p w) = None"
proof -
  obtain env input where p: "p = RecordWorld env input" by (cases p) auto
  let ?es = "coalesce (wp_entities input) []" and ?rs = "coalesce (wp_relations input) []" and ?now = "env_now env 0"
  from assms(2) p have env: "clock_ok z env" and ids: "distinct (map ne_id ?es)" by simp_all
  show ?thesis
  proof (cases "(?es = [] \<and> ?rs = []) \<or> record_entities z ?now ?es (ws_entities w) = None \<or>
      record_relations z env ?now 0 ?rs [] (ws_relations w) = None")
    case True
    then have "world_step z sha256 lc ops p w = w"
      by (auto simp: p ws_record_def Let_def split: option.split)
    with assms show ?thesis by simp
  next
    case False
    then obtain E n js R where E: "record_entities z ?now ?es (ws_entities w) = Some E"
      and R: "record_relations z env ?now 0 ?rs [] (ws_relations w) = Some (n, js, R)" and ne: "\<not> (?es = [] \<and> ?rs = [])"
      by auto
    let ?ps = "record_payloads ?es js E R" and ?d = "computeWorldDigest sha256 lc E R"
    let ?k = "length ?ps" and ?v = "\<lparr>wv_version = ws_version w + 1, wv_digest = ?d, wv_at = ?now\<rparr>"
    show ?thesis
    proof (cases "version_ok z ?v")
      case False
      then have "world_step z sha256 lc ops p w = w"
        using E R ne by (auto simp: p ws_record_def Let_def worldVersionBumpedEvent_def)
      with assms show ?thesis by simp
    next
      case True
      let ?bump = "world_event (env_uuid env (n + ?k)) (env_now env (1 + ?k)) no_scope (WVersionP ?v)"
      let ?evs = "record_events env n ?ps @ [?bump]"
      obtain s' res where app: "world_append ops env (2 + ?k) ?evs (ws_store w) = (s', res)" by fastforce
      note a = world_append_view [OF assms(1) env _ app]
      have step: "world_step z sha256 lc ops p w = (case res of Some err \<Rightarrow> w\<lparr>ws_store := s'\<rparr>
          | None \<Rightarrow> w\<lparr>ws_store := s', ws_entities := E, ws_relations := R, ws_version := ws_version w + 1, ws_digest := ?d\<rparr>)"
        using E R ne app True by (auto simp: p ws_record_def Let_def worldVersionBumpedEvent_def split: option.split)
      show ?thesis
      proof (cases res)
        case (Some err)
        with a step replays_to_store [OF assms(3)] assms(4) show ?thesis by simp
      next
        case None
        with a obtain m now where s': "inv s'" "view s' WORLD_STREAM_ID = view (ws_store w) WORLD_STREAM_ID @
            stamp WORLD_STREAM_ID now m ?evs" by auto
        have "carry [?bump] [WVersionP ?v]" by (simp add: carries_def world_event_def)
        from carries_append [OF carry_record_events this]
        have "carry (stamp WORLD_STREAM_ID now m ?evs) (?ps @ [WVersionP ?v])" by simp
        from replays_to_record [OF assms(3) ids E R this True] s' step None assms(4) show ?thesis by simp
      qed
    qed
  qed
qed

lemma world_steps_replay:
  "inv (ws_store w) \<Longrightarrow> list_all (world_op_ok z) ps \<Longrightarrow> replays_to z sha256 lc (view (ws_store w) WORLD_STREAM_ID) w \<Longrightarrow>
   ws_driftNotice w = None \<Longrightarrow> w' = fold (world_step z sha256 lc ops) ps w \<Longrightarrow>
   inv (ws_store w') \<and> replays_to z sha256 lc (view (ws_store w') WORLD_STREAM_ID) w' \<and> ws_driftNotice w' = None"
proof (induction ps arbitrary: w)
  case (Cons p ps)
  from world_step_replays [OF Cons.prems(1) _ Cons.prems(3,4), of p] Cons.prems(2)
  have "inv (ws_store (world_step z sha256 lc ops p w))"
    "replays_to z sha256 lc (view (ws_store (world_step z sha256 lc ops p w)) WORLD_STREAM_ID) (world_step z sha256 lc ops p w)"
    "ws_driftNotice (world_step z sha256 lc ops p w) = None" by simp_all
  from Cons.IH [OF this(1) _ this(2,3)] Cons.prems(2,5) show ?case by simp
qed simp

lemma rebuild_recorded:
  assumes "inv (ws_store w)" and "replays_to z sha256 lc (view (ws_store w) WORLD_STREAM_ID) w" and "ws_driftNotice w = None"
  shows "ws_rebuild z sha256 lc ops env policy (ws_new sha256 lc (ws_store w)) = (w, None)"
proof -
  have "(ws_new sha256 lc (ws_store w))\<lparr>ws_driftNotice := None\<rparr> = ws_new sha256 lc (ws_store w)" by (simp add: ws_new_def)
  moreover obtain last where "rebuild_loop z sha256 lc policy (view (ws_store w) WORLD_STREAM_ID)
      (rebuild_start sha256 lc (ws_store w) None) =
      (\<lparr>rb_world = w\<lparr>ws_store := ws_store w, ws_driftNotice := None\<rparr>, rb_driftedAt = None, rb_lastBump = last,
        rb_pendingBad = None\<rparr>, None)" using assms(2) unfolding replays_to_def by blast
  moreover have "w\<lparr>ws_store := ws_store w, ws_driftNotice := None\<rparr> = w" using assms(3) by (cases w) simp
  ultimately show ?thesis
    by (simp add: ws_rebuild_def Let_def read_all [OF assms(1)] rebuild_start_def rebuild_settle_def ws_new_def)
qed

end

text \<open>
  C4: The world survives a restart. After any history of records on a new SQLite Chronicle, in
  which no record names an entity twice, accepted or refused, a new world store that rebuilds
  from the \<open>world\<close> stream under either policy ends without an error, writes nothing, and has
  exactly the entities, relations, version and digest of the store that recorded them.
\<close>

theorem world_survives_restart:
  assumes "list_all (world_op_ok z) ps"
    and "w = fold (world_step z sha256 lc (host_sqlite z)) ps (ws_new sha256 lc sqlite_new)"
  shows "ws_rebuild z sha256 lc (host_sqlite z) env policy (ws_new sha256 lc (ws_store w)) = (w, None)"
proof -
  have "replays_to z sha256 lc (sqlite_view (ws_store (ws_new sha256 lc sqlite_new)) WORLD_STREAM_ID)
      (ws_new sha256 lc sqlite_new)" using replays_to_new by (simp add: ws_new_def sqlite_new_view)
  from sqlite_host.world_steps_replay [OF _ assms(1) this _ assms(2)] sqlite_host.rebuild_recorded [where w = w]
  show ?thesis by (simp add: ws_new_def)
qed

section \<open>Rebasing over a drift\<close>

text \<open>The loop neither reads nor writes the Chronicle handle and the drift notice.\<close>

definition reframe :: "'s \<Rightarrow> (int \<times> int) option \<Rightarrow> 's rebuilding \<Rightarrow> 's rebuilding" where
  "reframe s n rb = rb\<lparr>rb_world := (rb_world rb)\<lparr>ws_store := s, ws_driftNotice := n\<rparr>\<rparr>"

lemma fold_world_frame:
  "fold_world z e (w\<lparr>ws_store := s, ws_driftNotice := n\<rparr>) =
     map_sum id (\<lambda>w. w\<lparr>ws_store := s, ws_driftNotice := n\<rparr>) (fold_world z e w)"
  by (auto simp: fold_world_def split: payload.split world_payload.split option.split)

lemma rebuild_bump_frame:
  "rebuild_bump z sha256 lc policy e (reframe s n rb) = map_prod (reframe s n) id (rebuild_bump z sha256 lc policy e rb)"
  by (auto simp: rebuild_bump_def reframe_def ws_computeDigest_def Let_def
      split: payload.split world_payload.split option.split)

lemma rebuild_loop_frame:
  "rebuild_loop z sha256 lc policy es (reframe s n rb) = map_prod (reframe s n) id (rebuild_loop z sha256 lc policy es rb)"
proof (induction es arbitrary: rb)
  case (Cons e es)
  show ?case
  proof (cases "ev_type e = ''world.version.bumped''")
    case True
    then show ?thesis
      using Cons.IH rebuild_bump_frame [of z sha256 lc policy e s n rb]
      by (cases "rebuild_bump z sha256 lc policy e rb") (auto split: option.split)
  next
    case False
    have *: "fold_world z e (rb_world (reframe s n rb)) =
        map_sum id (\<lambda>w. w\<lparr>ws_store := s, ws_driftNotice := n\<rparr>) (fold_world z e (rb_world rb))"
      by (simp add: reframe_def fold_world_frame)
    show ?thesis
    proof (cases "fold_world z e (rb_world rb)")
      case (Inr w)
      have "(reframe s n rb)\<lparr>rb_world := w\<lparr>ws_store := s, ws_driftNotice := n\<rparr>\<rparr> = reframe s n (rb\<lparr>rb_world := w\<rparr>)"
        by (simp add: reframe_def)
      with False * Inr Cons.IH [of "rb\<lparr>rb_world := w\<rparr>"] show ?thesis by simp
    qed (use False * in simp)
  qed
qed simp

lemma rebuild_start_frame: "rebuild_start sha256 lc s n = reframe s n (rebuild_start sha256 lc s' n')"
  by (simp add: rebuild_start_def reframe_def ws_new_def)

text \<open>Up to the notice, and the handle on the Chronicle.\<close>

definition same_world :: "'s world_store \<Rightarrow> 's world_store \<Rightarrow> bool" where
  "same_world w w' \<longleftrightarrow> ws_entities w' = ws_entities w \<and> ws_relations w' = ws_relations w \<and>
     ws_version w' = ws_version w \<and> ws_digest w' = ws_digest w"

context host_chronicle
begin

lemma rebuild_unfold:
  assumes "inv (ws_store w)"
  shows "ws_rebuild z sha256 lc ops env policy w =
    (case rebuild_loop z sha256 lc policy (view (ws_store w) WORLD_STREAM_ID)
        (rebuild_start sha256 lc (ws_store w) (ws_driftNotice w)) of
       (rb, Some e) \<Rightarrow> (rb_world rb, Some e) | (rb, None) \<Rightarrow> rebuild_settle z sha256 lc ops env policy rb)"
  by (simp add: ws_rebuild_def Let_def read_all [OF assms] rebuild_start_def split: prod.split option.split)

lemma rebase_twice:
  assumes "inv (ws_store w)" and "clock_ok z env"
    and first: "ws_rebuild z sha256 lc ops env RebaseOnDrift w = (w1, None)"
  shows "\<exists>w2. ws_rebuild z sha256 lc ops env' RebaseOnDrift w1 = (w2, None) \<and> ws_store w2 = ws_store w1 \<and> same_world w1 w2"
proof -
  let ?es = "view (ws_store w) WORLD_STREAM_ID" and ?s = "ws_store w"
  let ?loop = "\<lambda>es s n. rebuild_loop z sha256 lc RebaseOnDrift es (rebuild_start sha256 lc s n)"
  obtain rb where loop: "?loop ?es ?s (ws_driftNotice w) = (rb, None)"
    and settle: "rebuild_settle z sha256 lc ops env RebaseOnDrift rb = (w1, None)"
    using first unfolding rebuild_unfold [OF assms(1)] by (auto split: prod.splits option.splits)
  have frame: "?loop ?es s n = (reframe s n rb, None)" for s n
    using rebuild_loop_frame [of z sha256 lc RebaseOnDrift ?es s n "rebuild_start sha256 lc ?s (ws_driftNotice w)"]
      loop rebuild_start_frame [of sha256 lc s n ?s "ws_driftNotice w"] by simp
  have "reframe ?s (ws_driftNotice w) rb = rb" using frame [of ?s "ws_driftNotice w"] loop by simp
  from arg_cong [OF this, of "\<lambda>rb. ws_store (rb_world rb)"] have store: "ws_store (rb_world rb) = ?s"
    by (simp add: reframe_def)
  let ?v = "rb_world rb" and ?actual = "ws_computeDigest sha256 lc (rb_world rb)"
    and ?drift = "if rb_pendingBad rb = None then rb_driftedAt rb else map_option fst (rb_pendingBad rb)"
  have act [simp]: "ws_computeDigest sha256 lc (v\<lparr>ws_store := s, ws_driftNotice := n\<rparr>) = ws_computeDigest sha256 lc v"
    for v :: "'a world_store" and s n by (simp add: ws_computeDigest_def)
  show ?thesis
  proof (cases "?drift = None \<or> rb_lastBump rb = Some ?actual")
    case True
    then have "ws_store w1 = ?s" and same: "ws_entities w1 = ws_entities ?v" "ws_relations w1 = ws_relations ?v"
      using settle store by (auto simp: rebuild_settle_def Let_def split: option.splits if_splits)
    then have again: "ws_rebuild z sha256 lc ops env' RebaseOnDrift w1 =
        rebuild_settle z sha256 lc ops env' RebaseOnDrift (reframe ?s (ws_driftNotice w1) rb)"
      using rebuild_unfold [of w1 sha256 lc env' RebaseOnDrift] assms(1) frame by simp
    show ?thesis unfolding again
      using True settle store \<open>ws_store w1 = ?s\<close>
      by (auto simp: rebuild_settle_def reframe_def same_world_def Let_def split: option.splits if_splits)
  next
    case False
    then obtain d where d: "?drift = Some d" by auto
    let ?c = "max (max (ws_version ?v) (d + 1)) (coalesce (map_option fst (rb_pendingBad rb)) 0) + 1"
    let ?bump = "\<lparr>wv_version = ?c, wv_digest = ?actual, wv_at = env_now env 0\<rparr>"
      and ?ev = "world_event (env_uuid env 0) (env_now env 1) no_scope
        (WVersionP \<lparr>wv_version = ?c, wv_digest = ?actual, wv_at = env_now env 0\<rparr>)"
    from False d settle store obtain s' where ok: "version_ok z ?bump"
      and app: "world_append ops env 2 [?ev] ?s = (s', None)"
      and w1: "w1 = ?v\<lparr>ws_store := s', ws_version := ?c, ws_digest := ?actual, ws_driftNotice := Some (d, ?c)\<rparr>"
      by (auto simp: rebuild_settle_def worldVersionBumpedEvent_def Let_def split: option.splits if_splits prod.splits)
    from world_append_view [OF assms(1,2) _ app] obtain m now where s': "inv s'"
      "view s' WORLD_STREAM_ID = ?es @ stamp WORLD_STREAM_ID now m [?ev]" by auto
    let ?n = "ws_driftNotice w1" and ?fs = "stamp WORLD_STREAM_ID now m [?ev]"
    have "carry [?ev] [WVersionP ?bump]" by (simp add: carries_def world_event_def)
    then have carry: "carry ?fs [WVersionP ?bump]" unfolding carries_stamp .
    have dig: "wv_digest ?bump = ws_computeDigest sha256 lc (rb_world (reframe s' ?n rb))" by (simp add: reframe_def)
    let ?rb2 = "(reframe s' ?n rb)\<lparr>rb_lastBump := Some ?actual, rb_pendingBad := None,
        rb_world := (rb_world (reframe s' ?n rb))\<lparr>ws_version := ?c, ws_digest := ?actual\<rparr>\<rparr>"
    have "?loop (view s' WORLD_STREAM_ID) s' ?n = (?rb2, None)"
      unfolding s'(2) rebuild_loop_append frame using loop_bump [OF carry ok dig] by simp
    then have "ws_rebuild z sha256 lc ops env' RebaseOnDrift w1 = rebuild_settle z sha256 lc ops env' RebaseOnDrift ?rb2"
      using rebuild_unfold [of w1 sha256 lc env' RebaseOnDrift] s'(1) w1 by simp
    moreover have "rb_pendingBad ?rb2 = None" "rb_lastBump ?rb2 = Some ?actual" by simp_all
    moreover have "ws_computeDigest sha256 lc (rb_world ?rb2) = ?actual" by (simp add: ws_computeDigest_def reframe_def)
    ultimately show ?thesis
      using w1 by (auto simp: rebuild_settle_def same_world_def reframe_def Let_def split: option.split)
  qed
qed

end

context host_chronicle
begin

lemma ws_record_inv:
  assumes "inv (ws_store w)" and "clock_ok z env"
  shows "inv (ws_store (fst (ws_record z sha256 lc ops env input w)))"
proof -
  have "inv (fst (world_append ops env n evs (ws_store w)))" for n evs
    using world_append_view [OF assms, of evs n] assms(1)
    by (cases "evs = []"; cases "world_append ops env n evs (ws_store w)") (auto simp: world_append_def)
  then have *: "world_append ops env n evs (ws_store w) = (s', r) \<Longrightarrow> inv s'" for n evs s' r by (metis fst_conv)
  show ?thesis using assms(1)
    by (auto simp: ws_record_def Let_def dest: * split: option.split prod.split)
qed

end

text \<open>
  C11: A rebase settles. Whatever the \<open>world\<close> stream of a SQLite Chronicle holds: once a
  rebuild that may rebase has ended without an error, having appended a corrective version if
  it found a drift, the next such rebuild ends without an error too, writes nothing, and finds
  the same entities, relations, version and digest.
\<close>

theorem rebase_settles:
  assumes "sqlite_inv z (host_registry z) (ws_store w)" and "clock_ok z env"
    and "ws_rebuild z sha256 lc (host_sqlite z) env RebaseOnDrift w = (w1, None)"
  shows "\<exists>w2. ws_rebuild z sha256 lc (host_sqlite z) env' RebaseOnDrift w1 = (w2, None) \<and>
    ws_store w2 = ws_store w1 \<and> same_world w1 w2"
  using sqlite_host.rebase_twice [OF assms] .

section \<open>Samples\<close>

text \<open>A hash in the form of SHA-256 that counts exclamation marks, and an environment.\<close>

definition bang_sha :: "string \<Rightarrow> string" where
  "bang_sha s = take 64 (map (\<lambda>c. CHR ''1'') (filter (\<lambda>c. c = CHR ''!'') s) @ replicate 64 CHR ''0'')"

definition seen :: "string \<Rightarrow> string option \<Rightarrow> new_world_entity" where
  "seen i at = \<lparr>ne_id = i, ne_kind = ResourceEntity, ne_subtype = None,
     ne_attributes = Some [(''n'', ANum 3)], ne_seenAt = at\<rparr>"

definition sample_projection :: "new_world_entity list \<Rightarrow> world_projection" where
  "sample_projection es = \<lparr>wp_entities = Some es, wp_relations = None\<rparr>"

definition sample_records :: "world_op list" where
  "sample_records = [RecordWorld (iso_env ''u'' ''t'') (sample_projection [seen ''a'' None]),
     RecordWorld (iso_env ''v'' ''t!'') (sample_projection [seen ''a'' None])]"

abbreviation recorded_world :: "world_op list \<Rightarrow> payload sqlite_db world_store" where
  "recorded_world ps \<equiv> fold (world_step any_zod bang_sha code_unit_compare (host_sqlite any_zod)) ps
     (ws_new bang_sha code_unit_compare sqlite_new)"

lemma sample_clock [simp]: "t \<noteq> [] \<Longrightarrow> clock_ok any_zod (iso_env u t)"
  by (simp add: clock_ok_def any_zod_def iso_env_def)

lemma sample_recorded: "ws_version (recorded_world sample_records) = 2"
  by code_simp

lemma world_survives_restart_witness:
  "\<exists>w. ws_version w = 2 \<and> ws_rebuild any_zod bang_sha code_unit_compare (host_sqlite any_zod) (iso_env ''r'' ''t'')
     FailOnDrift (ws_new bang_sha code_unit_compare (ws_store w)) = (w, None)"
proof -
  have "list_all (world_op_ok any_zod) sample_records"
    by (simp add: sample_records_def sample_projection_def)
  from world_survives_restart [OF this refl] sample_recorded show ?thesis by blast
qed

text \<open>
  A record that names an entity twice with two times cannot be replayed: the event holds the
  later time only, and the rebuild takes it for the first as well.
\<close>

definition drifted :: "payload sqlite_db world_store" where
  "drifted = ws_new bang_sha code_unit_compare (ws_store
     (recorded_world [RecordWorld (iso_env ''u'' ''t'') (sample_projection [seen ''a'' (Some ''!''), seen ''a'' (Some ''t'')])]))"

lemma duplicate_entity_drifts:
  "case ws_rebuild any_zod bang_sha code_unit_compare (host_sqlite any_zod) (iso_env ''r'' ''t'') FailOnDrift drifted of
     (w, err) \<Rightarrow> (case err of Some (WorldVersionDrift v a b) \<Rightarrow> v = 1 | _ \<Rightarrow> False)"
  by code_simp

lemma sample_rebase:
  "case ws_rebuild any_zod bang_sha code_unit_compare (host_sqlite any_zod) (iso_env ''r'' ''t'') RebaseOnDrift drifted of
     (w, err) \<Rightarrow> err = None \<and> ws_driftNotice w = Some (1, 3)"
  by code_simp

lemma drifted_inv: "sqlite_inv any_zod (host_registry any_zod) (ws_store drifted)"
proof -
  let ?p = "sample_projection [seen ''a'' (Some ''!''), seen ''a'' (Some ''t'')]"
  have "clock_ok any_zod (iso_env ''u'' ''t'')" by simp
  from sqlite_host.ws_record_inv [OF _ this, of "ws_new bang_sha code_unit_compare sqlite_new" bang_sha code_unit_compare ?p]
  show ?thesis by (simp add: drifted_def ws_new_def)
qed

lemma rebase_settles_witness:
  "\<exists>w1 w2. ws_driftNotice w1 = Some (1, 3) \<and> ws_rebuild any_zod bang_sha code_unit_compare (host_sqlite any_zod)
     (iso_env ''q'' ''t'') RebaseOnDrift w1 = (w2, None) \<and> ws_store w2 = ws_store w1"
proof -
  obtain w1 where w1: "ws_rebuild any_zod bang_sha code_unit_compare (host_sqlite any_zod) (iso_env ''r'' ''t'')
      RebaseOnDrift drifted = (w1, None)" "ws_driftNotice w1 = Some (1, 3)"
    using sample_rebase by (auto split: prod.splits)
  have "clock_ok any_zod (iso_env ''r'' ''t'')" by simp
  from rebase_settles [OF drifted_inv this w1(1), of "iso_env ''q'' ''t''"] w1(2) show ?thesis by blast
qed

end
