(* ===== verification/ServerSentEvents.thy ===== *)
theory ServerSentEvents
  imports CanonicalJson
begin

text \<open>
  The parser of \<open>text/event-stream\<close> bodies (\<open>packages/client/src/sse.ts\<close>). The streaming
  \<open>TextDecoder\<close> is outside: the input is the list of the texts it returned for the chunks that
  arrived, and the text of its final flush.
\<close>

section \<open>The parser\<close>

abbreviation LF :: char where "LF \<equiv> CHR 0x0A"
abbreviation CR :: char where "CR \<equiv> CHR 0x0D"

record sse_frame =
  fr_id :: "string option"
  fr_event :: "string option"
  fr_data :: string

fun index_of :: "string \<Rightarrow> string \<Rightarrow> nat option" where
  "index_of p [] = (if p = [] then Some 0 else None)"
| "index_of p (c # cs) = (if starts_with p (c # cs) then Some 0 else map_option Suc (index_of p cs))"

definition findFrameBoundary :: "string \<Rightarrow> (nat \<times> nat) option" where
  "findFrameBoundary buffer =
     (case (index_of [LF, LF] buffer, index_of [CR, LF, CR, LF] buffer) of
        (None, None) \<Rightarrow> None
      | (Some unix, None) \<Rightarrow> Some (unix, unix + 2)
      | (Some unix, Some windows) \<Rightarrow> if unix < windows then Some (unix, unix + 2) else Some (windows, windows + 4)
      | (None, Some windows) \<Rightarrow> Some (windows, windows + 4))"

text \<open>\<open>raw.split(/\r?\n/)\<close>.\<close>

fun split_lines :: "string \<Rightarrow> string \<Rightarrow> string list" where
  "split_lines line [] = [line]"
| "split_lines line (c # cs) =
     (if c = LF then line # split_lines [] cs
      else if c = CR \<and> starts_with [LF] cs then line # split_lines [] (tl cs)
      else split_lines (line @ [c]) cs)"

definition field_of :: "string \<Rightarrow> string \<times> string" where
  "field_of line =
     (case index_of '':'' line of
        None \<Rightarrow> (line, [])
      | Some separator \<Rightarrow>
          let v = drop (separator + 1) line
          in (take separator line, if starts_with '' '' v then tl v else v))"

definition frame_line :: "string \<Rightarrow> string option \<times> string option \<times> string list \<Rightarrow>
    string option \<times> string option \<times> string list" where
  "frame_line line acc =
     (if line = [] \<or> starts_with '':'' line then acc
      else case (field_of line, acc) of ((field, v), (i, event, data)) \<Rightarrow>
        if field = ''id'' then (Some v, event, data)
        else if field = ''event'' then (i, Some v, data)
        else if field = ''data'' then (i, event, data @ [v])
        else acc)"

fun join_lines :: "string list \<Rightarrow> string" where
  "join_lines [] = []"
| "join_lines [l] = l"
| "join_lines (l # m # ls) = l @ LF # join_lines (m # ls)"

definition parseFrame :: "string \<Rightarrow> sse_frame option" where
  "parseFrame raw =
     (case fold frame_line (split_lines [] raw) (None, None, []) of (i, event, data) \<Rightarrow>
        if i = None \<and> event = None \<and> data = [] then None
        else Some \<lparr>fr_id = i, fr_event = event, fr_data = join_lines data\<rparr>)"

section \<open>Boundaries\<close>

lemma starts_with_drop_append: "starts_with p (drop i s) \<Longrightarrow> p \<noteq> [] \<Longrightarrow> starts_with p (drop i (s @ t))"
  by (cases "i \<le> length s") (auto simp: starts_with_iff)

lemma index_of_Some: "index_of p s = Some i \<Longrightarrow> starts_with p (drop i s) \<and> (\<forall>j<i. \<not> starts_with p (drop j s))"
proof (induction s arbitrary: i)
  case (Cons c cs)
  show ?case
  proof (cases "starts_with p (c # cs)")
    case False
    with Cons.prems obtain k where k: "i = Suc k" "index_of p cs = Some k" by auto
    from Cons.IH [OF k(2)] False show ?thesis by (auto simp: k less_Suc_eq_0_disj)
  qed (use Cons.prems in simp)
qed (auto simp: starts_with_def split: if_splits)

lemma index_of_None: "index_of p s = None \<Longrightarrow> \<not> starts_with p (drop j s)"
proof (induction s arbitrary: j)
  case (Cons c cs)
  then show ?case by (cases j) (auto split: if_splits)
qed (simp add: starts_with_def split: if_splits)

lemma index_of_eqI:
  "starts_with p (drop i s) \<Longrightarrow> p \<noteq> [] \<Longrightarrow> (\<And>j. j < i \<Longrightarrow> \<not> starts_with p (drop j s)) \<Longrightarrow> index_of p s = Some i"
  by (cases "index_of p s") (use index_of_None index_of_Some nat_neq_iff in blast)+

lemma index_of_length:
  assumes "index_of p s = Some i"
  shows "i + length p \<le> length s \<or> p = []"
proof -
  from index_of_Some [OF assms] obtain t where "drop i s = p @ t" by (auto simp: starts_with_iff)
  then have "length s - i = length p + length t" by (metis length_append length_drop)
  then show ?thesis by (cases "i \<le> length s") auto
qed

lemma index_of_append:
  assumes "index_of p s = Some i" and "p \<noteq> []"
  shows "index_of p (s @ t) = Some i"
proof (rule index_of_eqI)
  note i = index_of_Some [OF assms(1)] and len = index_of_length [OF assms(1)]
  show "starts_with p (drop i (s @ t))" using i starts_with_drop_append assms(2) by blast
  fix j assume "j < i"
  with i have "\<not> starts_with p (drop j s)" by blast
  with \<open>j < i\<close> len assms(2) show "\<not> starts_with p (drop j (s @ t))" by (auto simp: starts_with_def)
qed (rule assms(2))

lemma index_of_late:
  assumes "index_of p s = None" and "index_of p (s @ t) = Some i"
  shows "length s < i + length p"
proof (rule ccontr)
  assume "\<not> ?thesis"
  then have "take (length p) (drop i (s @ t)) = take (length p) (drop i s)" by simp
  with index_of_Some [OF assms(2)] index_of_None [OF assms(1), of i] show False by (simp add: starts_with_def)
qed

lemma starts_with_nth:
  assumes "starts_with p (drop i s)" and "k < length p"
  shows "s ! (i + k) = p ! k"
proof -
  from assms(1) obtain t where t: "drop i s = p @ t" by (auto simp: starts_with_iff)
  with assms(2) have "i \<le> length s" by (cases "i \<le> length s") auto
  with t assms(2) show ?thesis by (metis nth_append nth_drop)
qed

text \<open>What is appended does not move the first boundary: the two separators cannot overlap.\<close>

lemma boundary_append:
  assumes "findFrameBoundary s = Some b"
  shows "findFrameBoundary (s @ t) = Some b"
proof -
  let ?u = "[LF, LF]" and ?w = "[CR, LF, CR, LF]"
  note app = index_of_append [of ?u s _ t] index_of_append [of ?w s _ t]
  show ?thesis
  proof (cases "index_of ?u s")
    case None
    then obtain w where w: "index_of ?w s = Some w" "b = (w, w + 4)"
      using assms by (auto simp: findFrameBoundary_def split: option.splits)
    have "\<not> u < w" if "index_of ?u (s @ t) = Some u" for u
      using index_of_late [OF None that] index_of_length [OF w(1)] by simp
    with w app(2) [of w] show ?thesis by (auto simp: findFrameBoundary_def split: option.split)
  next
    case (Some u)
    have u: "index_of ?u (s @ t) = Some u" using app(1) [OF Some] by simp
    show ?thesis
    proof (cases "index_of ?w s")
      case (Some w)
      with \<open>index_of ?u s = Some u\<close> u app(2) [OF Some] assms show ?thesis by (simp add: findFrameBoundary_def)
    next
      case None
      have "u < w" if w: "index_of ?w (s @ t) = Some w" for w
      proof (rule ccontr)
        assume "\<not> u < w"
        have nth: "(s @ t) ! (u + k) = LF" if "k < 2" for k
          using starts_with_nth [OF conjunct1 [OF index_of_Some [OF u]], of k] that by (cases k) auto
        have "length s < w + 4" "u + 2 \<le> length s"
          using index_of_late [OF None w] index_of_length [OF Some] by simp_all
        with \<open>\<not> u < w\<close> have "w = u \<or> w + 1 = u" by linarith
        moreover have "(s @ t) ! (w + 0) = CR" "(s @ t) ! (w + 2) = CR"
          using starts_with_nth [OF conjunct1 [OF index_of_Some [OF w]]] by fastforce+
        ultimately show False using nth [of 0] nth [of 1] by auto
      qed
      with u \<open>index_of ?u s = Some u\<close> None assms show ?thesis by (auto simp: findFrameBoundary_def split: option.split)
    qed
  qed
qed

lemma boundary_bounds: "findFrameBoundary s = Some (i, e) \<Longrightarrow> i < e \<and> e \<le> length s"
  by (auto simp: findFrameBoundary_def split: option.splits if_splits dest!: index_of_length)

section \<open>The stream\<close>

text \<open>The inner loop: frames are cut off the buffer while it has a boundary.\<close>

function cut_frames :: "string \<Rightarrow> sse_frame list \<times> string" where
  "cut_frames buffer =
     (case findFrameBoundary buffer of
        None \<Rightarrow> ([], buffer)
      | Some (i, e) \<Rightarrow>
          (case cut_frames (drop e buffer) of (frames, rest) \<Rightarrow>
             ((case parseFrame (take i buffer) of None \<Rightarrow> frames | Some f \<Rightarrow> f # frames), rest)))"
  by pat_completeness auto

termination cut_frames
  by (relation "measure length") (auto dest!: boundary_bounds)

declare cut_frames.simps [simp del]

text \<open>The outer loop over the decoded chunks, and what is left at the end of the stream.\<close>

fun read_chunks :: "string list \<Rightarrow> string \<Rightarrow> sse_frame list \<times> string" where
  "read_chunks [] buffer = ([], buffer)"
| "read_chunks (c # cs) buffer =
     (case cut_frames (buffer @ c) of (frames, buffer') \<Rightarrow>
        (case read_chunks cs buffer' of (frames', rest) \<Rightarrow> (frames @ frames', rest)))"

definition parseSseStream :: "string list \<Rightarrow> string \<Rightarrow> sse_frame list" where
  "parseSseStream chunks flush =
     (case read_chunks chunks [] of (frames, buffer) \<Rightarrow>
        frames @ (case parseFrame (buffer @ flush) of None \<Rightarrow> [] | Some f \<Rightarrow> [f]))"

lemma cut_frames_append:
  "cut_frames (s @ t) = (case cut_frames s of (frames, rest) \<Rightarrow>
     (case cut_frames (rest @ t) of (frames', rest') \<Rightarrow> (frames @ frames', rest')))"
proof (induction s rule: cut_frames.induct)
  case (1 s)
  show ?case
  proof (cases "findFrameBoundary s")
    case None
    then have "cut_frames s = ([], s)" by (subst cut_frames.simps) simp
    then show ?thesis by (simp split: prod.split)
  next
    case (Some b)
    obtain i e where b: "b = (i, e)" by fastforce
    with Some have bounds: "i < e" "e \<le> length s" and app: "findFrameBoundary (s @ t) = Some (i, e)"
      using boundary_bounds boundary_append by blast+
    have IH: "cut_frames (drop e s @ t) = (case cut_frames (drop e s) of (frames, rest) \<Rightarrow>
        (case cut_frames (rest @ t) of (frames', rest') \<Rightarrow> (frames @ frames', rest')))"
      using "1.IH" [OF _ refl] Some b by blast
    have s: "cut_frames s = (case cut_frames (drop e s) of (frames, rest) \<Rightarrow>
        ((case parseFrame (take i s) of None \<Rightarrow> frames | Some f \<Rightarrow> f # frames), rest))"
      by (subst cut_frames.simps) (simp add: Some b)
    have "cut_frames (s @ t) = (case cut_frames (drop e s @ t) of (frames, rest) \<Rightarrow>
        ((case parseFrame (take i s) of None \<Rightarrow> frames | Some f \<Rightarrow> f # frames), rest))"
      using bounds by (subst cut_frames.simps) (simp add: app)
    then show ?thesis unfolding s IH by (auto split: prod.split option.split)
  qed
qed

lemma cut_frames_rest: "cut_frames s = (frames, rest) \<Longrightarrow> cut_frames rest = ([], rest)"
proof (induction s arbitrary: frames rule: cut_frames.induct)
  case (1 s)
  show ?case
  proof (cases "findFrameBoundary s")
    case None
    with "1.prems" have "rest = s" by (simp add: cut_frames.simps)
    with None show ?thesis by (simp add: cut_frames.simps)
  next
    case (Some b)
    obtain i e where b: "b = (i, e)" by fastforce
    obtain fs where "cut_frames (drop e s) = (fs, rest)"
      using "1.prems" Some b by (subst (asm) cut_frames.simps) (auto split: prod.splits)
    with "1.IH" [OF _ refl] Some b show ?thesis by blast
  qed
qed

lemma read_chunks_concat:
  assumes "cut_frames buffer = ([], buffer)"
  shows "read_chunks cs buffer = cut_frames (buffer @ concat cs)"
  using assms
proof (induction cs arbitrary: buffer)
  case (Cons c cs)
  obtain fs b where c: "cut_frames (buffer @ c) = (fs, b)" by fastforce
  from Cons.IH [OF cut_frames_rest [OF c]] cut_frames_append [of "buffer @ c" "concat cs"] c
  show ?case by (auto split: prod.split)
qed simp

lemma cut_frames_Nil [simp]: "cut_frames [] = ([], [])"
  by (subst cut_frames.simps) (simp add: findFrameBoundary_def)

text \<open>
  C12: Chunks do not matter. However the network cuts the body into chunks, between any two
  characters, inside a separator or inside a field, the parser yields the frames it yields for
  the whole body at once.
\<close>

theorem chunks_do_not_matter: "parseSseStream chunks flush = parseSseStream [concat chunks] flush"
  by (simp add: parseSseStream_def read_chunks_concat)

section \<open>Blocks of lines\<close>

text \<open>A block of the format: lines without line breaks, none empty, closed by an empty line.\<close>

definition plain_text :: "string \<Rightarrow> bool" where
  "plain_text s \<longleftrightarrow> LF \<notin> set s \<and> CR \<notin> set s"

definition block_text :: "string list \<Rightarrow> string" where
  "block_text ls = join_lines ls @ [LF, LF]"

lemma split_plain: "plain_text l \<Longrightarrow> split_lines acc (l @ LF # s) = (acc @ l) # split_lines [] s"
proof (induction l arbitrary: acc)
  case (Cons c l)
  then show ?case by (auto simp: plain_text_def)
qed simp

lemma split_plain_end: "plain_text l \<Longrightarrow> split_lines acc l = [acc @ l]"
proof (induction l arbitrary: acc)
  case (Cons c l)
  then show ?case by (auto simp: plain_text_def)
qed simp

lemma split_join: "list_all plain_text ls \<Longrightarrow> ls \<noteq> [] \<Longrightarrow> split_lines [] (join_lines ls) = ls"
  by (induction ls rule: join_lines.induct) (simp_all add: split_plain split_plain_end)

lemma no_CR_join: "list_all plain_text ls \<Longrightarrow> CR \<notin> set (join_lines ls)"
  by (induction ls rule: join_lines.induct) (auto simp: plain_text_def)

lemma no_empty_line:
  assumes "list_all (\<lambda>l. plain_text l \<and> l \<noteq> []) ls" and "ls \<noteq> []" and "j < length (join_lines ls)"
  shows "\<not> starts_with [LF, LF] (drop j (join_lines ls @ LF # s))"
  using assms
proof (induction ls arbitrary: j rule: join_lines.induct)
  case (2 l)
  then have "drop j (join_lines [l] @ LF # s) ! 0 \<noteq> LF"
    by (auto simp: plain_text_def nth_append) (metis nth_mem)
  moreover have "drop j (join_lines [l] @ LF # s) \<noteq> []" using 2 by simp
  ultimately show ?case by (cases "drop j (join_lines [l] @ LF # s)") (auto simp: starts_with_def)
next
  case (3 l m ls)
  let ?rest = "join_lines (m # ls)"
  have m: "?rest \<noteq> []" "hd ?rest \<noteq> LF" using "3.prems"(1) by (cases ls; cases m; auto simp: plain_text_def)+
  consider "j < length l" | "j = length l" | "length l < j" by linarith
  then show ?case
  proof cases
    case 1
    then have "drop j (join_lines (l # m # ls) @ LF # s) ! 0 \<noteq> LF"
      using "3.prems"(1) by (auto simp: plain_text_def nth_append) (metis nth_mem)
    with 1 show ?thesis by (cases "drop j (join_lines (l # m # ls) @ LF # s)") (auto simp: starts_with_def)
  next
    case 2
    with m show ?thesis by (cases ?rest) (auto simp: starts_with_def)
  next
    case 3
    then obtain k where k: "j = length l + 1 + k" using less_imp_Suc_add [of "length l" j] by auto
    with "3.prems"(3) have "k < length ?rest" by simp
    with k "3.IH" [of k] "3.prems"(1) show ?thesis by simp
  qed
qed simp

lemma block_boundary:
  assumes "list_all (\<lambda>l. plain_text l \<and> l \<noteq> []) ls" and "ls \<noteq> []"
  shows "findFrameBoundary (block_text ls @ s) = Some (length (join_lines ls), length (join_lines ls) + 2)"
proof -
  let ?t = "join_lines ls" and ?w = "[CR, LF, CR, LF]"
  have u: "index_of [LF, LF] (block_text ls @ s) = Some (length ?t)"
    using no_empty_line [OF assms, of _ "LF # s"] by (intro index_of_eqI) (simp_all add: block_text_def starts_with_def)
  have "length ?t < w" if w: "index_of ?w (block_text ls @ s) = Some w" for w
  proof (rule ccontr)
    assume *: "\<not> ?thesis"
    have cr: "(block_text ls @ s) ! (w + 0) = CR"
      using starts_with_nth [OF conjunct1 [OF index_of_Some [OF w]], of 0] by simp
    have "CR \<notin> set ?t" using assms(1) by (intro no_CR_join) (auto simp: list_all_iff)
    with cr * show False
      by (cases "w < length ?t") (auto simp: block_text_def nth_append dest: nth_mem)
  qed
  with u show ?thesis by (auto simp: findFrameBoundary_def split: option.split)
qed

lemma cut_block:
  assumes "list_all (\<lambda>l. plain_text l \<and> l \<noteq> []) ls" and "ls \<noteq> []"
  shows "cut_frames (block_text ls @ s) = (case cut_frames s of (frames, rest) \<Rightarrow>
    ((case parseFrame (join_lines ls) of None \<Rightarrow> frames | Some f \<Rightarrow> f # frames), rest))"
  by (subst cut_frames.simps) (simp add: block_boundary [OF assms], simp add: block_text_def)

end
