(* ===== verification/EventStream.thy ===== *)
theory EventStream
  imports ThreadHistory ServerSentEvents
begin

text \<open>
  The live item stream of a thread: the broadcasting Chronicle
  (\<open>apps/bee/src/broadcasting-store.ts\<close>), the handler of \<open>GET /threads/:id/items\<close>
  (\<open>apps/bee/src/routes/threads.ts\<close>) and the client that reads its answer
  (\<open>packages/client/src/client.ts\<close>). Appends, the replay, wake-ups, heartbeats and the end of the
  connection interleave at the handler's two awaits. \<open>JSON.stringify\<close> of an event is the parameter
  \<open>json\<close>, \<open>JSON.parse\<close> with the schema of events the parameter \<open>decode\<close>.
\<close>

section \<open>The handler\<close>

datatype stream_write = EventFrame thread_event | Heartbeat

text \<open>
  Where the handler is: before the snapshot of the replay, with the page in hand, or in its
  loop over the queue.
\<close>

datatype stream_pc = Subscribed | PageRead "thread_event list" | Following

record stream_conn =
  cn_threadId :: string
  cn_watermark :: int
  cn_closed :: bool
  cn_queue :: "thread_event list"
  cn_pc :: stream_pc
  cn_writes :: "stream_write list"

text \<open>\<open>after\<close> is what the handler takes from the header or the query, never negative.\<close>

definition stream_open :: "string \<Rightarrow> int \<Rightarrow> stream_conn" where
  "stream_open threadId after = \<lparr>cn_threadId = threadId, cn_watermark = max 0 after, cn_closed = False,
     cn_queue = [], cn_pc = Subscribed, cn_writes = []\<rparr>"

definition stream_send :: "thread_event \<Rightarrow> stream_conn \<Rightarrow> stream_conn" where
  "stream_send e c =
     (if te_sequence e \<le> cn_watermark c then c
      else c\<lparr>cn_watermark := te_sequence e, cn_writes := cn_writes c @ [EventFrame e]\<rparr>)"

text \<open>The listener on appends: an event that is no thread event makes it throw.\<close>

fun enqueue :: "zod \<Rightarrow> int \<Rightarrow> payload chronicle_event list \<Rightarrow> thread_event list \<Rightarrow> thread_event list" where
  "enqueue z watermark [] queue = queue"
| "enqueue z watermark (e # es) queue =
     (case threadEventFromChronicle z e of
        Inl err \<Rightarrow> queue
      | Inr w \<Rightarrow> enqueue z watermark es (if watermark < te_sequence w then queue @ [w] else queue))"

definition on_append :: "zod \<Rightarrow> string \<Rightarrow> payload chronicle_event list \<Rightarrow> stream_conn \<Rightarrow> stream_conn" where
  "on_append z streamId es c =
     (if cn_closed c \<or> streamId \<noteq> threadStreamId (cn_threadId c) then c
      else c\<lparr>cn_queue := enqueue z (cn_watermark c) es (cn_queue c)\<rparr>)"

definition stream_finish :: "stream_conn \<Rightarrow> stream_conn" where
  "stream_finish c = c\<lparr>cn_closed := True\<rparr>"

text \<open>The append of the broadcasting store, with the listener of one connection.\<close>

definition broadcast_append :: "zod \<Rightarrow> ('s, payload) chronicle_ops \<Rightarrow> string \<Rightarrow> string \<Rightarrow> payload new_event list \<Rightarrow>
    int \<Rightarrow> 's \<times> stream_conn \<Rightarrow> ('s \<times> stream_conn) \<times> (chronicle_error + payload chronicle_event list)" where
  "broadcast_append z ops now sid evs expected sc =
     (case sc of (s, c) \<Rightarrow>
        (case op_append ops now sid evs expected s of
           (s', Inl err) \<Rightarrow> ((s', c), Inl err)
         | (s', Inr es) \<Rightarrow> ((s', if es \<noteq> [] then on_append z sid es c else c), Inr es)))"

text \<open>What can happen next; \<open>None\<close> when it cannot happen here.\<close>

datatype stream_action =
    AppendFacts string string "thread_fact list" int
  | ReadPage
  | ContinueReplay
  | Wake
  | Beat
  | Disconnect

fun stream_do :: "zod \<Rightarrow> ('s, payload) chronicle_ops \<Rightarrow> stream_action \<Rightarrow> 's \<times> stream_conn \<Rightarrow> ('s \<times> stream_conn) option" where
  "stream_do z ops (AppendFacts now t fs expected) sc =
     Some (fst (broadcast_append z ops now (threadStreamId t) (map (fact_event t) fs) expected sc))"
| "stream_do z ops ReadPage (s, c) =
     (if cn_pc c \<noteq> Subscribed then None
      else case readThreadEvents z ops (cn_threadId c) (Some (cn_watermark c)) None s of
        Inl err \<Rightarrow> Some (s, stream_finish (c\<lparr>cn_pc := Following\<rparr>))
      | Inr page \<Rightarrow> Some (s, c\<lparr>cn_pc := PageRead (pg_events page)\<rparr>))"
| "stream_do z ops ContinueReplay (s, c) =
     (case cn_pc c of
        PageRead es \<Rightarrow>
          if cn_closed c then Some (s, stream_finish (c\<lparr>cn_pc := Following\<rparr>))
          else Some (s, (fold stream_send (es @ cn_queue c) c)\<lparr>cn_queue := [], cn_pc := Following\<rparr>)
      | _ \<Rightarrow> None)"
| "stream_do z ops Wake (s, c) =
     (if cn_pc c \<noteq> Following \<or> cn_closed c then None
      else Some (s, (fold stream_send (cn_queue c) c)\<lparr>cn_queue := []\<rparr>))"
| "stream_do z ops Beat (s, c) =
     (if cn_closed c then None else Some (s, c\<lparr>cn_writes := cn_writes c @ [Heartbeat]\<rparr>))"
| "stream_do z ops Disconnect (s, c) = Some (s, stream_finish c)"

fun stream_run :: "zod \<Rightarrow> ('s, payload) chronicle_ops \<Rightarrow> stream_action list \<Rightarrow> 's \<times> stream_conn \<Rightarrow> ('s \<times> stream_conn) option" where
  "stream_run z ops [] sc = Some sc"
| "stream_run z ops (a # as) sc = Option.bind (stream_do z ops a sc) (stream_run z ops as)"

text \<open>The bytes of the writes.\<close>

fun write_text :: "(thread_event \<Rightarrow> string) \<Rightarrow> stream_write \<Rightarrow> string" where
  "write_text json (EventFrame e) = ''id: '' @ int_string (te_sequence e) @ [LF] @ ''event: '' @
     thread_event_name (te_kind e) @ [LF] @ ''data: '' @ json e @ [LF, LF]"
| "write_text json Heartbeat = '': heartbeat'' @ [LF, LF]"

definition body_text :: "(thread_event \<Rightarrow> string) \<Rightarrow> stream_conn \<Rightarrow> string" where
  "body_text json c = concat (map (write_text json) (cn_writes c))"

section \<open>The client\<close>

text \<open>\<open>streamItems\<close>: the events it yields, and whether it throws on a frame.\<close>

fun client_items :: "(string \<Rightarrow> thread_event option) \<Rightarrow> sse_frame list \<Rightarrow> thread_event list \<times> bool" where
  "client_items decode [] = ([], False)"
| "client_items decode (f # fs) =
     (if fr_data f = [] then client_items decode fs
      else case decode (fr_data f) of
        None \<Rightarrow> ([], True)
      | Some e \<Rightarrow> (case client_items decode fs of (es, failed) \<Rightarrow> (e # es, failed)))"

definition streamItems :: "(string \<Rightarrow> thread_event option) \<Rightarrow> string list \<Rightarrow> string \<Rightarrow> thread_event list \<times> bool" where
  "streamItems decode chunks flush = client_items decode (parseSseStream chunks flush)"

text \<open>
  What is known of \<open>JSON.stringify\<close> on an event: its text has no line break (control characters
  are escaped), is not empty, and parses back.
\<close>

definition json_ok :: "(thread_event \<Rightarrow> string) \<Rightarrow> (string \<Rightarrow> thread_event option) \<Rightarrow> thread_event \<Rightarrow> bool" where
  "json_ok json decode e \<longleftrightarrow> plain_text (json e) \<and> json e \<noteq> [] \<and> decode (json e) = Some e"

section \<open>The client reads what the handler wrote\<close>

fun sent_events :: "stream_write list \<Rightarrow> thread_event list" where
  "sent_events [] = []"
| "sent_events (EventFrame e # ws) = e # sent_events ws"
| "sent_events (Heartbeat # ws) = sent_events ws"

lemma sent_events_append [simp]: "sent_events (a @ b) = sent_events a @ sent_events b"
  by (induction a rule: sent_events.induct) simp_all

definition frame_of :: "(thread_event \<Rightarrow> string) \<Rightarrow> thread_event \<Rightarrow> sse_frame" where
  "frame_of json e = \<lparr>fr_id = Some (int_string (te_sequence e)), fr_event = Some (thread_event_name (te_kind e)),
     fr_data = json e\<rparr>"

lemma digits_plain: "list_all is_digit s \<Longrightarrow> plain_text s"
  by (auto simp: plain_text_def list_all_iff is_digit_def)

lemma int_string_plain: "plain_text (int_string n)"
  using digits_plain [OF nat_string_digits] by (auto simp: int_string_def plain_text_def)

lemma thread_event_name_plain: "plain_text (thread_event_name k)"
  by (cases k) (simp_all add: plain_text_def)

lemma plain_append [simp]: "plain_text (a @ b) \<longleftrightarrow> plain_text a \<and> plain_text b"
  by (auto simp: plain_text_def)

lemma frame_text:
  "write_text json (EventFrame e) = block_text [''id: '' @ int_string (te_sequence e),
     ''event: '' @ thread_event_name (te_kind e), ''data: '' @ json e]"
  "write_text json Heartbeat = block_text ['': heartbeat'']"
  by (simp_all add: block_text_def)

lemma parse_event_frame:
  assumes "plain_text (json e)"
  shows "parseFrame (join_lines [''id: '' @ int_string (te_sequence e), ''event: '' @ thread_event_name (te_kind e),
     ''data: '' @ json e]) = Some (frame_of json e)"
proof -
  let ?ls = "[''id: '' @ int_string (te_sequence e), ''event: '' @ thread_event_name (te_kind e), ''data: '' @ json e]"
  have *: "plain_text ''id: ''" "plain_text ''event: ''" "plain_text ''data: ''" by (simp_all add: plain_text_def)
  then have "split_lines [] (join_lines ?ls) = ?ls"
    using assms int_string_plain thread_event_name_plain by (intro split_join) (simp_all del: append.simps)
  moreover have "field_of (''id: '' @ v) = (''id'', v)" "field_of (''event: '' @ v) = (''event'', v)"
    "field_of (''data: '' @ v) = (''data'', v)" for v
    by (simp_all add: field_of_def starts_with_def Let_def)
  ultimately show ?thesis
    by (simp add: parseFrame_def frame_line_def frame_of_def starts_with_def)
qed

lemma parse_heartbeat: "parseFrame (join_lines ['': heartbeat'']) = None"
  by (simp add: parseFrame_def frame_line_def starts_with_def)

lemma cut_writes:
  "list_all (\<lambda>e. plain_text (json e)) (sent_events ws) \<Longrightarrow>
   cut_frames (concat (map (write_text json) ws)) = (map (frame_of json) (sent_events ws), [])"
proof (induction ws)
  case (Cons w ws)
  show ?case
  proof (cases w)
    case (EventFrame e)
    let ?ls = "[''id: '' @ int_string (te_sequence e), ''event: '' @ thread_event_name (te_kind e), ''data: '' @ json e]"
    from Cons.prems EventFrame have e: "plain_text (json e)"
      and rest: "list_all (\<lambda>e. plain_text (json e)) (sent_events ws)" by simp_all
    have "list_all (\<lambda>l. plain_text l \<and> l \<noteq> []) ?ls"
      using e int_string_plain thread_event_name_plain by (simp add: plain_text_def)
    from cut_block [OF this] Cons.IH [OF rest] parse_event_frame [of json e] e show ?thesis
      by (simp add: EventFrame frame_text del: write_text.simps join_lines.simps append.simps)
  next
    case Heartbeat
    have "list_all (\<lambda>l. plain_text l \<and> l \<noteq> []) ['': heartbeat'']" by (simp add: plain_text_def)
    from cut_block [OF this] Cons Heartbeat parse_heartbeat show ?thesis
      by (simp add: frame_text del: write_text.simps join_lines.simps append.simps)
  qed
qed simp

lemma client_frames:
  "list_all (json_ok json decode) es \<Longrightarrow> client_items decode (map (frame_of json) es) = (es, False)"
  by (induction es) (simp_all add: json_ok_def frame_of_def)

lemma client_reads_writes:
  assumes "list_all (json_ok json decode) (sent_events (cn_writes c))" and "concat chunks = body_text json c"
  shows "streamItems decode chunks [] = (sent_events (cn_writes c), False)"
proof -
  have plain: "list_all (\<lambda>e. plain_text (json e)) (sent_events (cn_writes c))"
    using assms(1) by (simp add: list_all_iff json_ok_def)
  have "parseFrame [] = None" by (simp add: parseFrame_def frame_line_def)
  with cut_writes [OF plain] have "parseSseStream chunks [] = map (frame_of json) (sent_events (cn_writes c))"
    by (simp add: parseSseStream_def read_chunks_concat assms(2) body_text_def)
  with client_frames [OF assms(1)] show ?thesis by (simp add: streamItems_def)
qed

section \<open>What a queue can deliver\<close>

text \<open>
  A queue is progressive from \<open>b\<close> when none of its sequences skips one: each is at most one more
  than the greatest before it. Sending it from the watermark \<open>b\<close> leads to its peak.
\<close>

fun progressive :: "int \<Rightarrow> int list \<Rightarrow> bool" where
  "progressive b [] \<longleftrightarrow> True"
| "progressive b (x # xs) \<longleftrightarrow> x \<le> b + 1 \<and> progressive (max b x) xs"

definition peak :: "int \<Rightarrow> int list \<Rightarrow> int" where
  "peak b xs = foldl max b xs"

lemma peak_simps [simp]: "peak b [] = b" "peak b (x # xs) = peak (max b x) xs"
  by (simp_all add: peak_def)

lemma peak_append [simp]: "peak b (xs @ ys) = peak (peak b xs) ys"
  by (simp add: peak_def)

lemma progressive_append [simp]: "progressive b (xs @ ys) \<longleftrightarrow> progressive b xs \<and> progressive (peak b xs) ys"
  by (induction xs arbitrary: b) auto

lemma peak_ge: "b \<le> peak b xs"
proof (induction xs arbitrary: b)
  case (Cons x xs)
  from Cons.IH [of "max b x"] show ?case by simp
qed simp

lemma below_peak: "list_all (\<lambda>x. x \<le> b) xs \<Longrightarrow> progressive b xs \<and> peak b xs = b"
  by (induction xs) (auto simp: max_def)

lemma progressive_upto:
  "n \<le> t + 1 \<Longrightarrow> n \<le> m + 1 \<Longrightarrow> w \<le> t \<Longrightarrow>
   progressive t (filter (\<lambda>x. w < x) [n..m]) \<and> peak t (filter (\<lambda>x. w < x) [n..m]) = max t m"
proof (induction "nat (m + 1 - n)" arbitrary: n t)
  case (Suc k)
  then have "n \<le> m" by simp
  then have up: "[n..m] = n # [n + 1..m]" by (simp add: upto_rec1)
  have k: "k = nat (m + 1 - (n + 1))" using Suc.hyps(2) by simp
  show ?case
  proof (cases "w < n")
    case True
    with Suc.hyps(1) [OF k, of "max t n"] Suc.prems \<open>n \<le> m\<close> show ?thesis by (simp add: up)
  next
    case False
    with Suc.hyps(1) [OF k, of t] Suc.prems \<open>n \<le> m\<close> show ?thesis by (simp add: up)
  qed
qed simp

lemma enqueue_wires:
  "map (toThreadEvent z) es = map Inr ws \<Longrightarrow> enqueue z m es q = q @ filter (\<lambda>w. m < te_sequence w) ws"
proof (induction es arbitrary: ws q)
  case (Cons e es)
  then obtain w ws' where ws: "ws = w # ws'" "toThreadEvent z e = Inr w" "map (toThreadEvent z) es = map Inr ws'"
    by (cases ws) auto
  from Cons.IH [OF ws(3)] show ?case by (simp add: ws threadEventFromChronicle_def)
qed simp

lemma number_events_seqs: "map te_sequence (number_events t n fs) = [n..n + int (length fs) - 1]"
proof (induction fs arbitrary: n)
  case (Cons f fs)
  have "[n..n + int (length (f # fs)) - 1] = n # [n + 1..n + 1 + int (length fs) - 1]" by (simp add: upto_rec1)
  with Cons.IH [of "n + 1"] show ?case by (simp add: wire_event_def)
qed simp

text \<open>An event of the thread is the wire event at its sequence.\<close>

definition in_thread :: "thread_event list \<Rightarrow> thread_event \<Rightarrow> bool" where
  "in_thread ws e \<longleftrightarrow> (\<exists>i<length ws. e = ws ! i \<and> te_sequence e = int i + 1)"

lemma in_thread_number: "e \<in> set (number_events t 1 fs) \<Longrightarrow> in_thread (number_events t 1 fs) e"
  by (auto simp: in_thread_def in_set_conv_nth number_events_sequence)

lemma in_thread_append: "in_thread ws e \<Longrightarrow> in_thread (ws @ vs) e"
  by (auto simp: in_thread_def nth_append)

text \<open>Sending from a watermark that matches what was sent keeps it matching.\<close>

definition sent_upto :: "thread_event list \<Rightarrow> nat \<Rightarrow> nat \<Rightarrow> stream_conn \<Rightarrow> bool" where
  "sent_upto ws a k c \<longleftrightarrow> sent_events (cn_writes c) = take k (drop a ws) \<and> cn_watermark c = int (a + k) \<and>
     k \<le> length ws - a"

lemma stream_send_sel [simp]:
  "cn_closed (stream_send e c) = cn_closed c" "cn_threadId (stream_send e c) = cn_threadId c"
  "cn_pc (stream_send e c) = cn_pc c" "cn_queue (stream_send e c) = cn_queue c"
  by (simp_all add: stream_send_def)

lemma folded_send_sel [simp]:
  "cn_closed (fold stream_send es c) = cn_closed c" "cn_threadId (fold stream_send es c) = cn_threadId c"
  by (induction es arbitrary: c) simp_all

lemma send_upto:
  "sent_upto ws a k c \<Longrightarrow> list_all (in_thread ws) es \<Longrightarrow> progressive (cn_watermark c) (map te_sequence es) \<Longrightarrow>
   \<exists>k'. sent_upto ws a k' (fold stream_send es c) \<and> int (a + k') = peak (cn_watermark c) (map te_sequence es)"
proof (induction es arbitrary: c k)
  case (Cons e es)
  show ?case
  proof (cases "te_sequence e \<le> cn_watermark c")
    case True
    then have "stream_send e c = c" "max (cn_watermark c) (te_sequence e) = cn_watermark c" by (simp_all add: stream_send_def)
    with Cons.IH [OF Cons.prems(1)] Cons.prems(2,3) show ?thesis by simp
  next
    case False
    from Cons.prems(2) obtain i where i: "i < length ws" "e = ws ! i" "te_sequence e = int i + 1" by (auto simp: in_thread_def)
    from Cons.prems(1) have c: "sent_events (cn_writes c) = take k (drop a ws)" "cn_watermark c = int (a + k)"
      by (simp_all add: sent_upto_def)
    from Cons.prems(3) False i c have ik: "i = a + k" by simp
    then have "take (Suc k) (drop a ws) = take k (drop a ws) @ [e]"
      using i by (simp add: take_Suc_conv_app_nth)
    with c False i ik have "sent_upto ws a (Suc k) (stream_send e c)"
      by (simp add: sent_upto_def stream_send_def)
    from Cons.IH [OF this] Cons.prems(2,3) False show ?thesis by (simp add: stream_send_def max_def)
  qed
qed (auto simp: sent_upto_def)

lemma sent_upto_append:
  assumes "sent_upto ws a k c"
  shows "sent_upto (ws @ vs) a k c"
  using assms by (auto simp: sent_upto_def)

section \<open>No event is lost or repeated\<close>

abbreviation seqs :: "thread_event list \<Rightarrow> int list" where
  "seqs \<equiv> map te_sequence"

text \<open>
  The invariant of a connection opened after \<open>a\<close>, when the thread holds \<open>ws\<close>: what was sent is
  a prefix of what is due; and while it is open, the page in hand and the queue lead from the
  watermark to the last event.
\<close>

definition conn_inv :: "string \<Rightarrow> nat \<Rightarrow> thread_event list \<Rightarrow> stream_conn \<Rightarrow> bool" where
  "conn_inv threadId a ws c \<longleftrightarrow> cn_threadId c = threadId \<and> (\<exists>k. sent_upto ws a k c \<and>
     (\<not> cn_closed c \<longrightarrow> list_all (in_thread ws) (cn_queue c) \<and>
       (case cn_pc c of
          Subscribed \<Rightarrow> k = 0
        | PageRead p \<Rightarrow> k = 0 \<and> list_all (in_thread ws) p \<and> progressive (int a) (seqs (p @ cn_queue c)) \<and>
            peak (int a) (seqs (p @ cn_queue c)) = max (int a) (int (length ws))
        | Following \<Rightarrow> progressive (cn_watermark c) (seqs (cn_queue c)) \<and>
            peak (cn_watermark c) (seqs (cn_queue c)) = max (int a) (int (length ws)))))"

lemma conn_inv_open: "conn_inv threadId (nat after) ws (stream_open threadId after)"
  by (simp add: conn_inv_def stream_open_def sent_upto_def)

lemma conn_inv_sends:
  assumes "sent_upto ws a k c" and "list_all (in_thread ws) es" and "progressive (cn_watermark c) (seqs es)"
    and "peak (cn_watermark c) (seqs es) = max (int a) (int (length ws))" and "cn_threadId c = threadId" and "\<not> cn_closed c"
  shows "conn_inv threadId a ws ((fold stream_send es c)\<lparr>cn_queue := [], cn_pc := Following\<rparr>)"
proof -
  from send_upto [OF assms(1-3)] obtain k' where k': "sent_upto ws a k' (fold stream_send es c)"
    "int (a + k') = max (int a) (int (length ws))" using assms(4) by auto
  then have "cn_watermark (fold stream_send es c) = max (int a) (int (length ws))" by (simp add: sent_upto_def)
  with k' assms(5,6) show ?thesis
    by (auto simp: conn_inv_def sent_upto_def intro!: exI [of _ k'])
qed

lemma conn_inv_append:
  assumes "conn_inv threadId a ws c" and "map (toThreadEvent z) es = map Inr vs" and "list_all (in_thread (ws @ new)) vs"
    and "\<And>w. w \<le> max (int a) (int (length ws)) \<Longrightarrow>
      progressive (max (int a) (int (length ws))) (filter (\<lambda>x. w < x) (seqs vs)) \<and>
      peak (max (int a) (int (length ws))) (filter (\<lambda>x. w < x) (seqs vs)) = max (int a) (int (length (ws @ new)))"
  shows "conn_inv threadId a (ws @ new) (on_append z (threadStreamId threadId) es c)"
proof -
  from assms(1) obtain k where k: "sent_upto ws a k c" and id: "cn_threadId c = threadId" by (auto simp: conn_inv_def)
  let ?q = "filter (\<lambda>w. cn_watermark c < te_sequence w) vs"
  have wm: "cn_watermark c \<le> max (int a) (int (length ws))" using k by (auto simp: sent_upto_def)
  have seqs: "seqs ?q = filter (\<lambda>x. cn_watermark c < x) (seqs vs)" by (simp add: filter_map o_def)
  have new: "list_all (in_thread (ws @ new)) ?q" "list_all (in_thread ws) es \<Longrightarrow> list_all (in_thread (ws @ new)) es" for es
    using assms(3) by (auto simp: list_all_iff in_thread_append)
  have sent: "sent_upto (ws @ new) a k c" if "sent_upto ws a k c" for k using sent_upto_append [OF that] .
  note prog = assms(4) [OF wm, folded seqs]
  show ?thesis
  proof (cases "cn_closed c")
    case True
    with assms(1) sent show ?thesis by (auto simp: conn_inv_def on_append_def)
  next
    case False
    have "on_append z (threadStreamId threadId) es c = c\<lparr>cn_queue := cn_queue c @ ?q\<rparr>"
      using False id enqueue_wires [OF assms(2)] by (simp add: on_append_def)
    with False assms(1) sent prog new show ?thesis
      by (cases "cn_pc c") (auto simp: conn_inv_def sent_upto_def)
  qed
qed

lemma page_progress:
  "progressive (int a) (seqs (drop a (number_events t 1 fs))) \<and>
   peak (int a) (seqs (drop a (number_events t 1 fs))) = max (int a) (int (length fs))"
proof (cases "a \<le> length fs")
  case True
  have "seqs (drop a (number_events t 1 fs)) = [int a + 1..int (length fs)]"
    using True by (simp add: drop_number_events number_events_seqs add.commute of_nat_diff)
  moreover have "filter (\<lambda>x. int a < x) [int a + 1..int (length fs)] = [int a + 1..int (length fs)]"
    by (simp add: filter_id_conv)
  ultimately show ?thesis using progressive_upto [of "int a + 1" "int a" "int (length fs)" "int a"] True by simp
qed simp

fun stream_action_ok :: "zod \<Rightarrow> stream_action \<Rightarrow> bool" where
  "stream_action_ok z (AppendFacts now t fs expected) \<longleftrightarrow> z_datetime z now \<and> z_uuid z t \<and> min1 t \<and> list_all (fact_ok z) fs"
| "stream_action_ok z a \<longleftrightarrow> True"

text \<open>The three ways an append of accepted events ends.\<close>

lemma spec_append_cases:
  assumes "spec_append z r now sid evs expected v = (v', res)" and "list_all (event_accepted z r) evs"
  shows "(v' = v \<and> (res = Inr [] \<or> (\<exists>err. res = Inl err))) \<or>
    (v' = v(sid := v sid @ stamp sid now (int (length (v sid)) + 1) evs) \<and>
      res = Inr (stamp sid now (int (length (v sid)) + 1) evs) \<and> evs \<noteq> []) \<or>
    (\<exists>d. v' = v \<and> res = Inr (take (length evs) (drop d (v sid))) \<and> res \<noteq> Inr [])"
proof (cases "evs = [] \<or> expected = int (length (v sid)) + 1")
  case True
  have "validate_all z r evs = Inr ()" using assms(2) validate_all_Inr by blast
  with True assms(1) show ?thesis by (cases "evs = []") (simp_all add: spec_append_def Let_def)
next
  case False
  let ?old = "take (length evs) (drop (nat (expected - 1)) (v sid))"
  have "validate_all z r evs = Inr ()" using assms(2) validate_all_Inr by blast
  with False assms(1) have "v' = v \<and> (res = Inr ?old \<or> (\<exists>err. res = Inl err))"
    by (auto simp: spec_append_def Let_def split: if_splits)
  then show ?thesis by blast
qed

context host_chronicle
begin

lemma broadcast_facts:
  assumes "inv s" and ok: "z_datetime z now" "z_uuid z threadId" "min1 threadId" "list_all (fact_ok z) gs"
    and facts: "stores_facts z threadId fs (view s (threadStreamId threadId))"
    and conn: "conn_inv threadId a (number_events threadId 1 fs) c"
    and step: "fst (broadcast_append z ops now (threadStreamId threadId) (map (fact_event threadId) gs) expected (s, c)) = (s', c')"
  shows "inv s' \<and> (\<exists>fs'. stores_facts z threadId fs' (view s' (threadStreamId threadId)) \<and>
    conn_inv threadId a (number_events threadId 1 fs') c')"
proof -
  let ?sid = "threadStreamId threadId" and ?evs = "map (fact_event threadId) gs" and ?ws = "number_events threadId 1 fs"
  let ?v = "view s ?sid" and ?t = "max (int a) (int (length fs))"
  obtain r where app: "op_append ops now ?sid ?evs expected s = (s', r)"
    and c': "c' = (case r of Inl err \<Rightarrow> c | Inr es \<Rightarrow> if es \<noteq> [] then on_append z ?sid es c else c)"
    using step by (cases "op_append ops now ?sid ?evs expected s") (auto simp: broadcast_append_def split: sum.splits)
  note ref = append_refines [OF assms(1) ok(1) stream_ids_nonempty(2) app]
  then have inv': "inv s'" and spec: "spec_append z (host_registry z) now ?sid ?evs expected (view s) = (view s', r)" by simp_all
  have acc: "list_all (event_accepted z (host_registry z)) ?evs"
    using ok by (auto simp: list_all_iff intro: fact_event_ok)
  have len: "length ?v = length fs" using stores_facts_length [OF facts] .
  from spec_append_cases [OF spec acc] consider (same) "view s' = view s" "r = Inr [] \<or> (\<exists>err. r = Inl err)"
    | (new) "view s' = (view s)(?sid := ?v @ stamp ?sid now (int (length ?v) + 1) ?evs)"
        "r = Inr (stamp ?sid now (int (length ?v) + 1) ?evs)" "gs \<noteq> []"
    | (again) d where "view s' = view s" "r = Inr (take (length gs) (drop d ?v))" "r \<noteq> Inr []"
    unfolding length_map map_is_Nil_conv by blast
  then show ?thesis
  proof cases
    case same
    then have "c' = c" using c' by auto
    with same inv' facts conn show ?thesis by auto
  next
    case new
    let ?vs = "number_events threadId (int (length fs) + 1) gs"
    have vs: "number_events threadId 1 (fs @ gs) = ?ws @ ?vs" by (simp add: number_events_append add.commute)
    have "conn_inv threadId a (?ws @ ?vs) (on_append z ?sid (stamp ?sid now (int (length ?v) + 1) ?evs) c)"
    proof (rule conn_inv_append [OF conn])
      show "map (toThreadEvent z) (stamp ?sid now (int (length ?v) + 1) ?evs) = map Inr ?vs"
        unfolding len using stamp_facts [OF ok(4,2)] by simp
      have "in_thread (?ws @ ?vs) x" if "x \<in> set ?vs" for x
        using in_thread_number [of x threadId "fs @ gs"] that by (simp add: vs)
      then show "list_all (in_thread (?ws @ ?vs)) ?vs" by (simp add: list_all_iff)
      show "progressive (max (int a) (int (length ?ws))) (filter (\<lambda>x. w < x) (seqs ?vs)) \<and>
          peak (max (int a) (int (length ?ws))) (filter (\<lambda>x. w < x) (seqs ?vs)) = max (int a) (int (length (?ws @ ?vs)))"
        if "w \<le> max (int a) (int (length ?ws))" for w
        using progressive_upto [of "int (length fs) + 1" ?t "int (length fs + length gs)" w] that
        by (simp add: number_events_seqs max.assoc)
    qed
    with new c' stores_facts_append [OF facts ok(4,2), of ?sid now] inv' len show ?thesis
      by (intro conjI exI [of _ "fs @ gs"]) (simp_all add: vs)
  next
    case again
    let ?vs = "take (length gs) (drop d ?ws)"
    have "conn_inv threadId a (?ws @ []) (on_append z ?sid (take (length gs) (drop d ?v)) c)"
    proof (rule conn_inv_append [OF conn])
      show "map (toThreadEvent z) (take (length gs) (drop d ?v)) = map Inr ?vs"
        using facts by (simp add: stores_facts_def flip: drop_map take_map)
      show ws: "list_all (in_thread (?ws @ [])) ?vs"
        by (auto simp: list_all_iff dest!: in_set_takeD in_set_dropD intro: in_thread_number)
      then have "list_all (\<lambda>x. x \<le> max (int a) (int (length ?ws))) (filter (\<lambda>x. w < x) (seqs ?vs))" for w
        by (fastforce simp: list_all_iff in_thread_def)
      from below_peak [OF this]
      show "progressive (max (int a) (int (length ?ws))) (filter (\<lambda>x. w < x) (seqs ?vs)) \<and>
          peak (max (int a) (int (length ?ws))) (filter (\<lambda>x. w < x) (seqs ?vs)) = max (int a) (int (length (?ws @ [])))"
        for w by simp
    qed
    with again c' facts inv' show ?thesis by auto
  qed
qed

lemma broadcast_other:
  assumes "inv s" and ok: "z_datetime z now" "min1 t" and "t \<noteq> cn_threadId c"
    and step: "fst (broadcast_append z ops now (threadStreamId t) evs expected (s, c)) = (s', c')"
  shows "inv s' \<and> view s' (threadStreamId (cn_threadId c)) = view s (threadStreamId (cn_threadId c)) \<and> c' = c"
proof -
  obtain r where app: "op_append ops now (threadStreamId t) evs expected s = (s', r)"
    and c': "c' = (case r of Inl err \<Rightarrow> c | Inr es \<Rightarrow> if es \<noteq> [] then on_append z (threadStreamId t) es c else c)"
    using step by (cases "op_append ops now (threadStreamId t) evs expected s") (auto simp: broadcast_append_def split: sum.splits)
  note ref = append_refines [OF assms(1) ok(1) stream_ids_nonempty(2) app]
  have "threadStreamId (cn_threadId c) \<noteq> threadStreamId t" using assms(4) by simp
  with ref c' show ?thesis by (auto simp: on_append_def spec_append_other split: sum.splits)
qed

lemma replay_page:
  assumes "inv s" and facts: "stores_facts z threadId fs (view s (threadStreamId threadId))"
    and conn: "conn_inv threadId a (number_events threadId 1 fs) c" and pc: "cn_pc c = Subscribed"
    and step: "stream_do z ops ReadPage (s, c) = Some (s', c')"
  shows "s' = s \<and> conn_inv threadId a (number_events threadId 1 fs) c'"
proof (cases "cn_closed c")
  case True
  with conn pc step show ?thesis
    by (auto simp: conn_inv_def sent_upto_def stream_finish_def split: sum.splits)
next
  case False
  let ?ws = "number_events threadId 1 fs" and ?m = "max (int a) (int (length fs))"
  from False conn pc have wm: "cn_watermark c = int a" "cn_threadId c = threadId" "sent_upto ?ws a 0 c"
    and q: "list_all (in_thread ?ws) (cn_queue c)"
    by (auto simp: conn_inv_def sent_upto_def)
  from q have "list_all (\<lambda>x. x \<le> ?m) (seqs (cn_queue c))" by (fastforce simp: list_all_iff in_thread_def)
  from below_peak [OF this] page_progress [of a threadId fs]
  have "progressive (int a) (seqs (drop a ?ws @ cn_queue c)) \<and> peak (int a) (seqs (drop a ?ws @ cn_queue c)) = ?m"
    by simp
  moreover have "list_all (in_thread ?ws) (drop a ?ws)"
    by (auto simp: list_all_iff dest!: in_set_dropD intro: in_thread_number)
  moreover have "c' = c\<lparr>cn_pc := PageRead (drop a ?ws)\<rparr> \<and> s' = s"
    using step pc wm read_page [OF assms(1) facts, of "int a" None] by (simp add: Let_def)
  ultimately show ?thesis using wm q False by (auto simp: conn_inv_def sent_upto_def intro!: exI [of _ 0])
qed

lemma stream_step:
  assumes "inv s" and ok: "stream_action_ok z act"
    and facts: "stores_facts z threadId fs (view s (threadStreamId threadId))"
    and conn: "conn_inv threadId a (number_events threadId 1 fs) c"
    and step: "stream_do z ops act (s, c) = Some (s', c')"
  shows "inv s' \<and> (\<exists>fs'. stores_facts z threadId fs' (view s' (threadStreamId threadId)) \<and>
    conn_inv threadId a (number_events threadId 1 fs') c')"
proof (cases act)
  case (AppendFacts now t gs expected)
  then have app: "fst (broadcast_append z ops now (threadStreamId t) (map (fact_event t) gs) expected (s, c)) = (s', c')"
    using step by simp
  show ?thesis
  proof (cases "t = threadId")
    case True
    show ?thesis
      by (rule broadcast_facts [OF assms(1) _ _ _ _ facts conn app [unfolded True]])
        (use ok AppendFacts True in simp_all)
  next
    case False
    moreover have "cn_threadId c = threadId" using conn by (simp add: conn_inv_def)
    ultimately show ?thesis using broadcast_other [OF assms(1) _ _ _ app] ok AppendFacts facts conn by auto
  qed
next
  case ReadPage
  with replay_page [OF assms(1) facts conn] step assms(1) facts show ?thesis by (auto split: if_splits)
next
  case ContinueReplay
  then obtain p where p: "cn_pc c = PageRead p" using step by (auto split: stream_pc.splits)
  show ?thesis
  proof (cases "cn_closed c")
    case True
    with step ContinueReplay p conn assms(1) facts show ?thesis
      by (auto simp: conn_inv_def sent_upto_def stream_finish_def)
  next
    case False
    with conn p have "sent_upto (number_events threadId 1 fs) a 0 c" "cn_watermark c = int a" "cn_threadId c = threadId"
      by (auto simp: conn_inv_def sent_upto_def)
    with conn_inv_sends [of "number_events threadId 1 fs" a 0 c "p @ cn_queue c"] False p conn step ContinueReplay assms(1) facts
    show ?thesis by (auto simp: conn_inv_def)
  qed
next
  case Wake
  then have w: "cn_pc c = Following" "\<not> cn_closed c" "s' = s" "c' = (fold stream_send (cn_queue c) c)\<lparr>cn_queue := []\<rparr>"
    using step by (auto split: if_splits)
  have pc: "cn_pc (fold stream_send es c) = cn_pc c" for es by (induction es arbitrary: c) simp_all
  from conn obtain k where "sent_upto (number_events threadId 1 fs) a k c" and "cn_threadId c = threadId"
    and "list_all (in_thread (number_events threadId 1 fs)) (cn_queue c)"
    and "progressive (cn_watermark c) (seqs (cn_queue c))"
    and "peak (cn_watermark c) (seqs (cn_queue c)) = max (int a) (int (length (number_events threadId 1 fs)))"
    using w by (auto simp: conn_inv_def)
  from conn_inv_sends [OF this(1,3-5,2) w(2)]
  have "conn_inv threadId a (number_events threadId 1 fs) ((fold stream_send (cn_queue c) c)\<lparr>cn_queue := [], cn_pc := Following\<rparr>)" .
  moreover have "(fold stream_send (cn_queue c) c)\<lparr>cn_queue := [], cn_pc := Following\<rparr> = c'"
    using w pc [of "cn_queue c"] by simp
  ultimately show ?thesis using w assms(1) facts by auto
next
  case Beat
  with step conn assms(1) facts show ?thesis
    by (cases "cn_pc c") (auto simp: conn_inv_def sent_upto_def split: if_splits)
next
  case Disconnect
  with step conn assms(1) facts show ?thesis by (auto simp: conn_inv_def sent_upto_def stream_finish_def)
qed

lemma stream_run_keeps:
  assumes "inv s" and "list_all (stream_action_ok z) as"
    and "stores_facts z threadId fs (view s (threadStreamId threadId))"
    and "conn_inv threadId a (number_events threadId 1 fs) c"
    and "stream_run z ops as (s, c) = Some (s', c')"
  shows "inv s' \<and> (\<exists>fs'. stores_facts z threadId fs' (view s' (threadStreamId threadId)) \<and>
    conn_inv threadId a (number_events threadId 1 fs') c')"
  using assms
proof (induction as arbitrary: s fs c)
  case (Cons act as)
  from Cons.prems(5) obtain s1 c1 where first: "stream_do z ops act (s, c) = Some (s1, c1)"
    and rest: "stream_run z ops as (s1, c1) = Some (s', c')"
    by (cases "stream_do z ops act (s, c)") auto
  from stream_step [OF Cons.prems(1) _ Cons.prems(3,4) first] Cons.prems(2)
  obtain fs1 where "inv s1" "stores_facts z threadId fs1 (view s1 (threadStreamId threadId))"
    "conn_inv threadId a (number_events threadId 1 fs1) c1" by auto
  from Cons.IH [OF this(1) _ this(2,3) rest] Cons.prems(2) show ?case by simp
qed auto

end

lemma reaches_end: "int (n + k) = max (int n) (int l) \<Longrightarrow> k \<le> l - n \<Longrightarrow> k = l - n"
  by (auto simp: max_def split: if_splits)

text \<open>
  C3: a client of the live stream gets its thread's events, in order, once, and all of them. It
  connects after any sequence, to a thread with any history; then appends to this and other
  threads (retried and conflicting ones too), the replay, wake-ups, heartbeats and the end of the
  connection interleave in any way the handler allows. However the network cuts the body into
  chunks, the client yields a prefix of the events past its cursor without failing, and it has
  yielded all of them once the handler follows with an empty queue.
\<close>

theorem client_receives_all:
  assumes "thread_calls_ok z calls" and "list_all (stream_action_ok z) as"
    and "stream_run z (host_sqlite z) as
      (thread_run (host_sqlite z) calls sqlite_new, stream_open threadId after) = Some (s, c)"
    and "readThreadEvents z (host_sqlite z) threadId (Some 0) None s = Inr page"
    and "list_all (json_ok json decode) (pg_events page)"
    and "concat chunks = body_text json c"
  shows "\<exists>k. streamItems decode chunks [] = (take k (drop (nat after) (pg_events page)), False) \<and>
    (cn_pc c = Following \<and> cn_queue c = [] \<and> \<not> cn_closed c \<longrightarrow>
      streamItems decode chunks [] = (drop (nat after) (pg_events page), False))"
proof -
  have new: "stores_facts z threadId [] (sqlite_view sqlite_new (threadStreamId threadId))"
    by (simp add: stores_facts_def sqlite_new_view)
  from sqlite_host.run_facts [OF sqlite_new_inv assms(1) new]
    sqlite_host.stream_run_keeps [OF _ assms(2) _ conn_inv_open assms(3)]
  obtain fs where fs: "sqlite_inv z (host_registry z) s" "stores_facts z threadId fs (sqlite_view s (threadStreamId threadId))"
    and conn: "conn_inv threadId (nat after) (number_events threadId 1 fs) c" by auto
  have page: "pg_events page = number_events threadId 1 fs"
    using sqlite_host.read_page [OF fs, of 0 None] assms(4) by auto
  with conn obtain k where sent: "sent_upto (pg_events page) (nat after) k c" by (auto simp: conn_inv_def)
  then have es: "sent_events (cn_writes c) = take k (drop (nat after) (pg_events page))" by (simp add: sent_upto_def)
  then have "list_all (json_ok json decode) (sent_events (cn_writes c))"
    using assms(5) by (auto simp: list_all_iff dest!: in_set_takeD in_set_dropD)
  from client_reads_writes [OF this assms(6)] have got: "streamItems decode chunks [] = (take k (drop (nat after) (pg_events page)), False)"
    by (simp add: es)
  moreover have "take k (drop (nat after) (pg_events page)) = drop (nat after) (pg_events page)"
    if "cn_pc c = Following \<and> cn_queue c = [] \<and> \<not> cn_closed c"
  proof -
    have "cn_watermark c = max (int (nat after)) (int (length fs))" using conn that by (auto simp: conn_inv_def)
    with sent have "int (nat after + k) = max (int (nat after)) (int (length fs))" "k \<le> length fs - nat after"
      unfolding sent_upto_def page length_number_events by argo+
    then have "k = length fs - nat after" by (rule reaches_end)
    then show ?thesis by (simp add: page)
  qed
  ultimately show ?thesis by auto
qed

section \<open>A sample connection\<close>

text \<open>
  A client reconnects after the first event; an append and its retry arrive during the replay,
  another one wakes the loop.
\<close>

definition sample_actions :: "stream_action list" where
  "sample_actions = [AppendFacts ''n'' ''t'' [delta_fact ''e'' ''now''] 4, ReadPage,
     AppendFacts ''n'' ''t'' [delta_fact ''e'' ''now''] 4, AppendFacts ''n'' ''u'' [delta_fact ''g'' ''other''] 2,
     ContinueReplay, Beat, AppendFacts ''n'' ''t'' [delta_fact ''f'' ''more''] 5, Wake]"

definition sample_stream :: "(payload sqlite_db \<times> stream_conn) option" where
  "sample_stream = stream_run any_zod (host_sqlite any_zod) sample_actions
     (thread_run (host_sqlite any_zod) sample_thread_calls sqlite_new, stream_open ''t'' 1)"

definition sample_json :: "thread_event \<Rightarrow> string" where
  "sample_json e = int_string (te_sequence e)"

definition sample_decode :: "thread_event list \<Rightarrow> string \<Rightarrow> thread_event option" where
  "sample_decode es s = find (\<lambda>e. sample_json e = s) es"

definition sample_events :: "thread_event list" where
  "sample_events = number_events ''t'' 1 [naming_fact ''a'' ''trip'', delta_fact ''b'' ''hello'',
     delta_fact ''d'' ''world'', delta_fact ''e'' ''now'', delta_fact ''f'' ''more'']"

lemma sample_stream_runs:
  "case sample_stream of None \<Rightarrow> False | Some (s, c) \<Rightarrow> cn_pc c = Following \<and> cn_queue c = [] \<and> \<not> cn_closed c \<and>
     readThreadEvents any_zod (host_sqlite any_zod) ''t'' (Some 0) None s =
       Inr \<lparr>pg_events = sample_events, pg_hasMore = False\<rparr>"
  by code_simp

lemma sample_actions_ok: "list_all (stream_action_ok any_zod) sample_actions"
  by (simp add: sample_actions_def fact_ok_def delta_fact_def any_zod_def thread_payload_ok_def wire_payload_def)

lemma sample_json_ok: "list_all (json_ok sample_json (sample_decode sample_events)) sample_events"
proof -
  have "plain_text (sample_json e)" for e by (simp add: sample_json_def int_string_plain)
  moreover have "list_all (\<lambda>e. sample_json e \<noteq> [] \<and> sample_decode sample_events (sample_json e) = Some e) sample_events"
    by code_simp
  ultimately show ?thesis by (simp add: list_all_iff json_ok_def)
qed

lemma client_receives_all_witness:
  "\<exists>s c. sample_stream = Some (s, c) \<and>
     streamItems (sample_decode sample_events)
       [take 7 (body_text sample_json c), drop 7 (body_text sample_json c)] [] = (drop 1 sample_events, False)"
proof -
  obtain s c where run: "sample_stream = Some (s, c)" using sample_stream_runs by (auto split: option.splits)
  note ran = sample_stream_runs [unfolded run option.case prod.case]
  have "list_all (json_ok sample_json (sample_decode sample_events)) (pg_events \<lparr>pg_events = sample_events, pg_hasMore = False\<rparr>)"
    using sample_json_ok by simp
  from client_receives_all [OF sample_facts_ok(2) sample_actions_ok run [unfolded sample_stream_def] _ this,
      of "[take 7 (body_text sample_json c), drop 7 (body_text sample_json c)]"] ran
  have "streamItems (sample_decode sample_events) [take 7 (body_text sample_json c), drop 7 (body_text sample_json c)] [] =
      (drop 1 sample_events, False)" by simp
  with run show ?thesis by blast
qed

end
