(* ===== verification/Spec2Isabelle.thy ===== *)
theory Spec2Isabelle
  imports KanbanProjection ChronicleEquivalence ThreadHistory SchedulerProperties KanbanWorkers
    StructureResolution ContextBudget ContextRegistry ToolPermissions GrantStore
    StructureLog WorldStore EventStream
begin

text \<open>
  Bee is an agent host: one process that keeps an append-only event log, the Chronicle, and
  components that are each a projection of their own streams in it. This development models the
  packages that carry that design, in the order in which they build on each other, and proves
  that the projections agree with the log, that they survive a restart, and that the guards
  around the model's actions hold. All paths below are under \<open>src/\<close>.

  \<^bold>\<open>The Chronicle\<close> (\<open>packages/knowledge\<close>, \<open>adapters/storage/sqlite\<close>). \<open>Chronicle\<close> has the envelope
  (\<open>envelope.ts\<close>), the schema registry (\<open>registry.ts\<close>), the store interface
  (\<open>chronicle-store.ts\<close>) as a record of operations, the abstract specification \<open>spec_append\<close> of
  its one writing operation, and the locale \<open>chronicle_store\<close> of the laws a client relies on.
  \<open>ChronicleMemory\<close> and \<open>ChronicleSqlite\<close> model the two stores and interpret the locale;
  \<open>ChronicleEquivalence\<close> shows that no sequence of calls can tell them apart. \<open>HostEvents\<close> is the
  sum of the payloads of all components with the registry that \<open>apps/bee/src/main.ts\<close> builds, and
  \<open>HostChronicle\<close> the locale \<open>host_chronicle\<close> of a store under that registry, in which the
  components prove their lemmas; it too is interpreted on both stores.

  \<^bold>\<open>Kanban\<close> (\<open>packages/kanban\<close>). \<open>KanbanTypes\<close> (\<open>protocol.ts\<close>, \<open>construct.ts\<close>, \<open>events.ts\<close>),
  \<open>KanbanMachine\<close> (\<open>state-machine.ts\<close>: transition table, guarded transition, shortest hop
  sequence), \<open>KanbanStore\<close> (\<open>store.ts\<close>) with its proofs in \<open>KanbanProjection\<close>, and the worker
  leases: \<open>KanbanDispatcher\<close> (\<open>dispatcher.ts\<close>), \<open>KanbanLeases\<close> and \<open>KanbanWorkers\<close>.

  \<^bold>\<open>Threads\<close> (\<open>packages/thread\<close>). \<open>ThreadTypes\<close> (\<open>protocol.ts\<close>), \<open>ThreadLog\<close> (\<open>index.ts\<close>: builders,
  paged reads, conversation list) and their properties in \<open>ThreadHistory\<close>. \<open>ServerSentEvents\<close> is the
  parser of \<open>packages/client/src/sse.ts\<close>, and \<open>EventStream\<close> the live stream end to end: the
  broadcasting Chronicle, the handler of \<open>GET /threads/:id/items\<close> (\<open>apps/bee/src\<close>) and the client's
  \<open>streamItems\<close>.

  \<^bold>\<open>World model\<close> (\<open>packages/knowledge/src/world*.ts\<close>). \<open>WorldTypes\<close> has the schemas; \<open>WorldStore\<close> has
  \<open>record\<close>, \<open>rebuild\<close> under both drift policies and the queries, shows that a restart recovers the
  world that was recorded and that a rebase settles.

  \<^bold>\<open>Scheduler\<close> (\<open>packages/runtime/src/scheduler*.ts\<close>). \<open>IsoTime\<close> models \<open>Date.parse\<close> and
  \<open>toISOString\<close> on the years 0 to 9999 and what is outside; \<open>SchedulerTypes\<close>, \<open>Scheduler\<close>,
  \<open>SchedulerLog\<close> and \<open>SchedulerProperties\<close> have the triggers, every operation and what they keep.

  \<^bold>\<open>Structures and the kernel\<close> (\<open>packages/kernel\<close>, \<open>packages/knowledge/src/structure-events.ts\<close>,
  \<open>packages/runtime/src/structure-reconciler.ts\<close>). \<open>CanonicalJson\<close> prints JSON by code unit order
  and shows the print injective up to member order. \<open>Structure\<close> and \<open>StructureResolution\<close> resolve
  bundles into an effective structure with its digest (\<open>structure.ts\<close>). \<open>PluginCatalog\<close> makes a
  plugin graph of it, \<open>PluginGraph\<close> orders the graph and plans the way from one to the next, and
  \<open>KernelGenerations\<close> has the generations with their leases as a step relation \<open>kernel_step\<close>
  (\<open>kernel.ts\<close>): \<open>reconcile\<close> is split at its awaits, so turns and disposals interleave with it.
  \<open>StructureTypes\<close> and \<open>StructureLog\<close> log the lifecycle and read the active structure back.

  \<^bold>\<open>Execution\<close> (\<open>packages/execution\<close>, \<open>packages/runtime\<close>). \<open>ExecutionTypes\<close>, \<open>Authorization\<close> (the
  policies), \<open>ActionPaths\<close> (canonical paths) and \<open>ExecutionWorld\<close> (the whole of
  \<open>ExecutionWorld.execute\<close>); \<open>ExecutionLog\<close> and \<open>ExecutionSafety\<close> show what the log makes of it.
  \<open>ToolExecution\<close> and \<open>ToolPermissions\<close> put the permission layers of a tool call in front of it,
  and \<open>GrantStore\<close> is the durable set of remembered grants.

  \<^bold>\<open>Context\<close> (\<open>packages/context\<close>). \<open>Context\<close> and \<open>ContextBudget\<close> have the manifest, its rebuild and
  the allocation under a budget; \<open>ContextRegistry\<close> the tool and skill registries.

  \<^bold>\<open>How the code is translated.\<close> A class is a record of its private fields, a method a function
  from the state to the new state and an answer; a method that writes to the Chronicle takes the
  store's operations as an argument, so its lemmas hold of every store that meets the contract.
  A JavaScript \<open>Map\<close> is an association list in insertion order (\<open>jsmap\<close>), a \<open>Set\<close> a list, \<open>sort\<close> a
  stable insertion sort by the code's comparator. A throw is the left of a sum; the messages of
  errors are not modelled beyond the values they carry. Zod schemas are boolean predicates; the
  formats zod itself defines (uuid, date-time) are fields of \<open>zod\<close>. Random ids and clock
  readings come from \<open>env\<close>. Characters are 8-bit; texts of the source outside that range are
  transcribed. JavaScript numbers are integers, the only ones these components compute with.

  \<^bold>\<open>Parameters.\<close> SHA-256, \<open>localeCompare\<close>, bundle loaders, renderers, the file system, sandboxes,
  secret brokers, tools, turns and fibers are code outside the repository, or inputs of it, and
  are arguments of the definitions. Hypotheses about them are named predicates (\<open>clock_ok\<close>,
  \<open>call_ok\<close>, \<open>turns_ok\<close>, \<open>js_comparator\<close>, \<open>hex_digits\<close>) that the witnesses instantiate.

  \<^bold>\<open>Fuel.\<close> Bundle resolution (\<open>Structure\<close>) takes fuel; \<open>resolution_ends\<close> shows that fuel above the
  number of loadable bundles is enough. The dependency search (\<open>PluginGraph\<close>) runs with fuel
  above the number of plugins, and \<open>refused_for_cause\<close> shows that it never runs out. All other
  loops are structural or have a measure.

  \<^bold>\<open>Interleaving.\<close> A method whose awaits are only Chronicle calls is one step: the code queues
  them behind a promise tail (scheduler, world, structure writer) or behind the expected
  sequence of the append. The exceptions are the kernel's reconciliation and the handler of the
  live stream: both are split at their awaits, and their theorems hold for every interleaving.

  \<^bold>\<open>Not modelled.\<close> The agent loop and the model providers, memory, the learning statistics, tool
  adapters, operating-system sandboxes, the other HTTP routes and the rest of the clients: their
  behaviour is I/O, free text or floating-point statistics. The Cordis framework under the
  kernel is vendored.
\<close>

end
